(* ===== verification/Posix_Prelude.thy ===== *)
theory Posix_Prelude
  imports Main "HOL-Library.Word"
begin

text \<open>
  Shared vocabulary of the development: the C types of the 32-bit ARM target
  (\<open>int\<close> as HOL integers with the conversion \<open>cint\<close> where a wider value is
  narrowed, \<open>size_t\<close> and \<open>uintptr_t\<close> as 32-bit words), the flat byte memory that
  buffers live in, the POSIX error numbers of newlib's \<open>errno.h\<close>, and the search loop
  that several components share. The named collections \<open>libc_defs\<close> (operations to
  unfold) and \<open>frame_simps\<close> (what an operation leaves alone) are filled by the component
  theories.
\<close>

unbundle bit_operations_syntax

named_theorems libc_defs "definitions of the modelled operations"
named_theorems frame_simps "fields that an operation leaves unchanged"

section \<open>C types of the target\<close>

type_synonym byte = "8 word"
type_synonym addr = "32 word"
type_synonym size_t = "32 word"

text \<open>Conversion of an integer value to the 32-bit \<open>int\<close> of the target.\<close>

definition cint :: "int \<Rightarrow> int" where
  "cint x = sint (word_of_int x :: 32 word)"

lemma cint_id: "- (2 ^ 31) \<le> x \<Longrightarrow> x < 2 ^ 31 \<Longrightarrow> cint x = x"
  by (simp add: cint_def sint_sbintrunc' signed_take_bit_int_eq_self)

lemma cint_bounds: "- (2 ^ 31) \<le> cint x \<and> cint x < 2 ^ 31"
  unfolding cint_def using sint_ge [of "word_of_int x :: 32 word"] sint_lt [of "word_of_int x :: 32 word"]
  by simp

lemma cint_cint [simp]: "cint (cint x) = cint x"
  using cint_bounds [of x] by (intro cint_id) auto

section \<open>Memory\<close>

type_synonym memory = "addr \<Rightarrow> byte"

text \<open>The byte addresses \<open>p, p + 1, \<dots>, p + n - 1\<close>, wrapping at \<open>2 ^ 32\<close>.\<close>

definition in_range :: "addr \<Rightarrow> size_t \<Rightarrow> addr \<Rightarrow> bool" where
  "in_range p n a \<longleftrightarrow> a - p < n"

definition mem_set :: "addr \<Rightarrow> byte \<Rightarrow> size_t \<Rightarrow> memory \<Rightarrow> memory" where
  "mem_set p v n m = (\<lambda>a. if in_range p n a then v else m a)"

definition mem_load :: "addr \<Rightarrow> nat \<Rightarrow> memory \<Rightarrow> byte list" where
  "mem_load p n m = map (\<lambda>i. m (p + of_nat i)) [0..<n]"

fun mem_store :: "addr \<Rightarrow> byte list \<Rightarrow> memory \<Rightarrow> memory" where
  "mem_store p [] m = m"
| "mem_store p (b # bs) m = mem_store (p + 1) bs (m(p := b))"

definition mem_copy :: "addr \<Rightarrow> addr \<Rightarrow> size_t \<Rightarrow> memory \<Rightarrow> memory" where
  "mem_copy d s n m = mem_store d (mem_load s (unat n) m) m"

lemma length_mem_load [simp]: "length (mem_load p n m) = n"
  by (simp add: mem_load_def)

lemma nth_mem_load [simp]: "i < n \<Longrightarrow> mem_load p n m ! i = m (p + of_nat i)"
  by (simp add: mem_load_def)

lemma mem_load_0 [simp]: "mem_load p 0 m = []"
  by (simp add: mem_load_def)

lemma mem_load_append:
  "mem_load p (n + k) m = mem_load p n m @ mem_load (p + of_nat n) k m"
  by (rule nth_equalityI) (auto simp: nth_append add.assoc simp flip: of_nat_add)

lemma mem_load_Suc: "mem_load p (Suc n) m = m p # mem_load (p + 1) n m"
  using mem_load_append [of p 1 n m] by (simp add: mem_load_def)

text \<open>A store reaches exactly the addresses of its range.\<close>

lemma mem_store_outside:
  "length bs \<le> 2 ^ 32 \<Longrightarrow> \<not> unat (a - p) < length bs \<Longrightarrow> mem_store p bs m a = m a"
proof (induction bs arbitrary: p m)
  case Nil
  then show ?case by simp
next
  case (Cons b bs)
  have ne: "a \<noteq> p" using Cons.prems by auto
  then have "unat (a - p) \<noteq> 0" by (simp add: unat_eq_0)
  then have "unat (a - (p + 1)) = unat (a - p) - 1"
    by (metis (no_types, opaque_lifting) diff_diff_eq unat_eq_zero unat_minus_one)
  then have "\<not> unat (a - (p + 1)) < length bs" using Cons.prems by simp
  with Cons ne show ?case by simp
qed

lemma mem_load_store_same:
  "length bs \<le> 2 ^ 32 \<Longrightarrow> mem_load p (length bs) (mem_store p bs m) = bs"
proof (induction bs arbitrary: p m)
  case Nil
  then show ?case by simp
next
  case (Cons b bs)
  have "p - (p + 1) = (-1 :: addr)" by simp
  moreover have "unat (-1 :: addr) = 2 ^ 32 - 1"
    by (simp add: unsigned_minus_1_eq_mask mask_eq_exp_minus_1)
  ultimately have "unat (p - (p + 1)) = 2 ^ 32 - 1" by simp
  then have "\<not> unat (p - (p + 1)) < length bs" using Cons.prems by simp
  then have "mem_store (p + 1) bs (m(p := b)) p = b"
    using Cons.prems by (subst mem_store_outside) auto
  then show ?case using Cons by (simp add: mem_load_Suc)
qed

text \<open>Ranges, by offset.\<close>

lemma unat_lt32: "unat (n :: 32 word) < 2 ^ 32"
  using unsigned_less [of n, where 'a = nat] by simp

lemma int_unat_lt32: "int (unat (n :: 32 word)) < 2 ^ 32"
  using unsigned_less [of n, where 'a = int] by simp

lemma unat_le32: "unat (n :: 32 word) \<le> 2 ^ 32"
  using unat_lt32 [of n] by simp

lemma unat_word_of_int32: "0 \<le> x \<Longrightarrow> x < 2 ^ 32 \<Longrightarrow> unat (word_of_int x :: 32 word) = nat x"
  by (simp add: unsigned_of_int take_bit_int_eq_self)

lemma in_range_split:
  "n \<le> k \<Longrightarrow> in_range p k a \<longleftrightarrow> in_range p n a \<or> in_range (p + n) (k - n) a"
proof -
  assume le: "n \<le> k"
  define x where "x = a - p"
  have "a - p = x" "a - (p + n) = x - n" by (simp_all add: x_def)
  moreover have "x < k \<longleftrightarrow> x < n \<or> x - n < k - n"
    using le by (simp add: word_less_nat_alt word_le_nat_alt unat_sub_if' split: if_splits) 
      (use unat_lt32 [of k] in auto)
  ultimately show ?thesis by (simp only: in_range_def)
qed

lemma in_range_tail_disjoint: "n \<le> k \<Longrightarrow> in_range p n a \<Longrightarrow> \<not> in_range (p + n) (k - n) a"
proof -
  assume le: "n \<le> k" and a: "in_range p n a"
  define x where "x = a - p"
  have "a - p = x" "a - (p + n) = x - n" by (simp_all add: x_def)
  moreover have "x < n" using a by (simp add: in_range_def x_def)
  then have "\<not> x - n < k - n"
    using le unat_lt32 [of k] by (simp add: word_less_nat_alt word_le_nat_alt unat_sub_if')
  ultimately show ?thesis by (metis in_range_def)
qed

lemma in_range_offset: "i < unat n \<Longrightarrow> in_range p n (p + of_nat i)"
proof -
  assume i: "i < unat n"
  then have "i < 2 ^ 32" using unat_lt32 [of n] by simp
  then have "unat (of_nat i :: addr) = i" by (simp add: unat_of_nat)
  with i show ?thesis by (simp add: in_range_def word_less_nat_alt)
qed

lemma in_range_0 [simp]: "\<not> in_range p 0 a"
  by (simp add: in_range_def)

text \<open>A copy changes exactly the destination, and makes it the source.\<close>

lemma mem_copy_outside: "\<not> in_range d n a \<Longrightarrow> mem_copy d s n m a = m a"
  unfolding mem_copy_def using unat_le32 [of n]
  by (intro mem_store_outside) (simp_all add: in_range_def word_less_nat_alt)

lemma mem_load_copy: "mem_load d (unat n) (mem_copy d s n m) = mem_load s (unat n) m"
  using mem_load_store_same [of "mem_load s (unat n) m" d m] unat_le32 [of n] by (simp add: mem_copy_def)

lemma mem_load_cong:
  "(\<And>i. i < n \<Longrightarrow> m (p + of_nat i) = m' (p + of_nat i)) \<Longrightarrow> mem_load p n m = mem_load p n m'"
  by (simp add: mem_load_def)

lemma mem_load_frame:
  "(\<And>a. in_range p n a \<Longrightarrow> m a = m' a) \<Longrightarrow> mem_load p (unat n) m = mem_load p (unat n) m'"
  by (rule mem_load_cong) (simp add: in_range_offset)

lemma mem_load_split:
  "n \<le> k \<Longrightarrow> mem_load p (unat k) m = mem_load p (unat n) m @ mem_load (p + n) (unat (k - n)) m"
  using mem_load_append [of p "unat n" "unat (k - n)" m]
  by (simp add: unat_sub word_le_nat_alt)

text \<open>Two buffers that share no address.\<close>

definition apart :: "addr \<Rightarrow> size_t \<Rightarrow> addr \<Rightarrow> size_t \<Rightarrow> bool" where
  "apart p n q k \<longleftrightarrow> (\<forall>a. in_range p n a \<longrightarrow> \<not> in_range q k a)"

section \<open>Search loops\<close>

text \<open>
  The loop \<^verbatim>\<open>for (i = lo; i < hi; ++i) if (P(i)) ...\<close> with an early exit: the first
  index of the range that satisfies the condition.
\<close>

function first_index :: "(nat \<Rightarrow> bool) \<Rightarrow> nat \<Rightarrow> nat \<Rightarrow> nat option" where
  "first_index P lo hi =
     (if lo < hi then (if P lo then Some lo else first_index P (Suc lo) hi) else None)"
  by pat_completeness auto
termination
  by (relation "measure (\<lambda>(P, lo, hi). hi - lo)") auto

declare first_index.simps [simp del]

lemma first_index_Some:
  "first_index P lo hi = Some i \<Longrightarrow>
     lo \<le> i \<and> i < hi \<and> P i \<and> (\<forall>j. lo \<le> j \<and> j < i \<longrightarrow> \<not> P j)"
proof (induction P lo hi rule: first_index.induct)
  case (1 P lo hi)
  show ?case
  proof (cases "lo < hi \<and> \<not> P lo")
    case True
    with "1.prems" have "first_index P (Suc lo) hi = Some i"
      by (simp add: first_index.simps [of P lo hi])
    with "1.IH" True show ?thesis by (metis Suc_leI Suc_leD le_neq_implies_less)
  next
    case False
    with "1.prems" show ?thesis
      by (auto simp: first_index.simps [of P lo hi] split: if_splits)
  qed
qed

lemma first_index_None: "first_index P lo hi = None \<longleftrightarrow> (\<forall>j. lo \<le> j \<and> j < hi \<longrightarrow> \<not> P j)"
proof (induction P lo hi rule: first_index.induct)
  case (1 P lo hi)
  show ?case
  proof (cases "lo < hi \<and> \<not> P lo")
    case True
    then have "first_index P lo hi = first_index P (Suc lo) hi"
      by (simp add: first_index.simps [of P lo hi])
    with "1.IH" True show ?thesis by (metis Suc_leI Suc_leD le_neq_implies_less)
  next
    case False
    then show ?thesis by (auto simp: first_index.simps [of P lo hi])
  qed
qed

lemma first_index_ex: "P i \<Longrightarrow> lo \<le> i \<Longrightarrow> i < hi \<Longrightarrow> \<exists>j. first_index P lo hi = Some j"
  using first_index_None [of P lo hi] by (cases "first_index P lo hi") auto

lemma first_index_eqI:
  assumes "lo \<le> i" "i < hi" "P i" "\<And>j. lo \<le> j \<Longrightarrow> j < i \<Longrightarrow> \<not> P j"
  shows "first_index P lo hi = Some i"
proof (cases "first_index P lo hi")
  case None
  with assms(1-3) show ?thesis by (auto simp: first_index_None)
next
  case (Some k)
  then have k: "lo \<le> k" "k < hi" "P k" "\<And>j. lo \<le> j \<Longrightarrow> j < k \<Longrightarrow> \<not> P j"
    using first_index_Some by blast+
  have "k = i" using k assms by (metis linorder_neqE_nat)
  with Some show ?thesis by simp
qed

section \<open>Error numbers\<close>

text \<open>The values newlib's \<open>errno.h\<close> gives to the POSIX error numbers.\<close>

abbreviation (input) EPERM :: int where "EPERM \<equiv> 1"
abbreviation (input) ENOENT :: int where "ENOENT \<equiv> 2"
abbreviation (input) ESRCH :: int where "ESRCH \<equiv> 3"
abbreviation (input) EINTR :: int where "EINTR \<equiv> 4"
abbreviation (input) EIO :: int where "EIO \<equiv> 5"
abbreviation (input) ENXIO :: int where "ENXIO \<equiv> 6"
abbreviation (input) E2BIG :: int where "E2BIG \<equiv> 7"
abbreviation (input) ENOEXEC :: int where "ENOEXEC \<equiv> 8"
abbreviation (input) EBADF :: int where "EBADF \<equiv> 9"
abbreviation (input) ECHILD :: int where "ECHILD \<equiv> 10"
abbreviation (input) EAGAIN :: int where "EAGAIN \<equiv> 11"
abbreviation (input) ENOMEM :: int where "ENOMEM \<equiv> 12"
abbreviation (input) EACCES :: int where "EACCES \<equiv> 13"
abbreviation (input) EFAULT :: int where "EFAULT \<equiv> 14"
abbreviation (input) ENOTBLK :: int where "ENOTBLK \<equiv> 15"
abbreviation (input) EBUSY :: int where "EBUSY \<equiv> 16"
abbreviation (input) EEXIST :: int where "EEXIST \<equiv> 17"
abbreviation (input) EXDEV :: int where "EXDEV \<equiv> 18"
abbreviation (input) ENODEV :: int where "ENODEV \<equiv> 19"
abbreviation (input) ENOTDIR :: int where "ENOTDIR \<equiv> 20"
abbreviation (input) EISDIR :: int where "EISDIR \<equiv> 21"
abbreviation (input) EINVAL :: int where "EINVAL \<equiv> 22"
abbreviation (input) ENFILE :: int where "ENFILE \<equiv> 23"
abbreviation (input) EMFILE :: int where "EMFILE \<equiv> 24"
abbreviation (input) ENOTTY :: int where "ENOTTY \<equiv> 25"
abbreviation (input) ETXTBSY :: int where "ETXTBSY \<equiv> 26"
abbreviation (input) EFBIG :: int where "EFBIG \<equiv> 27"
abbreviation (input) ENOSPC :: int where "ENOSPC \<equiv> 28"
abbreviation (input) ESPIPE :: int where "ESPIPE \<equiv> 29"
abbreviation (input) EROFS :: int where "EROFS \<equiv> 30"
abbreviation (input) EMLINK :: int where "EMLINK \<equiv> 31"
abbreviation (input) EPIPE :: int where "EPIPE \<equiv> 32"
abbreviation (input) EDOM :: int where "EDOM \<equiv> 33"
abbreviation (input) ERANGE :: int where "ERANGE \<equiv> 34"
abbreviation (input) EIDRM :: int where "EIDRM \<equiv> 36"
abbreviation (input) EDEADLK :: int where "EDEADLK \<equiv> 45"
abbreviation (input) ENOLCK :: int where "ENOLCK \<equiv> 46"
abbreviation (input) ENOSTR :: int where "ENOSTR \<equiv> 60"
abbreviation (input) ENODATA :: int where "ENODATA \<equiv> 61"
abbreviation (input) ETIME :: int where "ETIME \<equiv> 62"
abbreviation (input) ENOSR :: int where "ENOSR \<equiv> 63"
abbreviation (input) EREMOTE :: int where "EREMOTE \<equiv> 66"
abbreviation (input) EBADMSG :: int where "EBADMSG \<equiv> 77"
abbreviation (input) ENOSYS :: int where "ENOSYS \<equiv> 88"
abbreviation (input) ENOTEMPTY :: int where "ENOTEMPTY \<equiv> 90"
abbreviation (input) ENAMETOOLONG :: int where "ENAMETOOLONG \<equiv> 91"
abbreviation (input) ELOOP :: int where "ELOOP \<equiv> 92"
abbreviation (input) EOPNOTSUPP :: int where "EOPNOTSUPP \<equiv> 95"
abbreviation (input) EPFNOSUPPORT :: int where "EPFNOSUPPORT \<equiv> 96"
abbreviation (input) ECONNRESET :: int where "ECONNRESET \<equiv> 104"
abbreviation (input) ENOBUFS :: int where "ENOBUFS \<equiv> 105"
abbreviation (input) EAFNOSUPPORT :: int where "EAFNOSUPPORT \<equiv> 106"
abbreviation (input) EPROTOTYPE :: int where "EPROTOTYPE \<equiv> 107"
abbreviation (input) ENOTSOCK :: int where "ENOTSOCK \<equiv> 108"
abbreviation (input) ENOPROTOOPT :: int where "ENOPROTOOPT \<equiv> 109"
abbreviation (input) ESHUTDOWN :: int where "ESHUTDOWN \<equiv> 110"
abbreviation (input) ECONNREFUSED :: int where "ECONNREFUSED \<equiv> 111"
abbreviation (input) EADDRINUSE :: int where "EADDRINUSE \<equiv> 112"
abbreviation (input) ECONNABORTED :: int where "ECONNABORTED \<equiv> 113"
abbreviation (input) ENETUNREACH :: int where "ENETUNREACH \<equiv> 114"
abbreviation (input) ENETDOWN :: int where "ENETDOWN \<equiv> 115"
abbreviation (input) ETIMEDOUT :: int where "ETIMEDOUT \<equiv> 116"
abbreviation (input) EHOSTDOWN :: int where "EHOSTDOWN \<equiv> 117"
abbreviation (input) EHOSTUNREACH :: int where "EHOSTUNREACH \<equiv> 118"
abbreviation (input) EINPROGRESS :: int where "EINPROGRESS \<equiv> 119"
abbreviation (input) EALREADY :: int where "EALREADY \<equiv> 120"
abbreviation (input) EDESTADDRREQ :: int where "EDESTADDRREQ \<equiv> 121"
abbreviation (input) EMSGSIZE :: int where "EMSGSIZE \<equiv> 122"
abbreviation (input) EPROTONOSUPPORT :: int where "EPROTONOSUPPORT \<equiv> 123"
abbreviation (input) ESOCKTNOSUPPORT :: int where "ESOCKTNOSUPPORT \<equiv> 124"
abbreviation (input) EADDRNOTAVAIL :: int where "EADDRNOTAVAIL \<equiv> 125"
abbreviation (input) ENETRESET :: int where "ENETRESET \<equiv> 126"
abbreviation (input) EISCONN :: int where "EISCONN \<equiv> 127"
abbreviation (input) ENOTCONN :: int where "ENOTCONN \<equiv> 128"
abbreviation (input) ETOOMANYREFS :: int where "ETOOMANYREFS \<equiv> 129"
abbreviation (input) EUSERS :: int where "EUSERS \<equiv> 131"
abbreviation (input) EDQUOT :: int where "EDQUOT \<equiv> 132"
abbreviation (input) ESTALE :: int where "ESTALE \<equiv> 133"
abbreviation (input) ENOTSUP :: int where "ENOTSUP \<equiv> 134"
abbreviation (input) EILSEQ :: int where "EILSEQ \<equiv> 138"
abbreviation (input) EOVERFLOW :: int where "EOVERFLOW \<equiv> 139"
abbreviation (input) ECANCELED :: int where "ECANCELED \<equiv> 140"

end
