(* ===== verification/Vita_Error.thy ===== *)
theory Vita_Error
  imports Posix_Prelude
begin

text \<open>
  Error translation, \<^verbatim>\<open>src/internal/vitaerror.c\<close>: the result codes of the platform
  services become POSIX error numbers. The codes of FIOS2 are those of
  \<^verbatim>\<open>src/internal/fios2.h\<close>. The codes of SceNet come from a header of the SDK that is not
  part of the repository: they are the parameter \<open>net\<close>, where \<open>net EPERM\<close> stands for
  \<^verbatim>\<open>SCE_NET_EPERM\<close> and so on. What the switch of the source needs of them (distinct
  case labels within one byte) is the hypothesis \<open>net_codes\<close>.
\<close>

datatype ErrorType = ERROR_GENERIC | ERROR_SOCKET | ERROR_FIOS

section \<open>FIOS2 result codes\<close>

text \<open>
  The enumeration \<open>SceFiosErrorCode\<close> counts up from \<open>0x80820000\<close>; as the labels of a
  switch over an \<open>int\<close> its members are converted to \<open>int\<close>, hence negative.
\<close>

definition fios_code :: "nat \<Rightarrow> int" where
  "fios_code k = 0x80820000 + int k - 2 ^ 32"

abbreviation (input) SCE_FIOS_ERROR_UNIMPLEMENTED :: int where "SCE_FIOS_ERROR_UNIMPLEMENTED \<equiv> fios_code 0"
abbreviation (input) SCE_FIOS_ERROR_CANT_ALLOCATE_OP :: int where "SCE_FIOS_ERROR_CANT_ALLOCATE_OP \<equiv> fios_code 1"
abbreviation (input) SCE_FIOS_ERROR_CANT_ALLOCATE_FH :: int where "SCE_FIOS_ERROR_CANT_ALLOCATE_FH \<equiv> fios_code 2"
abbreviation (input) SCE_FIOS_ERROR_CANT_ALLOCATE_DH :: int where "SCE_FIOS_ERROR_CANT_ALLOCATE_DH \<equiv> fios_code 3"
abbreviation (input) SCE_FIOS_ERROR_CANT_ALLOCATE_CHUNK :: int where "SCE_FIOS_ERROR_CANT_ALLOCATE_CHUNK \<equiv> fios_code 4"
abbreviation (input) SCE_FIOS_ERROR_BAD_PATH :: int where "SCE_FIOS_ERROR_BAD_PATH \<equiv> fios_code 5"
abbreviation (input) SCE_FIOS_ERROR_BAD_PTR :: int where "SCE_FIOS_ERROR_BAD_PTR \<equiv> fios_code 6"
abbreviation (input) SCE_FIOS_ERROR_BAD_OFFSET :: int where "SCE_FIOS_ERROR_BAD_OFFSET \<equiv> fios_code 7"
abbreviation (input) SCE_FIOS_ERROR_BAD_SIZE :: int where "SCE_FIOS_ERROR_BAD_SIZE \<equiv> fios_code 8"
abbreviation (input) SCE_FIOS_ERROR_BAD_IOVCNT :: int where "SCE_FIOS_ERROR_BAD_IOVCNT \<equiv> fios_code 9"
abbreviation (input) SCE_FIOS_ERROR_BAD_OP :: int where "SCE_FIOS_ERROR_BAD_OP \<equiv> fios_code 10"
abbreviation (input) SCE_FIOS_ERROR_BAD_FH :: int where "SCE_FIOS_ERROR_BAD_FH \<equiv> fios_code 11"
abbreviation (input) SCE_FIOS_ERROR_BAD_DH :: int where "SCE_FIOS_ERROR_BAD_DH \<equiv> fios_code 12"
abbreviation (input) SCE_FIOS_ERROR_BAD_ALIGNMENT :: int where "SCE_FIOS_ERROR_BAD_ALIGNMENT \<equiv> fios_code 13"
abbreviation (input) SCE_FIOS_ERROR_NOT_A_FILE :: int where "SCE_FIOS_ERROR_NOT_A_FILE \<equiv> fios_code 14"
abbreviation (input) SCE_FIOS_ERROR_NOT_A_DIRECTORY :: int where "SCE_FIOS_ERROR_NOT_A_DIRECTORY \<equiv> fios_code 15"
abbreviation (input) SCE_FIOS_ERROR_EOF :: int where "SCE_FIOS_ERROR_EOF \<equiv> fios_code 16"
abbreviation (input) SCE_FIOS_ERROR_TIMEOUT :: int where "SCE_FIOS_ERROR_TIMEOUT \<equiv> fios_code 17"
abbreviation (input) SCE_FIOS_ERROR_CANCELLED :: int where "SCE_FIOS_ERROR_CANCELLED \<equiv> fios_code 18"
abbreviation (input) SCE_FIOS_ERROR_ACCESS :: int where "SCE_FIOS_ERROR_ACCESS \<equiv> fios_code 19"
abbreviation (input) SCE_FIOS_ERROR_DECOMPRESSION :: int where "SCE_FIOS_ERROR_DECOMPRESSION \<equiv> fios_code 20"
abbreviation (input) SCE_FIOS_ERROR_READ_ONLY :: int where "SCE_FIOS_ERROR_READ_ONLY \<equiv> fios_code 21"
abbreviation (input) SCE_FIOS_ERROR_WRITE_ONLY :: int where "SCE_FIOS_ERROR_WRITE_ONLY \<equiv> fios_code 22"
abbreviation (input) SCE_FIOS_ERROR_MEDIA_GONE :: int where "SCE_FIOS_ERROR_MEDIA_GONE \<equiv> fios_code 23"
abbreviation (input) SCE_FIOS_ERROR_PATH_TOO_LONG :: int where "SCE_FIOS_ERROR_PATH_TOO_LONG \<equiv> fios_code 24"
abbreviation (input) SCE_FIOS_ERROR_BUSY :: int where "SCE_FIOS_ERROR_BUSY \<equiv> fios_code 30"
abbreviation (input) SCE_FIOS_ERROR_BAD_ARCHIVE :: int where "SCE_FIOS_ERROR_BAD_ARCHIVE \<equiv> fios_code 31"
abbreviation (input) SCE_FIOS_ERROR_BAD_RESOLVE_TYPE :: int where "SCE_FIOS_ERROR_BAD_RESOLVE_TYPE \<equiv> fios_code 32"
abbreviation (input) SCE_FIOS_ERROR_BAD_FLAGS :: int where "SCE_FIOS_ERROR_BAD_FLAGS \<equiv> fios_code 33"
abbreviation (input) SCE_FIOS_ERROR_UNKNOWN :: int where "SCE_FIOS_ERROR_UNKNOWN \<equiv> fios_code 34"
abbreviation (input) SCE_FIOS_ERROR_ALREADY_EXISTS :: int where "SCE_FIOS_ERROR_ALREADY_EXISTS \<equiv> fios_code 35"

definition scefios2_errno_to_errno :: "int \<Rightarrow> int" where
  "scefios2_errno_to_errno sce_errno =
    (if sce_errno = SCE_FIOS_ERROR_ACCESS then EPERM
     else if sce_errno = SCE_FIOS_ERROR_BAD_PATH then ENOENT
     else if sce_errno \<in> {SCE_FIOS_ERROR_UNIMPLEMENTED, SCE_FIOS_ERROR_CANT_ALLOCATE_OP,
         SCE_FIOS_ERROR_CANT_ALLOCATE_FH, SCE_FIOS_ERROR_CANT_ALLOCATE_DH,
         SCE_FIOS_ERROR_CANT_ALLOCATE_CHUNK, SCE_FIOS_ERROR_BAD_ARCHIVE} then EIO
     else if sce_errno \<in> {SCE_FIOS_ERROR_BAD_FH, SCE_FIOS_ERROR_BAD_DH} then EBADF
     else if sce_errno = SCE_FIOS_ERROR_NOT_A_FILE then EISDIR
     else if sce_errno = SCE_FIOS_ERROR_NOT_A_DIRECTORY then ENOTDIR
     else if sce_errno = SCE_FIOS_ERROR_READ_ONLY then EROFS
     else if sce_errno = SCE_FIOS_ERROR_EOF then ERANGE
     else if sce_errno = SCE_FIOS_ERROR_MEDIA_GONE then ENODEV
     else if sce_errno = SCE_FIOS_ERROR_BUSY then EBUSY
     else if sce_errno = SCE_FIOS_ERROR_ALREADY_EXISTS then EEXIST
     else if sce_errno = SCE_FIOS_ERROR_CANCELLED then EINTR
     else if sce_errno = SCE_FIOS_ERROR_PATH_TOO_LONG then ENAMETOOLONG
     else if sce_errno \<in> {SCE_FIOS_ERROR_BAD_PTR, SCE_FIOS_ERROR_BAD_OFFSET,
         SCE_FIOS_ERROR_BAD_SIZE, SCE_FIOS_ERROR_BAD_IOVCNT, SCE_FIOS_ERROR_BAD_ALIGNMENT,
         SCE_FIOS_ERROR_BAD_FLAGS, SCE_FIOS_ERROR_BAD_RESOLVE_TYPE} then EINVAL
     else sce_errno)"

section \<open>SceNet result codes\<close>

text \<open>
  The labels of the switch, in the order of the source: each label
  \<^verbatim>\<open>SCE_NET_Exxx\<close> returns the error number \<^verbatim>\<open>Exxx\<close>.
\<close>

definition net_cases :: "int list" where
  "net_cases =
    [EPERM, ENOENT, ESRCH, EINTR, EIO, ENXIO, E2BIG, ENOEXEC, EBADF, ECHILD, EDEADLK, ENOMEM,
     EACCES, EFAULT, ENOTBLK, EBUSY, EEXIST, EXDEV, ENODEV, ENOTDIR, EISDIR, EINVAL, ENFILE,
     EMFILE, ENOTTY, ETXTBSY, EFBIG, ENOSPC, ESPIPE, EROFS, EMLINK, EPIPE, EDOM, ERANGE,
     EAGAIN, EINPROGRESS, EALREADY, ENOTSOCK, EDESTADDRREQ, EMSGSIZE, EPROTOTYPE,
     ENOPROTOOPT, EPROTONOSUPPORT, ESOCKTNOSUPPORT, EOPNOTSUPP, EPFNOSUPPORT, EAFNOSUPPORT,
     EADDRINUSE, EADDRNOTAVAIL, ENETDOWN, ENETUNREACH, ENETRESET, ECONNABORTED, ECONNRESET,
     ENOBUFS, EISCONN, ENOTCONN, ESHUTDOWN, ETOOMANYREFS, ETIMEDOUT, ECONNREFUSED, ELOOP,
     ENAMETOOLONG, EHOSTDOWN, EHOSTUNREACH, ENOTEMPTY, EUSERS, EDQUOT, ESTALE, EREMOTE,
     ENOLCK, ENOSYS, EIDRM, EOVERFLOW, EILSEQ, ENOTSUP, ECANCELED, EBADMSG, ENODATA, ENOSR,
     ENOSTR, ETIME]"

abbreviation SCE_ERRNO_MASK :: int where "SCE_ERRNO_MASK \<equiv> 0xFF"

definition scenet_errno_to_errno :: "(int \<Rightarrow> int) \<Rightarrow> int \<Rightarrow> int" where
  "scenet_errno_to_errno net sce_errno =
    (case find (\<lambda>e. net e = sce_errno AND SCE_ERRNO_MASK) net_cases of
       Some e \<Rightarrow> e
     | None \<Rightarrow> sce_errno)"

section \<open>The common entry points\<close>

definition sce_errno_to_errno :: "(int \<Rightarrow> int) \<Rightarrow> int \<Rightarrow> ErrorType \<Rightarrow> int" where
  "sce_errno_to_errno net sce_errno type =
    (if type = ERROR_FIOS then scefios2_errno_to_errno sce_errno
     else if type = ERROR_SOCKET then scenet_errno_to_errno net sce_errno
     else sce_errno AND SCE_ERRNO_MASK)"

text \<open>\<^verbatim>\<open>SCE_ERRNO_NONE | posix_errno\<close> is computed unsigned and returned as \<open>int\<close>.\<close>

definition make_sce_errno :: "int \<Rightarrow> int" where
  "make_sce_errno posix_errno = sint (0x80010000 OR word_of_int posix_errno :: 32 word)"

section \<open>Properties of the translation\<close>

text \<open>The labels of the switch over SceNet codes are distinct and fit the mask.\<close>

definition net_codes :: "(int \<Rightarrow> int) \<Rightarrow> bool" where
  "net_codes net \<longleftrightarrow> inj_on net (set net_cases) \<and> (\<forall>e\<in>set net_cases. 0 < net e \<and> net e < 256)"

lemma mask_mod: "x AND SCE_ERRNO_MASK = x mod 256"
  using take_bit_eq_mask [of 8 x] by (simp add: take_bit_eq_mod mask_eq_exp_minus_1)

lemma mask_bounds: "0 \<le> x AND SCE_ERRNO_MASK \<and> x AND SCE_ERRNO_MASK < 256"
  by (simp add: mask_mod)

lemma net_cases_pos: "e \<in> set net_cases \<Longrightarrow> 0 < e"
  by (auto simp: net_cases_def)

lemma net_codes_id: "net_codes (\<lambda>e. e)"
  by (simp add: net_codes_def net_cases_def)

lemma scenet_known:
  assumes "net_codes net" "e \<in> set net_cases" "x AND SCE_ERRNO_MASK = net e"
  shows "scenet_errno_to_errno net x = e"
proof -
  have "find (\<lambda>e'. net e' = net e) net_cases = Some e"
  proof (cases "find (\<lambda>e'. net e' = net e) net_cases")
    case None
    with assms(2) show ?thesis by (auto simp: find_None_iff)
  next
    case (Some e')
    then have "net e' = net e" "e' \<in> set net_cases"
      by (auto simp: find_Some_iff)
    with assms(1,2) Some show ?thesis by (auto simp: net_codes_def dest: inj_onD)
  qed
  with assms(3) show ?thesis by (simp add: scenet_errno_to_errno_def)
qed

lemma scenet_cases:
  "scenet_errno_to_errno net x \<in> set net_cases \<or> scenet_errno_to_errno net x = x"
  by (auto simp: scenet_errno_to_errno_def find_Some_iff split: option.splits)

lemma make_sce_errno_eq:
  assumes "0 \<le> e" "e < 0x10000"
  shows "make_sce_errno e = 0x80010000 + e - 2 ^ 32"
proof -
  have e: "e = e AND mask 16"
    using assms by (simp flip: take_bit_eq_mask add: take_bit_int_eq_self)
  have "0x80010000 AND e = 0x80010000 AND (mask 16 AND e)"
    by (subst e) (simp only: ac_simps)
  also have "\<dots> = (0x80010000 AND mask 16) AND e"
    by (simp only: and.assoc)
  also have "\<dots> = 0" by (simp add: mask_eq_exp_minus_1)
  finally have "0x80010000 + e = 0x80010000 OR e"
    by (rule disjunctive_add_eq_or)
  then have "make_sce_errno e = sint (word_of_int (0x80010000 + e) :: 32 word)"
    by (simp only: make_sce_errno_def of_int_or_eq of_int_numeral)
  also have "\<dots> = sint (word_of_int (0x80010000 + e - 2 ^ 32) :: 32 word)"
    by (rule arg_cong [of _ _ sint]) (simp only: of_int_diff of_int_power of_int_numeral, simp)
  also have "\<dots> = 0x80010000 + e - 2 ^ 32"
    unfolding sint_sbintrunc' using assms by (intro signed_take_bit_int_eq_self) auto
  finally show ?thesis .
qed

lemma make_sce_errno_neg: "0 \<le> e \<Longrightarrow> e < 0x10000 \<Longrightarrow> make_sce_errno e < - 1"
  by (simp add: make_sce_errno_eq)

lemma make_sce_errno_mask:
  assumes "0 \<le> e" "e < 256"
  shows "make_sce_errno e AND SCE_ERRNO_MASK = e"
proof -
  have "make_sce_errno e AND SCE_ERRNO_MASK = (0x80010000 + e - 2 ^ 32) mod 256"
    using assms by (simp only: mask_mod) (simp add: make_sce_errno_eq)
  also have "0x80010000 + e - 2 ^ 32 = e + 256 * (- 8388352)" by simp
  also have "(e + 256 * (- 8388352)) mod 256 = e mod 256" by (rule mod_mult_self2)
  also have "\<dots> = e" using assms by simp
  finally show ?thesis .
qed

lemma scenet_unknown:
  assumes "\<forall>e\<in>set net_cases. net e \<noteq> x AND SCE_ERRNO_MASK"
  shows "scenet_errno_to_errno net x = x"
proof -
  have "find (\<lambda>e. net e = x AND SCE_ERRNO_MASK) net_cases = None" using assms by (simp add: find_None_iff)
  then show ?thesis by (simp add: scenet_errno_to_errno_def)
qed

lemma fios_raw:
  "0 \<le> e \<Longrightarrow> e < 256 \<Longrightarrow>
     make_sce_errno e < 0 \<and> sce_errno_to_errno net (make_sce_errno e) ERROR_FIOS = make_sce_errno e"
  by (auto simp: sce_errno_to_errno_def scefios2_errno_to_errno_def make_sce_errno_eq fios_code_def)

text \<open>C15 (roundtrip): an error number packed by \<^verbatim>\<open>__make_sce_errno\<close> is a negative code that comes back unchanged
  through the generic branch of \<^verbatim>\<open>__sce_errno_to_errno\<close>. The socket branch reads the packed number as a SceNet code: it gives the
  error number whose SceNet label is that number, and the packed code itself when there is none, so that it recovers the number
  exactly when the label has the same number. The FIOS branch never recovers it.\<close>

theorem make_sce_errno_roundtrip:
  assumes "0 \<le> e" "e < 256" "net_codes net"
  shows "make_sce_errno e < 0 \<and> sce_errno_to_errno net (make_sce_errno e) ERROR_GENERIC = e \<and>
    (\<forall>e'\<in>set net_cases. net e' = e \<longrightarrow> sce_errno_to_errno net (make_sce_errno e) ERROR_SOCKET = e') \<and>
    ((\<forall>e'\<in>set net_cases. net e' \<noteq> e) \<longrightarrow> sce_errno_to_errno net (make_sce_errno e) ERROR_SOCKET = make_sce_errno e) \<and>
    (sce_errno_to_errno net (make_sce_errno e) ERROR_SOCKET = e \<longleftrightarrow> e \<in> set net_cases \<and> net e = e) \<and>
    sce_errno_to_errno net (make_sce_errno e) ERROR_FIOS = make_sce_errno e"
proof -
  have m: "make_sce_errno e AND SCE_ERRNO_MASK = e" "make_sce_errno e < 0"
    using make_sce_errno_mask [OF assms(1,2)] make_sce_errno_neg [of e] assms by auto
  have known: "scenet_errno_to_errno net (make_sce_errno e) = e'" if "e' \<in> set net_cases" "net e' = e" for e'
    using scenet_known [OF assms(3) that(1)] m(1) that(2) by simp
  have unknown: "scenet_errno_to_errno net (make_sce_errno e) = make_sce_errno e" if "\<forall>e'\<in>set net_cases. net e' \<noteq> e"
    using scenet_unknown [of net "make_sce_errno e"] m(1) that by simp
  have "scenet_errno_to_errno net (make_sce_errno e) = e \<longleftrightarrow> e \<in> set net_cases \<and> net e = e"
  proof (cases "\<exists>e'\<in>set net_cases. net e' = e")
    case True
    then obtain e' where e': "e' \<in> set net_cases" "net e' = e" by blast
    show ?thesis using known [OF e'] known [of e] e' by auto
  next
    case False
    then show ?thesis using unknown m(2) assms(1) by auto
  qed
  then show ?thesis using m known unknown fios_raw [OF assms(1,2), of net] by (simp add: sce_errno_to_errno_def)
qed

theorem make_sce_errno_roundtrip_witness:
  "make_sce_errno ESPIPE < 0 \<and> sce_errno_to_errno (\<lambda>e. e) (make_sce_errno ESPIPE) ERROR_GENERIC = ESPIPE
   \<and> sce_errno_to_errno (\<lambda>e. e) (make_sce_errno ESPIPE) ERROR_SOCKET = ESPIPE"
  using make_sce_errno_roundtrip [of ESPIPE "\<lambda>e. e"] net_codes_id by (simp add: net_cases_def)

text \<open>The FIOS branch of \<^verbatim>\<open>__sce_errno_to_errno\<close> has no case for the codes that
  \<^verbatim>\<open>__make_sce_errno\<close> packs: it returns them as they are, a negative number that is no POSIX
  error number. Callers that pack \<open>EBADF\<close> or \<open>ESPIPE\<close> and translate with
  \<^verbatim>\<open>ERROR_FIOS\<close> (lseek, fstat, ftruncate, fchmod, utimensat) therefore report
  a raw platform code in \<open>errno\<close>.\<close>

lemma make_sce_errno_fios_raw:
  assumes "0 \<le> e" "e < 256"
  shows "sce_errno_to_errno net (make_sce_errno e) ERROR_FIOS = make_sce_errno e \<and>
    sce_errno_to_errno net (make_sce_errno e) ERROR_FIOS \<noteq> e"
  using fios_raw [OF assms, of net] assms by auto

lemma make_sce_errno_fios_raw_witness:
  "sce_errno_to_errno (\<lambda>e. e) (make_sce_errno ESPIPE) ERROR_FIOS = make_sce_errno ESPIPE
   \<and> sce_errno_to_errno (\<lambda>e. e) (make_sce_errno ESPIPE) ERROR_FIOS \<noteq> ESPIPE"
  using make_sce_errno_fios_raw [of ESPIPE "\<lambda>e. e"] by simp

end
