(* ===== verification/Sce_Services.thy ===== *)
theory Sce_Services
  imports Vita_Error
begin

text \<open>
  The boundary to the platform. SceLibcPosix is a thin layer over services whose code is not
  part of the repository (the Vita kernel, SceIofilemgr, FIOS2, SceNet, kubridge). They are one
  parameter of the model, \<open>os\<close>: a function that takes a call and the state \<open>'w\<close> of the
  world behind the services, and gives the reply and the next world. A reply has the return
  value, the values stored through scalar out-parameters, a C string where the service returns
  or stores one, and the bytes the service wrote into the caller's memory. Nothing is assumed
  about \<open>os\<close> here; what an operation relies on is a hypothesis of its theorems.
\<close>

type_synonym iovec = "addr \<times> size_t"

datatype kernel_call =
    sceKernelGetStdin
  | sceKernelGetStdout
  | sceKernelGetStderr
  | sceKernelCreateMsgPipe string int int size_t
  | sceKernelDeleteMsgPipe int
  | sceKernelReceiveMsgPipe int addr size_t
  | sceKernelSendMsgPipe int "byte list"
  | sceKernelAllocMemBlockForVM string size_t
  | sceKernelGetMemBlockBase int
  | sceKernelFreeMemBlockForVM int
  | sceKernelFreeMemBlock int
  | sceKernelOpenVMDomain
  | sceKernelCloseVMDomain
  | sceKernelSyncVMDomain int addr size_t
  | vshKernelSearchModuleByName string
  | sceKernelDelayThread int
  | sceKernelGetRandomNumber addr size_t
  | sceKernelGetThreadInfo
  | sceKernelGetProcessId
  | sceKernelExitProcess int
  | sceKernelGetProcessTimeWide
  | sceKernelLibcGettimeofday
  | sceKernelLoadStartModule string "byte list"

text \<open>The allocator of SceLibc; the reply is the address, 0 for \<open>NULL\<close>.\<close>

datatype heap_call =
    malloc size_t
  | calloc size_t size_t
  | realloc addr size_t
  | free addr
  | memalign size_t size_t
  | malloc_stats_fast

text \<open>The protection flags of kubridge, opaque bits of its header.\<close>

record ku_prot =
  ku_read :: bool
  ku_write :: bool
  ku_exec :: bool

datatype ku_call =
    kuKernelMemReserve addr size_t
  | kuKernelMemCommit addr size_t ku_prot
  | kuKernelMemDecommit addr size_t
  | kuKernelMemProtect addr size_t ku_prot
  | kuKernelFlushCaches addr size_t

datatype io_call =
    sceIoClose int
  | sceIoRead int addr size_t
  | sceIoWrite int "byte list"
  | sceIoPread int addr size_t int
  | sceIoPwrite int "byte list" int

text \<open>
  What the headers of the SDK define and the sources of the repository use by name: the type bits of a
  mode, two open flags, and the bits of \<open>sceFiosChangeStatSync\<close>.
\<close>

record sdk =
  SCE_S_ISDIR :: "int \<Rightarrow> bool"
  SCE_S_ISREG :: "int \<Rightarrow> bool"
  SCE_O_NBLOCK :: int
  SCE_O_EXCL :: int
  SCE_CST_MODE :: int
  SCE_CST_AT_MT :: int

text \<open>\<^verbatim>\<open>struct SceFiosStat\<close> of \<^verbatim>\<open>src/internal/fios2.h\<close>.\<close>

record SceFiosStat =
  fios_size :: int
  fios_atime :: int
  fios_mtime :: int
  fios_ctime :: int
  fios_statFlags :: int
  fios_reserved :: int
  fios_uid :: int
  fios_gid :: int
  fios_dev :: int
  fios_ino :: int
  fios_mode :: int

datatype fios_call =
    sceFiosFHCloseSync int
  | sceFiosDHCloseSync int
  | sceFiosFHTell int
  | sceFiosFHSeek int int int
  | sceFiosFHReadSync int addr size_t
  | sceFiosFHWriteSync int "byte list"
  | sceFiosFHPreadSync int addr size_t int
  | sceFiosFHPwriteSync int "byte list" int
  | sceFiosFHReadvSync int "iovec list"
  | sceFiosFHWritevSync int "byte list"
  | sceFiosFHPreadvSync int "iovec list" int
  | sceFiosFHPwritevSync int "byte list" int
  | sceFiosFHSyncSync int
  | sceFiosSyncSync string
  | sceFiosFHTruncateSync int int
  | sceFiosDHGetPath int
  | sceFiosFHGetPath int
  | sceFiosStatSync string
  | sceFiosFHStatSync int
  | sceFiosChangeStatSync string SceFiosStat int
  | sceFiosDeleteSync string
  | sceFiosDirectoryCreateSync string
  | sceFiosDirectoryDeleteSync string
  | sceFiosDHOpenSync string
  | sceFiosDHReadSync int
  | sceFiosFHOpenSync string int
  | sceFiosFHOpenWithModeSync string int int
  | sceFiosFileTruncateSync string int
  | sceFiosDevctlSync string int
  | sceFiosDateToSceDateTime int
  | sceFiosDateFromSceDateTime "int list"
  | sceFiosInitialize "nat list" nat

text \<open>The real-time clock; a date is the list of the seven fields of \<open>SceDateTime\<close>.\<close>

datatype rtc_call =
    sceRtcGetTime_t "int list"
  | sceRtcConvertTime_tToDateTime int
  | sceRtcGetCurrentClockUtc
  | sceRtcGetCurrentClock

text \<open>
  Sockets. What a service reads through a pointer is an argument by value, where it writes is an
  address. A \<open>msghdr\<close> is passed as the structure: the peer address, the buffers and the control bytes.
\<close>

record msghdr =
  msg_name :: "byte list"
  msg_iov :: "iovec list"
  msg_control :: "byte list"
  msg_flags :: int

datatype net_call =
    sceNetSocketClose int
  | sceNetRecv int addr size_t int
  | sceNetSend int "byte list" int
  | sceNetSocket string int int int
  | sceNetAccept int addr addr
  | sceNetBind int "byte list"
  | sceNetConnect int "byte list"
  | sceNetListen int int
  | sceNetShutdown int int
  | sceNetGetsockname int addr addr
  | sceNetGetpeername int addr addr
  | sceNetRecvfrom int addr size_t int addr addr
  | sceNetSendto int "byte list" int "byte list"
  | sceNetRecvmsg int msghdr int
  | sceNetSendmsg int msghdr int
  | sceNetGetsockopt int int int addr addr
  | sceNetGetsockoptInt int int int
  | sceNetSetsockopt int int int "byte list"
  | sceNetSetsockoptInt int int int int addr
  | sceNetEpollCreate string
  | sceNetEpollAdd int int int int
  | sceNetEpollWait int nat int
  | sceNetEpollDestroy int
  | sceNetInit addr size_t
  | sceNetTerm
  | sceNetCtlInit
  | sceNetInetPton string
  | sceNetInetNtop "byte list" int
  | sceNetErrnoLoc
  | sceNetResolverCreate string
  | sceNetResolverStartNtoa int string
  | sceNetResolverStartAton int "byte list" nat
  | sceNetResolverDestroy int
  | sceNetCtlInetGetInfo
  | sceSysmoduleIsLoadedNet
  | sceSysmoduleLoadModuleNet

text \<open>What the start files call: thread-local storage of a module, its destructors, and the console.\<close>

datatype start_call =
    sceLdTlsRegisterModuleInfo int
  | sceLdTlsUnregisterModuleInfo
  | cxa_set_dso_handle_main
  | cxa_finalize
  | sceClibPrintf string

text \<open>Streams of SceLibc.\<close>

datatype stdio_call =
    sceLibcFopen string string
  | stdio_fseek addr int int
  | stdio_ftell addr

datatype sce_call =
    Kernel kernel_call
  | Stdio stdio_call
  | Start start_call
  | Heap heap_call
  | Ku ku_call
  | Io io_call
  | Fios fios_call
  | Rtc rtc_call
  | Net net_call

record reply =
  rp_ret :: int
  rp_out :: "int list"
  rp_str :: string
  rp_writes :: "(addr \<times> byte list) list"

type_synonym 'w services = "sce_call \<Rightarrow> 'w \<Rightarrow> reply \<times> 'w"

text \<open>The value of a scalar out-parameter after the call: unchanged when not stored.\<close>

definition outp :: "reply \<Rightarrow> nat \<Rightarrow> int \<Rightarrow> int" where
  "outp r i d = (if i < length (rp_out r) then rp_out r ! i else d)"

text \<open>A reply that only returns a value.\<close>

definition ret_reply :: "int \<Rightarrow> reply" where
  "ret_reply x = \<lparr>rp_ret = x, rp_out = [], rp_str = [], rp_writes = []\<rparr>"

lemma ret_reply_simps [simp]:
  "rp_ret (ret_reply x) = x" "rp_out (ret_reply x) = []" "rp_str (ret_reply x) = []"
  "rp_writes (ret_reply x) = []" "outp (ret_reply x) i d = d"
  by (simp_all add: ret_reply_def outp_def)

section \<open>The state every component shares\<close>

record 'w libc =
  errno :: int
  mem :: memory
  world :: 'w

fun apply_writes :: "(addr \<times> byte list) list \<Rightarrow> memory \<Rightarrow> memory" where
  "apply_writes [] m = m"
| "apply_writes ((p, bs) # ws) m = apply_writes ws (mem_store p bs m)"

definition sys :: "'w services \<Rightarrow> sce_call \<Rightarrow> ('w, 'z) libc_scheme \<Rightarrow> reply \<times> ('w, 'z) libc_scheme" where
  "sys os c s = (let (r, w) = os c (world s)
                 in (r, s\<lparr>world := w, mem := apply_writes (rp_writes r) (mem s)\<rparr>))"

definition set_errno :: "int \<Rightarrow> ('w, 'z) libc_scheme \<Rightarrow> ('w, 'z) libc_scheme" where
  "set_errno e s = s\<lparr>errno := e\<rparr>"

definition sys_ret :: "'w services \<Rightarrow> sce_call \<Rightarrow> ('w, 'z) libc_scheme \<Rightarrow> int" where
  "sys_ret os c s = rp_ret (fst (os c (world s)))"

lemma set_errno_simps [simp]:
  "errno (set_errno e s) = e" "mem (set_errno e s) = mem s" "world (set_errno e s) = world s"
  by (simp_all add: set_errno_def)

lemma errno_sys [simp]: "errno (snd (sys os c s)) = errno s"
  by (simp add: sys_def split: prod.splits)

lemma more_sys [simp]: "libc.more (snd (sys os c s)) = libc.more s"
  by (simp add: sys_def split: prod.splits)

lemma more_set_errno [simp]: "libc.more (set_errno e s) = libc.more s"
  by (simp add: set_errno_def)

lemma rp_ret_sys [simp]: "rp_ret (fst (sys os c s)) = sys_ret os c s"
  by (simp add: sys_def sys_ret_def split: prod.splits)

lemma fst_sys_world: "fst (sys os c s) = fst (os c (world s))"
  by (simp add: sys_def split: prod.splits)

lemma world_sys [simp]: "world (snd (sys os c s)) = snd (os c (world s))"
  by (simp add: sys_def split: prod.splits)

lemma mem_sys: "mem (snd (sys os c s)) = apply_writes (rp_writes (fst (os c (world s)))) (mem s)"
  by (simp add: sys_def split: prod.splits)

end
