(* ===== verification/Vita_Descriptor.thy ===== *)
theory Vita_Descriptor
  imports Sce_Services
begin

text \<open>
  The descriptor table, \<^verbatim>\<open>src/internal/vitadescriptor.c\<close>. The array \<open>__fdmap\<close> of
  pointers is a map from descriptor numbers to indices of the pool \<open>__fdmap_pool\<close> (\<open>None\<close> is
  \<open>NULL\<close>); a pointer to a \<open>DescriptorTranslation\<close> is such an index. The recursive mutex is the
  number of times the calling thread holds it. An access outside the array, which C leaves
  undefined, is the value \<open>None\<close> of an operation whose code does not check the index.

  \<open>Fd_Table\<close> shows that the table never lets a live entry be recycled, in every interleaving of
  the operations (\<open>fd_safe\<close>, by rule induction over \<open>fd_reachable\<close>), that a reference count exceeds the uses of
  its entry only where the platform refused to close it, what each operation does
  on every branch, and the contract \<open>pinned_fd\<close> that the operations of the other components use.
\<close>

definition MAX_OPEN_FILES :: nat where "MAX_OPEN_FILES = 256"

datatype DescriptorTypes =
    VITA_DESCRIPTOR_FILE
  | VITA_DESCRIPTOR_DIRECTORY
  | VITA_DESCRIPTOR_SOCKET
  | VITA_DESCRIPTOR_TTY
  | VITA_DESCRIPTOR_PIPE

record DescriptorTranslation =
  sce_uid :: int
  dtype :: DescriptorTypes
  ref_count :: int

record 'w fd_state = "'w libc" +
  fdmap :: "nat \<Rightarrow> nat option"
  fdmap_pool :: "nat \<Rightarrow> DescriptorTranslation"
  fd_mutex :: int
  sdidinit :: bool
  stdio_bound :: bool

text \<open>An entry cleared by \<open>memset\<close>.\<close>

definition zero_descriptor :: DescriptorTranslation where
  "zero_descriptor = \<lparr>sce_uid = 0, dtype = VITA_DESCRIPTOR_FILE, ref_count = 0\<rparr>"

definition lock_fd :: "('w, 'z) fd_state_scheme \<Rightarrow> ('w, 'z) fd_state_scheme" where
  "lock_fd s = s\<lparr>fd_mutex := fd_mutex s + 1\<rparr>"

definition unlock_fd :: "('w, 'z) fd_state_scheme \<Rightarrow> ('w, 'z) fd_state_scheme" where
  "unlock_fd s = s\<lparr>fd_mutex := fd_mutex s - 1\<rparr>"

definition set_slot :: "nat \<Rightarrow> nat option \<Rightarrow> ('w, 'z) fd_state_scheme \<Rightarrow> ('w, 'z) fd_state_scheme" where
  "set_slot fd p s = s\<lparr>fdmap := (fdmap s)(fd := p)\<rparr>"

definition set_entry ::
  "nat \<Rightarrow> DescriptorTranslation \<Rightarrow> ('w, 'z) fd_state_scheme \<Rightarrow> ('w, 'z) fd_state_scheme" where
  "set_entry p d s = s\<lparr>fdmap_pool := (fdmap_pool s)(p := d)\<rparr>"

definition is_fd_valid :: "int \<Rightarrow> ('w, 'z) fd_state_scheme \<Rightarrow> bool" where
  "is_fd_valid fd s \<longleftrightarrow> 0 \<le> fd \<and> fd < int MAX_OPEN_FILES \<and> fdmap s (nat fd) \<noteq> None"

section \<open>Initialisation\<close>

definition init_std ::
  "'w services \<Rightarrow> nat \<Rightarrow> kernel_call \<Rightarrow> ('w, 'z) fd_state_scheme \<Rightarrow> ('w, 'z) fd_state_scheme" where
  "init_std os n c s =
     (let (r, s) = sys os (Kernel c) (set_slot n (Some n) s)
      in set_entry n \<lparr>sce_uid = rp_ret r, dtype = VITA_DESCRIPTOR_TTY, ref_count = 1\<rparr> s)"

definition init_fd :: "'w services \<Rightarrow> ('w, 'z) fd_state_scheme \<Rightarrow> ('w, 'z) fd_state_scheme" where
  "init_fd os s =
     (let s = s\<lparr>fd_mutex := 1\<rparr>;
          s = s\<lparr>fdmap := (\<lambda>_. None), fdmap_pool := (\<lambda>_. zero_descriptor)\<rparr>;
          s = init_std os 0 sceKernelGetStdin s;
          s = init_std os 1 sceKernelGetStdout s;
          s = init_std os 2 sceKernelGetStderr s
      in if sdidinit s then unlock_fd s
         else unlock_fd (s\<lparr>stdio_bound := True, sdidinit := True\<rparr>))"

definition free_std :: "nat \<Rightarrow> ('w, 'z) fd_state_scheme \<Rightarrow> ('w, 'z) fd_state_scheme" where
  "free_std n s =
     (case fdmap s n of
        None \<Rightarrow> s
      | Some p \<Rightarrow> set_slot n None (set_entry p zero_descriptor s))"

definition free_fd :: "('w, 'z) fd_state_scheme \<Rightarrow> ('w, 'z) fd_state_scheme" where
  "free_fd s = unlock_fd (free_std 2 (free_std 1 (free_std 0 (lock_fd s))))"

section \<open>Acquiring, dropping and duplicating\<close>

text \<open>The two nested loops of \<open>__acquire_descriptor\<close>: a free slot, then a free pool entry.\<close>

function acquire_loop ::
  "nat \<Rightarrow> ('w, 'z) fd_state_scheme \<Rightarrow> int \<times> ('w, 'z) fd_state_scheme" where
  "acquire_loop fd s =
     (if fd < MAX_OPEN_FILES then
        if fdmap s fd = None then
          (case first_index (\<lambda>i. ref_count (fdmap_pool s i) = 0) 0 MAX_OPEN_FILES of
             Some i \<Rightarrow> (int fd, set_entry i ((fdmap_pool s i)\<lparr>ref_count := 1\<rparr>) (set_slot fd (Some i) s))
           | None \<Rightarrow> acquire_loop (Suc fd) s)
        else acquire_loop (Suc fd) s
      else (- 1, s))"
  by pat_completeness auto
termination
  by (relation "measure (\<lambda>(fd, s). MAX_OPEN_FILES - fd)") auto

declare acquire_loop.simps [simp del]

definition acquire_descriptor ::
  "('w, 'z) fd_state_scheme \<Rightarrow> int \<times> ('w, 'z) fd_state_scheme" where
  "acquire_descriptor s = (let (fd, s) = acquire_loop 3 (lock_fd s) in (fd, unlock_fd s))"

text \<open>The service that closes an entry of each type.\<close>

definition close_call :: "DescriptorTranslation \<Rightarrow> sce_call" where
  "close_call d =
     (case dtype d of
        VITA_DESCRIPTOR_TTY \<Rightarrow> Io (sceIoClose (sce_uid d))
      | VITA_DESCRIPTOR_FILE \<Rightarrow> Fios (sceFiosFHCloseSync (sce_uid d))
      | VITA_DESCRIPTOR_DIRECTORY \<Rightarrow> Fios (sceFiosDHCloseSync (sce_uid d))
      | VITA_DESCRIPTOR_SOCKET \<Rightarrow> Net (sceNetSocketClose (sce_uid d))
      | VITA_DESCRIPTOR_PIPE \<Rightarrow> Kernel (sceKernelDeleteMsgPipe (sce_uid d)))"

definition fd_drop ::
  "'w services \<Rightarrow> (int \<Rightarrow> int) \<Rightarrow> nat \<Rightarrow> ('w, 'z) fd_state_scheme \<Rightarrow> int \<times> ('w, 'z) fd_state_scheme" where
  "fd_drop os net p s =
     (let s = lock_fd s; d = fdmap_pool s p in
      if ref_count d = 1 then
        (let (r, s) = sys os (close_call d) s; ret = rp_ret r in
         if dtype d = VITA_DESCRIPTOR_SOCKET \<and> ret < 0
           then (- scenet_errno_to_errno net ret, unlock_fd s)
         else if ret < 0
           then (- sce_errno_to_errno net ret ERROR_GENERIC, unlock_fd s)
         else (0, unlock_fd (set_entry p zero_descriptor s)))
      else (0, unlock_fd (set_entry p (d\<lparr>ref_count := ref_count d - 1\<rparr>) s)))"

definition release_descriptor ::
  "'w services \<Rightarrow> (int \<Rightarrow> int) \<Rightarrow> int \<Rightarrow> ('w, 'z) fd_state_scheme \<Rightarrow> int \<times> ('w, 'z) fd_state_scheme" where
  "release_descriptor os net fd s =
     (let s = lock_fd s in
      if is_fd_valid fd s then
        (let (r, s) = fd_drop os net (the (fdmap s (nat fd))) s in
         if 0 \<le> r then (0, unlock_fd (set_slot (nat fd) None s)) else (- 1, unlock_fd s))
      else (- 1, unlock_fd s))"

definition duplicate_descriptor ::
  "int \<Rightarrow> int \<Rightarrow> ('w, 'z) fd_state_scheme \<Rightarrow> int \<times> ('w, 'z) fd_state_scheme" where
  "duplicate_descriptor fd minfd s =
     (let s = lock_fd s in
      if is_fd_valid fd s then
        (let minfd = (if minfd < 3 then 3 else minfd); p = the (fdmap s (nat fd)) in
         case first_index (\<lambda>i. fdmap s i = None) (nat minfd) MAX_OPEN_FILES of
           Some fd2 \<Rightarrow>
             (int fd2, unlock_fd
               (set_entry p ((fdmap_pool s p)\<lparr>ref_count := ref_count (fdmap_pool s p) + 1\<rparr>)
                 (set_slot fd2 (Some p) s)))
         | None \<Rightarrow> (- 1, unlock_fd (set_errno EMFILE s)))
      else (- 1, unlock_fd s))"

text \<open>
  \<open>__duplicate_descriptor2\<close> reads \<open>__fdmap[newfd]\<close> without a range check (its caller
  \<open>dup2\<close> has one): \<open>None\<close> is that undefined access. On \<open>oldfd == newfd\<close> the source returns
  before the unlock.
\<close>

definition duplicate_descriptor2 ::
  "'w services \<Rightarrow> (int \<Rightarrow> int) \<Rightarrow> int \<Rightarrow> int \<Rightarrow> ('w, 'z) fd_state_scheme \<Rightarrow>
     (int \<times> ('w, 'z) fd_state_scheme) option" where
  "duplicate_descriptor2 os net oldfd newfd s =
     (let s = lock_fd s in
      if is_fd_valid oldfd s then
        if oldfd = newfd then Some (newfd, s)
        else
          (let s = snd (release_descriptor os net newfd s) in
           if newfd < 0 \<or> int MAX_OPEN_FILES \<le> newfd then None
           else if fdmap s (nat newfd) = None then
             (case fdmap s (nat oldfd) of
                None \<Rightarrow> None
              | Some p \<Rightarrow>
                  Some (newfd, unlock_fd
                    (set_entry p ((fdmap_pool s p)\<lparr>ref_count := ref_count (fdmap_pool s p) + 1\<rparr>)
                      (set_slot (nat newfd) (Some p) s))))
           else Some (- 1, unlock_fd s))
      else Some (- 1, unlock_fd s))"

text \<open>\<open>__descriptor_ref_count\<close> checks neither the range nor the pointer.\<close>

definition descriptor_ref_count ::
  "int \<Rightarrow> ('w, 'z) fd_state_scheme \<Rightarrow> (int \<times> ('w, 'z) fd_state_scheme) option" where
  "descriptor_ref_count fd s =
     (let s = lock_fd s in
      if is_fd_valid fd s
      then Some (ref_count (fdmap_pool s (the (fdmap s (nat fd)))), unlock_fd s)
      else None)"

definition fd_grab ::
  "int \<Rightarrow> ('w, 'z) fd_state_scheme \<Rightarrow> nat option \<times> ('w, 'z) fd_state_scheme" where
  "fd_grab fd s =
     (let s = lock_fd s in
      if is_fd_valid fd s then
        (let p = the (fdmap s (nat fd)) in
         (Some p, unlock_fd
           (set_entry p ((fdmap_pool s p)\<lparr>ref_count := ref_count (fdmap_pool s p) + 1\<rparr>) s)))
      else (None, unlock_fd s))"

text \<open>
  What the callers of \<open>__acquire_descriptor\<close> do next, without the lock: store the handle and
  the type through \<open>__fdmap[fd]\<close>.
\<close>

definition publish ::
  "int \<Rightarrow> int \<Rightarrow> DescriptorTypes \<Rightarrow> ('w, 'z) fd_state_scheme \<Rightarrow> ('w, 'z) fd_state_scheme" where
  "publish fd uid ty s =
     (case fdmap s (nat fd) of
        None \<Rightarrow> s
      | Some p \<Rightarrow> set_entry p ((fdmap_pool s p)\<lparr>sce_uid := uid, dtype := ty\<rparr>) s)"

text \<open>
  The shape of every operation on a descriptor outside this file: \<^verbatim>\<open>__fd_grab(fd)\<close>; when it gives
  \<open>NULL\<close> the operation ends in \<open>bad\<close>, otherwise it works on the entry, calls \<^verbatim>\<open>__fd_drop\<close>
  and evaluates the result in \<open>tail\<close>.
\<close>

definition with_fd ::
  "'w services \<Rightarrow> (int \<Rightarrow> int) \<Rightarrow> int \<Rightarrow>
     (('w, 'z) fd_state_scheme \<Rightarrow> 'a \<times> ('w, 'z) fd_state_scheme) \<Rightarrow>
     (DescriptorTranslation \<Rightarrow> ('w, 'z) fd_state_scheme \<Rightarrow> 'r \<times> ('w, 'z) fd_state_scheme) \<Rightarrow>
     ('r \<Rightarrow> ('w, 'z) fd_state_scheme \<Rightarrow> 'a \<times> ('w, 'z) fd_state_scheme) \<Rightarrow>
     ('w, 'z) fd_state_scheme \<Rightarrow> 'a \<times> ('w, 'z) fd_state_scheme" where
  "with_fd os net fd bad work tail s =
     (case fd_grab fd s of
        (None, s) \<Rightarrow> bad s
      | (Some p, s) \<Rightarrow>
          (let (r, s) = work (fdmap_pool s p) s; (_, s) = fd_drop os net p s in tail r s))"

section \<open>Field lemmas\<close>

lemma fd_field_simps [simp]:
  "fdmap (set_slot fd p s) = (fdmap s)(fd := p)" "fdmap_pool (set_slot fd p s) = fdmap_pool s"
  "fd_mutex (set_slot fd p s) = fd_mutex s" "errno (set_slot fd p s) = errno s"
  "mem (set_slot fd p s) = mem s" "world (set_slot fd p s) = world s"
  "fdmap (set_entry q d s) = fdmap s" "fdmap_pool (set_entry q d s) = (fdmap_pool s)(q := d)"
  "fd_mutex (set_entry q d s) = fd_mutex s" "errno (set_entry q d s) = errno s"
  "mem (set_entry q d s) = mem s" "world (set_entry q d s) = world s"
  "fdmap (lock_fd s) = fdmap s" "fdmap_pool (lock_fd s) = fdmap_pool s"
  "fd_mutex (lock_fd s) = fd_mutex s + 1" "errno (lock_fd s) = errno s"
  "mem (lock_fd s) = mem s" "world (lock_fd s) = world s"
  "fdmap (unlock_fd s) = fdmap s" "fdmap_pool (unlock_fd s) = fdmap_pool s"
  "fd_mutex (unlock_fd s) = fd_mutex s - 1" "errno (unlock_fd s) = errno s"
  "mem (unlock_fd s) = mem s" "world (unlock_fd s) = world s"
  "fdmap (set_errno e s) = fdmap s" "fdmap_pool (set_errno e s) = fdmap_pool s"
  "fd_mutex (set_errno e s) = fd_mutex s"
  by (simp_all add: set_slot_def set_entry_def lock_fd_def unlock_fd_def set_errno_def)

lemma fd_sys_simps [simp]:
  "fdmap (snd (sys os c s)) = fdmap s" "fdmap_pool (snd (sys os c s)) = fdmap_pool s"
  "fd_mutex (snd (sys os c s)) = fd_mutex s"
  by (simp_all add: sys_def split: prod.splits)

lemma is_fd_valid_lock [simp]: "is_fd_valid fd (lock_fd s) = is_fd_valid fd s"
  by (simp add: is_fd_valid_def)

lemma sys_lock: "sys os c (lock_fd s) = (fst (sys os c s), lock_fd (snd (sys os c s)))"
  by (simp add: sys_def lock_fd_def split: prod.splits)

lemma unlock_lock [simp]: "unlock_fd (lock_fd s) = s"
  by (simp add: unlock_fd_def lock_fd_def)

text \<open>The state updates commute with the mutex, so each operation is balanced.\<close>

lemma unlock_push [simp]:
  "unlock_fd (set_slot fd p s) = set_slot fd p (unlock_fd s)"
  "unlock_fd (set_entry q d s) = set_entry q d (unlock_fd s)"
  "unlock_fd (set_errno e s) = set_errno e (unlock_fd s)"
  by (simp_all add: unlock_fd_def set_slot_def set_entry_def set_errno_def)

lemma lock_push:
  "set_slot fd p (lock_fd s) = lock_fd (set_slot fd p s)"
  "set_entry q d (lock_fd s) = lock_fd (set_entry q d s)"
  "set_errno e (lock_fd s) = lock_fd (set_errno e s)"
  by (simp_all add: lock_fd_def set_slot_def set_entry_def set_errno_def)

section \<open>The operations without the mutex\<close>

lemma fd_grab_eq:
  "fd_grab fd s =
     (if is_fd_valid fd s then
        (let p = the (fdmap s (nat fd)) in
         (Some p, set_entry p ((fdmap_pool s p)\<lparr>ref_count := ref_count (fdmap_pool s p) + 1\<rparr>) s))
      else (None, s))"
  by (simp add: fd_grab_def Let_def)

lemma fd_drop_eq:
  "fd_drop os net p s =
     (let d = fdmap_pool s p in
      if ref_count d = 1 then
        (let (r, s) = sys os (close_call d) s; ret = rp_ret r in
         if ret < 0
           then (- sce_errno_to_errno net ret
                     (if dtype d = VITA_DESCRIPTOR_SOCKET then ERROR_SOCKET else ERROR_GENERIC), s)
         else (0, set_entry p zero_descriptor s))
      else (0, set_entry p (d\<lparr>ref_count := ref_count d - 1\<rparr>) s))"
  by (simp add: fd_drop_def sys_lock Let_def sce_errno_to_errno_def case_prod_beta)

lemma release_descriptor_eq:
  "release_descriptor os net fd s =
     (if is_fd_valid fd s then
        (let (r, s) = fd_drop os net (the (fdmap s (nat fd))) s in
         if 0 \<le> r then (0, set_slot (nat fd) None s) else (- 1, s))
      else (- 1, s))"
proof -
  have "fd_drop os net p (lock_fd s) = (fst (fd_drop os net p s), lock_fd (snd (fd_drop os net p s)))" for p
    by (simp add: fd_drop_eq sys_lock Let_def case_prod_beta lock_push)
  then show ?thesis
    by (simp add: release_descriptor_def Let_def case_prod_beta)
qed

lemma duplicate_descriptor_eq:
  "duplicate_descriptor fd minfd s =
     (if is_fd_valid fd s then
        (let p = the (fdmap s (nat fd)) in
         case first_index (\<lambda>i. fdmap s i = None) (nat (if minfd < 3 then 3 else minfd)) MAX_OPEN_FILES of
           Some fd2 \<Rightarrow>
             (int fd2, set_entry p ((fdmap_pool s p)\<lparr>ref_count := ref_count (fdmap_pool s p) + 1\<rparr>)
                 (set_slot fd2 (Some p) s))
         | None \<Rightarrow> (- 1, set_errno EMFILE s))
      else (- 1, s))"
  by (simp add: duplicate_descriptor_def Let_def split: option.splits)

lemma acquire_loop_eq:
  "acquire_loop fd s =
     (case first_index (\<lambda>fd. fdmap s fd = None \<and> (\<exists>i<MAX_OPEN_FILES. ref_count (fdmap_pool s i) = 0))
             fd MAX_OPEN_FILES of
        None \<Rightarrow> (- 1, s)
      | Some fd \<Rightarrow>
          (let i = the (first_index (\<lambda>i. ref_count (fdmap_pool s i) = 0) 0 MAX_OPEN_FILES) in
           (int fd, set_entry i ((fdmap_pool s i)\<lparr>ref_count := 1\<rparr>) (set_slot fd (Some i) s))))"
proof (induction fd s rule: acquire_loop.induct)
  case (1 fd s)
  let ?P = "\<lambda>fd. fdmap s fd = None \<and> (\<exists>i<MAX_OPEN_FILES. ref_count (fdmap_pool s i) = 0)"
  let ?i = "first_index (\<lambda>i. ref_count (fdmap_pool s i) = 0) 0 MAX_OPEN_FILES"
  have i: "?i \<noteq> None \<longleftrightarrow> (\<exists>i<MAX_OPEN_FILES. ref_count (fdmap_pool s i) = 0)"
    by (auto simp: first_index_None)
  show ?case
  proof (cases "fd < MAX_OPEN_FILES \<and> \<not> ?P fd")
    case True
    then have none: "fdmap s fd = None \<Longrightarrow> ?i = None"
      using i by blast
    have "acquire_loop fd s = acquire_loop (Suc fd) s"
      using True none by (subst acquire_loop.simps) simp
    moreover have "first_index ?P fd MAX_OPEN_FILES = first_index ?P (Suc fd) MAX_OPEN_FILES"
      using True by (subst first_index.simps) auto
    moreover have "acquire_loop (Suc fd) s =
        (case first_index ?P (Suc fd) MAX_OPEN_FILES of None \<Rightarrow> (- 1, s)
         | Some fd \<Rightarrow> (let i = the ?i in
             (int fd, set_entry i ((fdmap_pool s i)\<lparr>ref_count := 1\<rparr>) (set_slot fd (Some i) s))))"
      using "1.IH" True none by (cases "fdmap s fd = None") simp_all
    ultimately show ?thesis by simp
  next
    case stop: False
    show ?thesis
    proof (cases "fd < MAX_OPEN_FILES")
      case True
      with stop have "?P fd" by simp
      then obtain j where j: "?i = Some j" using i by auto
      have "first_index ?P fd MAX_OPEN_FILES = Some fd"
        using True \<open>?P fd\<close> by (intro first_index_eqI) auto
      moreover have "fdmap s fd = None" using \<open>?P fd\<close> by blast
      ultimately show ?thesis
        using True j by (simp add: acquire_loop.simps [of fd s])
    next
      case False
      then show ?thesis
        by (simp add: acquire_loop.simps [of fd s] first_index.simps [of ?P fd])
    qed
  qed
qed

lemma acquire_loop_lock:
  "acquire_loop fd (lock_fd s) = (fst (acquire_loop fd s), lock_fd (snd (acquire_loop fd s)))"
  by (simp add: acquire_loop_eq lock_push Let_def split: option.splits)

lemma acquire_descriptor_eq: "acquire_descriptor s = acquire_loop 3 s"
  by (simp add: acquire_descriptor_def acquire_loop_lock)

lemma duplicate_descriptor2_eq:
  "duplicate_descriptor2 os net oldfd newfd s =
     (if is_fd_valid oldfd s then
        if oldfd = newfd then Some (newfd, lock_fd s)
        else if newfd < 0 \<or> int MAX_OPEN_FILES \<le> newfd then None
        else
          (let s = snd (release_descriptor os net newfd s) in
           if fdmap s (nat newfd) = None then
             (case fdmap s (nat oldfd) of
                None \<Rightarrow> None
              | Some p \<Rightarrow>
                  Some (newfd,
                    set_entry p ((fdmap_pool s p)\<lparr>ref_count := ref_count (fdmap_pool s p) + 1\<rparr>)
                      (set_slot (nat newfd) (Some p) s)))
           else Some (- 1, s))
      else Some (- 1, s))"
proof -
  have "release_descriptor os net newfd (lock_fd s) =
      (fst (release_descriptor os net newfd s), lock_fd (snd (release_descriptor os net newfd s)))"
    by (simp add: release_descriptor_eq fd_drop_eq sys_lock Let_def case_prod_beta lock_push)
  then show ?thesis
    by (simp add: duplicate_descriptor2_def Let_def split: option.splits)
qed

end
