(* ===== verification/Fd_Table.thy ===== *)
theory Fd_Table
  imports Vita_Descriptor
begin

text \<open>
  Correctness of the descriptor table of \<open>Vita_Descriptor\<close>: reference counting under every
  interleaving of its operations, the lowest free descriptor, the handle that each entry owns and the services that close it, and the contract
  \<open>pinned_fd\<close> between the table and the operations that work on a grabbed descriptor.
\<close>

section \<open>Counting the references to a pool entry\<close>

definition occ :: "(nat \<Rightarrow> nat option) \<Rightarrow> nat \<Rightarrow> nat" where
  "occ m p = card {fd. m fd = Some p}"

lemma finite_occ: "finite (dom m) \<Longrightarrow> finite {fd. m fd = Some p}"
  by (rule finite_subset [of _ "dom m"]) auto

lemma occ_insert:
  assumes "finite (dom m)" "m fd = None"
  shows "occ (m(fd := Some q)) p = occ m p + (if p = q then 1 else 0)"
proof -
  have "{x. (m(fd := Some q)) x = Some p} =
      (if p = q then insert fd {x. m x = Some p} else {x. m x = Some p})"
    using assms(2) by auto
  then show ?thesis
    using assms finite_occ [of m p] by (cases "p = q") (simp_all add: occ_def)
qed

lemma occ_delete:
  assumes "m fd = Some q"
  shows "occ (m(fd := None)) p = occ m p - (if p = q then 1 else 0)"
proof -
  have "{x. (m(fd := None)) x = Some p} = {x. m x = Some p} - (if p = q then {fd} else {})"
    using assms by auto
  then show ?thesis
    using assms by (simp add: occ_def card_Diff_singleton_if)
qed

lemma occ_pos: "finite (dom m) \<Longrightarrow> m fd = Some p \<Longrightarrow> 0 < occ m p"
  using finite_occ [of m p] by (auto simp: occ_def card_gt_0_iff)

section \<open>Invariants\<close>

text \<open>
  Descriptors and entries are in range; \<open>k p\<close> counts the operations in flight that have
  grabbed entry \<open>p\<close> and not yet dropped it; the slack of an entry is what its reference count
  has beyond the descriptors that map to it and the operations in flight.
\<close>

definition fd_wf :: "('w, 'z) fd_state_scheme \<Rightarrow> bool" where
  "fd_wf s \<longleftrightarrow> (\<forall>fd p. fdmap s fd = Some p \<longrightarrow> fd < MAX_OPEN_FILES \<and> p < MAX_OPEN_FILES)"

definition slack :: "(nat \<Rightarrow> nat) \<Rightarrow> ('w, 'z) fd_state_scheme \<Rightarrow> nat \<Rightarrow> int" where
  "slack k s p = ref_count (fdmap_pool s p) - int (occ (fdmap s) p + k p)"

definition fd_safe :: "(nat \<Rightarrow> nat) \<Rightarrow> ('w, 'z) fd_state_scheme \<Rightarrow> bool" where
  "fd_safe k s \<longleftrightarrow> fd_wf s \<and> (\<forall>p. 0 \<le> slack k s p)"

definition fd_exact :: "(nat \<Rightarrow> nat) \<Rightarrow> ('w, 'z) fd_state_scheme \<Rightarrow> bool" where
  "fd_exact k s \<longleftrightarrow> fd_wf s \<and> (\<forall>p. slack k s p = 0)"

lemma fd_wf_finite: "fd_wf s \<Longrightarrow> finite (dom (fdmap s))"
  by (rule finite_subset [of _ "{..<MAX_OPEN_FILES}"]) (auto simp: fd_wf_def)

lemma fd_exact_safe: "fd_exact k s \<Longrightarrow> fd_safe k s"
  by (simp add: fd_exact_def fd_safe_def)

lemma fd_safe_live: "fd_safe k s \<Longrightarrow> fdmap s fd = Some p \<Longrightarrow> 1 \<le> ref_count (fdmap_pool s p)"
proof -
  assume safe: "fd_safe k s" and m: "fdmap s fd = Some p"
  have "0 < occ (fdmap s) p" using safe m by (auto simp: fd_safe_def dest: fd_wf_finite occ_pos)
  moreover have "0 \<le> slack k s p" using safe by (simp add: fd_safe_def)
  ultimately show ?thesis by (simp add: slack_def)
qed

lemma fd_wf_frame: "fdmap s' = fdmap s \<Longrightarrow> fd_wf s' = fd_wf s"
  by (simp add: fd_wf_def)

lemma slack_frame: "fdmap s' = fdmap s \<Longrightarrow> fdmap_pool s' = fdmap_pool s \<Longrightarrow> slack k s' = slack k s"
  by (rule ext) (simp add: slack_def)

section \<open>The operations keep the invariants\<close>

lemma acquire_cases:
  obtains (full) "acquire_descriptor s = (- 1, s)"
      "\<forall>fd. 3 \<le> fd \<and> fd < MAX_OPEN_FILES \<longrightarrow>
         fdmap s fd \<noteq> None \<or> (\<forall>i<MAX_OPEN_FILES. ref_count (fdmap_pool s i) \<noteq> 0)"
  | (ok) fd i where "3 \<le> fd" "fd < MAX_OPEN_FILES" "i < MAX_OPEN_FILES"
      "fdmap s fd = None" "\<forall>j. 3 \<le> j \<and> j < fd \<longrightarrow> fdmap s j \<noteq> None"
      "ref_count (fdmap_pool s i) = 0"
      "acquire_descriptor s =
         (int fd, set_entry i ((fdmap_pool s i)\<lparr>ref_count := 1\<rparr>) (set_slot fd (Some i) s))"
proof (cases "first_index (\<lambda>fd. fdmap s fd = None \<and> (\<exists>i<MAX_OPEN_FILES. ref_count (fdmap_pool s i) = 0))
             3 MAX_OPEN_FILES")
  case None
  show ?thesis
  proof (rule full)
    show "acquire_descriptor s = (- 1, s)"
      using None by (simp add: acquire_descriptor_eq acquire_loop_eq)
    show "\<forall>fd. 3 \<le> fd \<and> fd < MAX_OPEN_FILES \<longrightarrow>
        fdmap s fd \<noteq> None \<or> (\<forall>i<MAX_OPEN_FILES. ref_count (fdmap_pool s i) \<noteq> 0)"
      using None by (auto simp: first_index_None)
  qed
next
  case (Some fd)
  then have fd: "3 \<le> fd" "fd < MAX_OPEN_FILES" "fdmap s fd = None"
      "\<exists>i<MAX_OPEN_FILES. ref_count (fdmap_pool s i) = 0"
      "\<forall>j. 3 \<le> j \<and> j < fd \<longrightarrow> fdmap s j \<noteq> None"
    by (auto dest!: first_index_Some)
  obtain i where i: "first_index (\<lambda>i. ref_count (fdmap_pool s i) = 0) 0 MAX_OPEN_FILES = Some i"
    using fd(4) first_index_ex [of "\<lambda>i. ref_count (fdmap_pool s i) = 0" _ 0 MAX_OPEN_FILES] by auto
  then have i_free: "i < MAX_OPEN_FILES" "ref_count (fdmap_pool s i) = 0"
    by (auto dest!: first_index_Some)
  have "acquire_descriptor s =
      (int fd, set_entry i ((fdmap_pool s i)\<lparr>ref_count := 1\<rparr>) (set_slot fd (Some i) s))"
    by (simp only: acquire_descriptor_eq acquire_loop_eq Some i option.case option.sel Let_def)
  then show ?thesis by (rule ok [OF fd(1,2) i_free(1) fd(3,5) i_free(2)])
qed

lemma acquire_keeps:
  assumes "fd_wf s"
  shows "fd_wf (snd (acquire_descriptor s)) \<and> slack k (snd (acquire_descriptor s)) = slack k s"
proof (cases s rule: acquire_cases)
  case full
  then show ?thesis using assms by simp
next
  case (ok fd i)
  then show ?thesis
    using assms by (auto simp: fd_wf_def slack_def fun_eq_iff occ_insert fd_wf_finite)
qed

lemma fd_valid_E:
  assumes "is_fd_valid fd s"
  obtains p where "fdmap s (nat fd) = Some p" "0 \<le> fd" "fd < int MAX_OPEN_FILES"
  using assms by (auto simp: is_fd_valid_def)

lemma grab_keeps:
  assumes "fd_grab fd s = (Some p, s')"
  shows "fd_wf s' = fd_wf s" "slack (k(p := k p + 1)) s' = slack k s"
  using assms
  by (auto simp: fd_grab_eq Let_def slack_def fun_eq_iff fd_wf_def split: if_splits)

lemma drop_wf: "fd_wf (snd (fd_drop os net p s)) = fd_wf s"
  by (rule fd_wf_frame) (simp add: fd_drop_eq Let_def case_prod_beta)

lemma drop_slack:
  assumes "0 < k p"
  shows "slack k s q \<le> slack (k(p := k p - 1)) (snd (fd_drop os net p s)) q"
    and "slack k s q < slack (k(p := k p - 1)) (snd (fd_drop os net p s)) q \<Longrightarrow> sys_ret os (close_call (fdmap_pool s q)) s < 0"
  using assms by (auto simp: fd_drop_eq Let_def case_prod_beta slack_def zero_descriptor_def split: if_splits)

lemma release_keeps:
  assumes "fd_wf s"
  shows "fd_wf (snd (release_descriptor os net fd s))"
    and "slack k s q \<le> slack k (snd (release_descriptor os net fd s)) q"
    and "slack k s q < slack k (snd (release_descriptor os net fd s)) q \<Longrightarrow> sys_ret os (close_call (fdmap_pool s q)) s < 0"
proof -
  let ?s = "snd (release_descriptor os net fd s)"
  show wf: "fd_wf ?s"
    using assms by (auto simp: release_descriptor_eq case_prod_beta fd_drop_eq Let_def fd_wf_def)
  have "slack k s q \<le> slack k ?s q \<and> (slack k s q < slack k ?s q \<longrightarrow> sys_ret os (close_call (fdmap_pool s q)) s < 0)"
  proof (cases "is_fd_valid fd s")
    case False
    then show ?thesis by (simp add: release_descriptor_eq)
  next
    case True
    then obtain p where p: "fdmap s (nat fd) = Some p" by (rule fd_valid_E)
    have occ: "0 < occ (fdmap s) p" using assms p by (metis fd_wf_finite occ_pos)
    show ?thesis
      using True p occ
      by (auto simp: release_descriptor_eq fd_drop_eq Let_def case_prod_beta slack_def zero_descriptor_def occ_delete)
  qed
  then show "slack k s q \<le> slack k ?s q"
    and "slack k s q < slack k ?s q \<Longrightarrow> sys_ret os (close_call (fdmap_pool s q)) s < 0" by auto
qed

lemma duplicate_cases:
  obtains (bad) "\<not> is_fd_valid fd s" "duplicate_descriptor fd minfd s = (- 1, s)"
  | (full) "is_fd_valid fd s" "duplicate_descriptor fd minfd s = (- 1, set_errno EMFILE s)"
      "\<forall>j. nat (max 3 minfd) \<le> j \<and> j < MAX_OPEN_FILES \<longrightarrow> fdmap s j \<noteq> None"
  | (ok) p fd2 where "is_fd_valid fd s" "fdmap s (nat fd) = Some p"
      "nat (max 3 minfd) \<le> fd2" "fd2 < MAX_OPEN_FILES" "fdmap s fd2 = None"
      "\<forall>j. nat (max 3 minfd) \<le> j \<and> j < fd2 \<longrightarrow> fdmap s j \<noteq> None"
      "duplicate_descriptor fd minfd s =
         (int fd2, set_entry p ((fdmap_pool s p)\<lparr>ref_count := ref_count (fdmap_pool s p) + 1\<rparr>)
            (set_slot fd2 (Some p) s))"
proof (cases "is_fd_valid fd s")
  case False
  then show ?thesis using bad by (simp add: duplicate_descriptor_eq)
next
  case True
  then obtain p where p: "fdmap s (nat fd) = Some p" by (rule fd_valid_E)
  have lo: "nat (if minfd < 3 then 3 else minfd) = nat (max 3 minfd)" by auto
  show ?thesis
  proof (cases "first_index (\<lambda>i. fdmap s i = None) (nat (max 3 minfd)) MAX_OPEN_FILES")
    case None
    show ?thesis
    proof (rule full [OF True])
      show "duplicate_descriptor fd minfd s = (- 1, set_errno EMFILE s)"
        using None True p by (simp add: duplicate_descriptor_eq lo)
      show "\<forall>j. nat (max 3 minfd) \<le> j \<and> j < MAX_OPEN_FILES \<longrightarrow> fdmap s j \<noteq> None"
        using None by (simp add: first_index_None)
    qed
  next
    case (Some fd2)
    with first_index_Some [OF Some] True p show ?thesis
      by (intro ok [of p fd2]) (simp_all add: duplicate_descriptor_eq lo)
  qed
qed

text \<open>Mapping a free slot to an entry and counting it, as both duplications do.\<close>

lemma link_keeps:
  assumes "fd_wf s" "fdmap s n = None" "n < MAX_OPEN_FILES" "p < MAX_OPEN_FILES"
    and "s' = set_entry p ((fdmap_pool s p)\<lparr>ref_count := ref_count (fdmap_pool s p) + 1\<rparr>)
           (set_slot n (Some p) s)"
  shows "fd_wf s' \<and> slack k s' = slack k s"
  using assms by (auto simp: fd_wf_def slack_def fun_eq_iff occ_insert fd_wf_finite)

lemma duplicate_keeps:
  assumes "fd_wf s"
  shows "fd_wf (snd (duplicate_descriptor fd minfd s)) \<and>
         slack k (snd (duplicate_descriptor fd minfd s)) = slack k s"
proof (cases rule: duplicate_cases [where fd = fd and s = s and minfd = minfd])
  case bad
  then show ?thesis using assms by simp
next
  case full
  then show ?thesis
    using assms fd_wf_frame [of "set_errno EMFILE s" s] slack_frame [of "set_errno EMFILE s" s k]
    by simp
next
  case (ok p fd2)
  have "p < MAX_OPEN_FILES" using assms ok(2) by (auto simp: fd_wf_def)
  from link_keeps [OF assms ok(5,4) this refl, of k] show ?thesis by (simp only: ok(7) snd_conv)
qed

lemma duplicate2_keeps:
  assumes "fd_wf s" "duplicate_descriptor2 os net oldfd newfd s = Some (r, s')"
  shows "fd_wf s'" and "slack k s q \<le> slack k s' q"
    and "slack k s q < slack k s' q \<Longrightarrow> sys_ret os (close_call (fdmap_pool s q)) s < 0"
proof -
  let ?s = "snd (release_descriptor os net newfd s)"
  note rel = release_keeps [OF assms(1), where os = os and net = net and fd = newfd]
  have *: "fd_wf s' \<and> (slack k s' = slack k s \<or> slack k s' = slack k ?s)"
  proof (cases "is_fd_valid oldfd s \<and> oldfd \<noteq> newfd")
    case False
    with assms show ?thesis
      by (auto simp: duplicate_descriptor2_eq fd_wf_def slack_def fun_eq_iff split: if_splits)
  next
    case True
    with assms(2) have range: "0 \<le> newfd" "newfd < int MAX_OPEN_FILES"
      by (auto simp: duplicate_descriptor2_eq split: if_splits)
    show ?thesis
    proof (cases "fdmap ?s (nat newfd)")
      case (Some p)
      with assms(2) True range rel(1) show ?thesis by (simp add: duplicate_descriptor2_eq Let_def)
    next
      case None
      with assms(2) True range obtain p where "fdmap ?s (nat oldfd) = Some p"
          and s': "s' = set_entry p ((fdmap_pool ?s p)\<lparr>ref_count := ref_count (fdmap_pool ?s p) + 1\<rparr>)
            (set_slot (nat newfd) (Some p) ?s)"
        by (auto simp: duplicate_descriptor2_eq Let_def split: option.splits)
      then show ?thesis
        using None range rel(1) link_keeps [OF rel(1) None _ _ s'] by (auto simp: fd_wf_def)
    qed
  qed
  then show "fd_wf s'" by simp
  show "slack k s q \<le> slack k s' q" using * rel(2) by auto
  show "sys_ret os (close_call (fdmap_pool s q)) s < 0" if "slack k s q < slack k s' q" using that * rel(3) by auto
qed

lemma publish_keeps: "fd_wf (publish fd u t s) = fd_wf s" "slack k (publish fd u t s) = slack k s"
  by (auto simp: publish_def fd_wf_def slack_def fun_eq_iff split: option.splits)

section \<open>Initialisation and reachable tables\<close>

lemma init_fd_table:
  "fdmap (init_fd os s) = (\<lambda>_. None)(0 := Some 0, 1 := Some 1, 2 := Some 2)"
  "i < 3 \<Longrightarrow> ref_count (fdmap_pool (init_fd os s) i) = 1 \<and>
              dtype (fdmap_pool (init_fd os s) i) = VITA_DESCRIPTOR_TTY"
  "3 \<le> i \<Longrightarrow> fdmap_pool (init_fd os s) i = zero_descriptor"
  "fd_mutex (init_fd os s) = 0"
  by (auto simp: init_fd_def init_std_def Let_def case_prod_beta fun_eq_iff less_Suc_eq numeral_3_eq_3
      unlock_fd_def set_entry_def set_slot_def sys_def)

lemma occ_init: "occ (fdmap (init_fd os s)) p = (if p < 3 then 1 else 0)"
proof -
  have "{fd. fdmap (init_fd os s) fd = Some p} = (if p < 3 then {p} else {})"
    by (auto simp: init_fd_table)
  then show ?thesis by (simp add: occ_def)
qed

lemma init_exact: "fd_exact (\<lambda>_. 0) (init_fd os s)"
proof -
  have "slack (\<lambda>_. 0) (init_fd os s) p = 0" for p
    using init_fd_table(2) [of p os s] init_fd_table(3) [of p os s]
    by (cases "p < 3") (simp_all add: slack_def occ_init zero_descriptor_def)
  then show ?thesis by (auto simp: fd_exact_def fd_wf_def init_fd_table(1) MAX_OPEN_FILES_def split: if_splits)
qed

text \<open>
  A step is one operation, which the mutex makes atomic: any thread may take any step next.
  The second component counts, for each entry, the grabs that have not been dropped yet; a
  thread drops only what it grabbed. \<open>other\<close> is any step of another component, which leaves
  the table alone.
\<close>

type_synonym ('w, 'z) fd_config = "('w, 'z) fd_state_scheme \<times> (nat \<Rightarrow> nat)"

inductive fd_step ::
  "'w services \<Rightarrow> (int \<Rightarrow> int) \<Rightarrow> ('w, 'z) fd_config \<Rightarrow> ('w, 'z) fd_config \<Rightarrow> bool"
  for os :: "'w services" and net :: "int \<Rightarrow> int" where
  acquire: "fd_step os net (s, k) (snd (acquire_descriptor s), k)"
| publish: "fd_step os net (s, k) (publish fd uid ty s, k)"
| release: "fd_step os net (s, k) (snd (release_descriptor os net fd s), k)"
| duplicate: "fd_step os net (s, k) (snd (duplicate_descriptor fd minfd s), k)"
| duplicate2: "duplicate_descriptor2 os net oldfd newfd s = Some (r, s') \<Longrightarrow>
    fd_step os net (s, k) (s', k)"
| grab: "fd_grab fd s = (Some p, s') \<Longrightarrow> fd_step os net (s, k) (s', k(p := k p + 1))"
| drop: "0 < k p \<Longrightarrow> fd_step os net (s, k) (snd (fd_drop os net p s), k(p := k p - 1))"
| other: "fdmap s' = fdmap s \<Longrightarrow> fdmap_pool s' = fdmap_pool s \<Longrightarrow> fd_step os net (s, k) (s', k)"

inductive fd_reachable :: "'w services \<Rightarrow> (int \<Rightarrow> int) \<Rightarrow> ('w, 'z) fd_config \<Rightarrow> bool"
  for os :: "'w services" and net :: "int \<Rightarrow> int" where
  init: "fd_reachable os net (init_fd os s, \<lambda>_. 0)"
| step: "fd_reachable os net c \<Longrightarrow> fd_step os net c c' \<Longrightarrow> fd_reachable os net c'"

lemma fd_step_safe: "fd_step os net c c' \<Longrightarrow> fd_safe (snd c) (fst c) \<Longrightarrow> fd_safe (snd c') (fst c')"
proof (induction rule: fd_step.induct)
  case (acquire s k)
  then show ?case using acquire_keeps [of s k] by (simp add: fd_safe_def)
next
  case (publish s k fd uid ty)
  then show ?case by (simp add: fd_safe_def publish_keeps)
next
  case (release s k fd)
  then show ?case
    using release_keeps(1,2) [where s = s and os = os and net = net and fd = fd]
    unfolding fd_safe_def by (metis fst_conv order_trans snd_conv)
next
  case (duplicate s k fd minfd)
  then show ?case using duplicate_keeps [of s fd minfd k] by (simp add: fd_safe_def)
next
  case (duplicate2 oldfd newfd s r s' k)
  then show ?case
    using duplicate2_keeps(1,2) [OF _ duplicate2(1)]
    unfolding fd_safe_def by (metis fst_conv order_trans snd_conv)
next
  case (grab fd s p s' k)
  then show ?case using grab_keeps(1) [OF grab(1)] grab_keeps(2) [OF grab(1), of k]
    by (simp add: fd_safe_def del: fun_upd_apply)
next
  case (drop k p s)
  then show ?case
    using drop_slack(1) [where k = k and p = p and s = s and os = os and net = net, OF drop(1)] drop_wf [of os net p s]
    unfolding fd_safe_def by (metis fst_conv order_trans snd_conv)
next
  case (other s' s k)
  then show ?case using fd_wf_frame [of s' s] slack_frame [of s' s k] by (simp add: fd_safe_def)
qed

lemma fd_reachable_inv: "fd_reachable os net c \<Longrightarrow> fd_safe (snd c) (fst c)"
  by (induction rule: fd_reachable.induct) (auto simp: fd_exact_safe init_exact intro: fd_step_safe)

text \<open>A count becomes larger than its uses only where the platform refuses to close the entry.\<close>

lemma slack_grows:
  "fd_step os net c c' \<Longrightarrow> fd_wf (fst c) \<Longrightarrow> slack (snd c) (fst c) q < slack (snd c') (fst c') q \<Longrightarrow>
     sys_ret os (close_call (fdmap_pool (fst c) q)) (fst c) < 0"
proof (induction rule: fd_step.induct)
  case (acquire s k)
  then show ?case using acquire_keeps [of s k] by simp
next
  case (publish s k fd uid ty)
  then show ?case by (simp add: publish_keeps)
next
  case (release s k fd)
  then show ?case using release_keeps(3) [where s = s and os = os and net = net and fd = fd] by simp
next
  case (duplicate s k fd minfd)
  then show ?case using duplicate_keeps [of s fd minfd k] by simp
next
  case (duplicate2 oldfd newfd s r s' k)
  then show ?case using duplicate2_keeps(3) [OF _ duplicate2(1)] by simp
next
  case (grab fd s p s' k)
  then show ?case using grab_keeps(2) [OF grab(1), of k] by (simp del: fun_upd_apply)
next
  case (drop k p s)
  then show ?case using drop_slack(2) [where k = k and p = p and s = s and os = os and net = net and q = q, OF drop(1)] by (simp del: fun_upd_apply)
next
  case (other s' s k)
  then show ?case using slack_frame [of s' s k] by simp
qed

section \<open>Handles and the services that close them\<close>

text \<open>
  The kinds of handle the platform gives out, the handle that an entry owns, and what the services are documented to do: the
  handle that a call closes, if it is a close service.
\<close>

datatype platform_handle = Io_handle int | File_handle int | Dir_handle int | Socket_handle int | Pipe_handle int

definition entry_handle :: "DescriptorTranslation \<Rightarrow> platform_handle" where
  "entry_handle d =
     (case dtype d of
        VITA_DESCRIPTOR_TTY \<Rightarrow> Io_handle | VITA_DESCRIPTOR_FILE \<Rightarrow> File_handle | VITA_DESCRIPTOR_DIRECTORY \<Rightarrow> Dir_handle
      | VITA_DESCRIPTOR_SOCKET \<Rightarrow> Socket_handle | VITA_DESCRIPTOR_PIPE \<Rightarrow> Pipe_handle) (sce_uid d)"

definition call_closes :: "sce_call \<Rightarrow> platform_handle option" where
  "call_closes c =
     (case c of
        Io (sceIoClose h) \<Rightarrow> Some (Io_handle h)
      | Fios (sceFiosFHCloseSync h) \<Rightarrow> Some (File_handle h)
      | Fios (sceFiosDHCloseSync h) \<Rightarrow> Some (Dir_handle h)
      | Net (sceNetSocketClose h) \<Rightarrow> Some (Socket_handle h)
      | Kernel (sceKernelDeleteMsgPipe h) \<Rightarrow> Some (Pipe_handle h)
      | _ \<Rightarrow> None)"

lemma close_call_closes: "call_closes (close_call d) = Some (entry_handle d)"
  by (simp add: close_call_def call_closes_def entry_handle_def split: DescriptorTypes.split)

text \<open>Releasing a list of descriptors one after the other.\<close>

definition release_all ::
  "'w services \<Rightarrow> (int \<Rightarrow> int) \<Rightarrow> nat list \<Rightarrow> ('w, 'z) fd_state_scheme \<Rightarrow> ('w, 'z) fd_state_scheme" where
  "release_all os net fds s = fold (\<lambda>n s. snd (release_descriptor os net (int n) s)) fds s"

section \<open>The contract of a grabbed descriptor\<close>

text \<open>
  The operations of the other components grab a descriptor, work on the entry and drop it.
  What they rely on: a failed grab changes nothing; when the work leaves the table as the grab
  left it, dropping restores the table of before the grab, without a call to the platform.
\<close>

locale pinned_fd =
  fixes grab :: "int \<Rightarrow> 's \<Rightarrow> nat option \<times> 's"
    and drop :: "nat \<Rightarrow> 's \<Rightarrow> int \<times> 's"
    and table :: "'s \<Rightarrow> 't"
    and base :: "'s \<Rightarrow> 'b"
    and live :: "'s \<Rightarrow> bool"
  assumes grab_None: "grab fd s = (None, s') \<Longrightarrow> s' = s"
    and grab_base: "grab fd s = (Some p, s') \<Longrightarrow> base s' = base s"
    and drop_table: "live s \<Longrightarrow> grab fd s = (Some p, s1) \<Longrightarrow> table s2 = table s1 \<Longrightarrow>
           table (snd (drop p s2)) = table s"
    and drop_base: "live s \<Longrightarrow> grab fd s = (Some p, s1) \<Longrightarrow> table s2 = table s1 \<Longrightarrow>
           base (snd (drop p s2)) = base s2"
    and live_table: "table s' = table s \<Longrightarrow> live s' = live s"
begin

lemma bracket:
  assumes "live s" "grab fd s = (Some p, s1)" "table (work s1) = table s1"
  shows "table (snd (drop p (work s1))) = table s"
    and "base (snd (drop p (work s1))) = base (work s1)"
    and "live (snd (drop p (work s1)))"
  using drop_table [OF assms] drop_base [OF assms] live_table [of "snd (drop p (work s1))" s] assms(1)
  by auto

lemma grab_frame:
  assumes "grab fd s = (m, s1)"
  shows "base s1 = base s"
  using assms grab_None [of fd s s1] grab_base [of fd s _ s1] by (cases m) auto

end

text \<open>The table is the whole state beyond the part every component shares.\<close>

definition libc_base :: "('w, 'z) libc_scheme \<Rightarrow> int \<times> memory \<times> 'w" where
  "libc_base s = (errno s, mem s, world s)"

definition fd_live :: "('w, 'z) fd_state_scheme \<Rightarrow> bool" where
  "fd_live s \<longleftrightarrow> (\<forall>fd p. fdmap s fd = Some p \<longrightarrow> 1 \<le> ref_count (fdmap_pool s p))"

lemma fd_safe_fd_live: "fd_safe k s \<Longrightarrow> fd_live s"
  by (auto simp: fd_live_def dest: fd_safe_live)

lemma init_live: "fd_live (init_fd os s)"
  using fd_reachable_inv [OF fd_reachable.init [of os _ s]] by (simp add: fd_safe_fd_live)

lemma more_fdmap: "libc.more s' = libc.more s \<Longrightarrow>
    fdmap s' = fdmap s \<and> fdmap_pool s' = fdmap_pool s \<and> fd_mutex s' = fd_mutex s"
  by (cases s, cases s') simp

lemma fd_live_more: "libc.more s' = libc.more s \<Longrightarrow> fd_live s \<Longrightarrow> fd_live s'"
  using more_fdmap [of s' s] by (simp add: fd_live_def)

lemma more_set_entry:
  "libc.more s2 = libc.more s1 \<Longrightarrow> libc.more (set_entry p d s2) = libc.more (set_entry p d s1)"
  by (cases s1, cases s2) (simp add: set_entry_def)

lemma set_entry_twice [simp]: "set_entry p d (set_entry p e s) = set_entry p d s"
  by (simp add: set_entry_def)

lemma set_entry_same [simp]: "set_entry p (fdmap_pool s p) s = s"
  by (simp add: set_entry_def)

lemma drop_after_grab:
  assumes "fd_live s" "fd_grab fd s = (Some p, s1)" "libc.more s2 = libc.more s1"
  shows "fd_drop os net p s2 = (0, set_entry p (fdmap_pool s p) s2)"
proof -
  from assms(2) have v: "is_fd_valid fd s" and p: "p = the (fdmap s (nat fd))"
      and s1: "s1 = set_entry p ((fdmap_pool s p)\<lparr>ref_count := ref_count (fdmap_pool s p) + 1\<rparr>) s"
    by (auto simp: fd_grab_eq Let_def split: if_splits)
  from v p have "fdmap s (nat fd) = Some p" by (auto elim!: fd_valid_E)
  with assms(1) have "1 \<le> ref_count (fdmap_pool s p)" by (auto simp: fd_live_def)
  moreover have "fdmap_pool s2 p = (fdmap_pool s p)\<lparr>ref_count := ref_count (fdmap_pool s p) + 1\<rparr>"
    using more_fdmap [OF assms(3)] s1 by simp
  ultimately show ?thesis by (simp add: fd_drop_eq Let_def)
qed

interpretation pin: pinned_fd fd_grab "fd_drop os net" libc.more libc_base fd_live
  for os :: "'w services" and net :: "int \<Rightarrow> int"
proof unfold_locales
  fix fd and s s' :: "('w, 'z) fd_state_scheme" and p
  show "s' = s" if "fd_grab fd s = (None, s')"
    using that by (auto simp: fd_grab_eq Let_def split: if_splits)
  show "libc_base s' = libc_base s" if "fd_grab fd s = (Some p, s')"
    using that by (auto simp: fd_grab_eq Let_def libc_base_def split: if_splits)
  show "fd_live s' = fd_live s" if "libc.more s' = libc.more s"
    using more_fdmap [OF that] by (simp add: fd_live_def)
next
  fix fd p and s s1 s2 :: "('w, 'z) fd_state_scheme"
  assume a: "fd_live s" "fd_grab fd s = (Some p, s1)" "libc.more s2 = libc.more s1"
  from a(2) have "s1 = set_entry p ((fdmap_pool s p)\<lparr>ref_count := ref_count (fdmap_pool s p) + 1\<rparr>) s"
    by (auto simp: fd_grab_eq Let_def split: if_splits)
  then show "libc.more (snd (fd_drop os net p s2)) = libc.more s"
    using drop_after_grab [OF a] more_set_entry [OF a(3), of p "fdmap_pool s p"] by simp
  show "libc_base (snd (fd_drop os net p s2)) = libc_base s2"
    using drop_after_grab [OF a] by (simp add: libc_base_def)
qed

text \<open>Operations bracketed by grab and drop, from the contract.\<close>

lemma grab_live: "fd_live s \<Longrightarrow> fd_grab fd s = (Some p, s1) \<Longrightarrow> fd_live s1"
  by (fastforce simp: fd_grab_eq fd_live_def Let_def split: if_splits)

lemma with_fd_more:
  assumes "fd_live s"
    and "libc.more (snd (bad s)) = libc.more s"
    and "\<And>d s. fd_live s \<Longrightarrow> libc.more (snd (work d s)) = libc.more s"
    and "\<And>r s. libc.more (snd (tail r s)) = libc.more s"
  shows "libc.more (snd (with_fd os net fd bad work tail s)) = libc.more s"
proof (cases "fd_grab fd s")
  case (Pair m s1)
  show ?thesis
  proof (cases m)
    case None
    with Pair pin.grab_None [of fd s s1] assms(2) show ?thesis by (simp add: with_fd_def)
  next
    case (Some p)
    have g: "fd_grab fd s = (Some p, s1)" using Pair Some by simp
    let ?w = "\<lambda>s. snd (work (fdmap_pool s1 p) s)"
    have "libc.more (?w s1) = libc.more s1" using assms(3) grab_live [OF assms(1) g] by blast
    then have "libc.more (snd (fd_drop os net p (?w s1))) = libc.more s"
      by (rule pin.bracket(1) [OF assms(1) g])
    then show ?thesis using g assms(4) by (simp add: with_fd_def Let_def case_prod_beta)
  qed
qed

text \<open>
  Work that only calls the platform commutes with changes of a pool entry; then the bracket
  cannot be told apart from the work done directly.
\<close>

definition table_blind ::
  "(DescriptorTranslation \<Rightarrow> ('w, 'z) fd_state_scheme \<Rightarrow> 'r \<times> ('w, 'z) fd_state_scheme) \<Rightarrow> bool" where
  "table_blind work \<longleftrightarrow>
     (\<forall>d p e s. work d (set_entry p e s) = (fst (work d s), set_entry p e (snd (work d s)))) \<and>
     (\<forall>d n s. work (d\<lparr>ref_count := n\<rparr>) s = work d s) \<and>
     (\<forall>d s. libc.more (snd (work d s)) = libc.more s)"

lemma sys_set_entry:
  "sys os c (set_entry p e s) = (fst (sys os c s), set_entry p e (snd (sys os c s)))"
  by (simp add: sys_def set_entry_def split: prod.splits)

lemma with_fd_valid:
  assumes "fd_live s" "is_fd_valid fd s" "table_blind work"
  shows "with_fd os net fd bad work tail s =
    (let (r, s') = work (fdmap_pool s (the (fdmap s (nat fd)))) s in tail r s')"
proof -
  define p where "p = the (fdmap s (nat fd))"
  define d where "d = fdmap_pool s p"
  define s1 where "s1 = set_entry p (d\<lparr>ref_count := ref_count d + 1\<rparr>) s"
  have g: "fd_grab fd s = (Some p, s1)"
    using assms(2) by (simp add: fd_grab_eq Let_def p_def s1_def d_def)
  have w: "work (d\<lparr>ref_count := ref_count d + 1\<rparr>) s1 =
      (fst (work d s), set_entry p (d\<lparr>ref_count := ref_count d + 1\<rparr>) (snd (work d s)))"
    using assms(3) by (simp add: table_blind_def s1_def)
  have m: "libc.more (set_entry p (d\<lparr>ref_count := ref_count d + 1\<rparr>) (snd (work d s))) = libc.more s1"
    unfolding s1_def using assms(3) by (intro more_set_entry) (simp add: table_blind_def)
  have "set_entry p d (snd (work d s)) = snd (work d s)"
  proof -
    have "fdmap_pool (snd (work d s)) = fdmap_pool s"
      using assms(3) more_fdmap [of "snd (work d s)" s] by (simp add: table_blind_def)
    then show ?thesis using set_entry_same [of p "snd (work d s)"] by (simp add: d_def)
  qed
  then have "fd_drop os net p (set_entry p (d\<lparr>ref_count := ref_count d + 1\<rparr>) (snd (work d s))) =
      (0, snd (work d s))"
    using drop_after_grab [OF assms(1) g m] by (simp add: d_def)
  then show ?thesis
    using g w by (simp add: with_fd_def Let_def case_prod_beta s1_def flip: p_def d_def)
qed

lemma with_fd_invalid: "\<not> is_fd_valid fd s \<Longrightarrow> with_fd os net fd bad work tail s = bad s"
  by (simp add: with_fd_def fd_grab_eq)

section \<open>Properties\<close>

text \<open>A platform on which every call returns 0, for the witnesses.\<close>

definition quiet_os :: "sce_call \<Rightarrow> unit \<Rightarrow> reply \<times> unit" where
  "quiet_os c w = (ret_reply 0, w)"

definition blank_state :: "'w \<Rightarrow> 'w fd_state" where
  "blank_state w = \<lparr>errno = 0, mem = (\<lambda>_. 0), world = w, fdmap = (\<lambda>_. None),
     fdmap_pool = (\<lambda>_. zero_descriptor), fd_mutex = 0, sdidinit = False, stdio_bound = False\<rparr>"

text \<open>C1 (invariant): in every state that any interleaving of the table's operations reaches from
  \<^verbatim>\<open>_init_fd\<close> on any platform, a descriptor that is open maps to an entry in range whose
  reference count covers all descriptors that map to it and all operations that hold it: a live
  entry is never free for \<^verbatim>\<open>__acquire_descriptor\<close> to recycle.\<close>

theorem fd_reachable_safe:
  assumes "fd_reachable os net (s, k)" "fdmap s fd = Some p"
  shows "fd < MAX_OPEN_FILES \<and> p < MAX_OPEN_FILES \<and>
    int (card {fd'. fdmap s fd' = Some p} + k p) \<le> ref_count (fdmap_pool s p) \<and>
    0 < ref_count (fdmap_pool s p)"
proof -
  have safe: "fd_safe k s" using fd_reachable_inv [OF assms(1)] by simp
  then have "0 \<le> slack k s p" by (simp add: fd_safe_def)
  moreover have "1 \<le> ref_count (fdmap_pool s p)" using safe assms(2) by (rule fd_safe_live)
  ultimately show ?thesis
    using safe assms(2) by (auto simp: fd_safe_def fd_wf_def slack_def occ_def)
qed

theorem fd_reachable_safe_witness:
  "fd_reachable quiet_os (\<lambda>e. e) (init_fd quiet_os (blank_state ()), \<lambda>_. 0) \<and>
   0 < ref_count (fdmap_pool (init_fd quiet_os (blank_state ())) 1)"
  using fd_reachable_safe [OF fd_reachable.init [of quiet_os "\<lambda>e. e" "blank_state ()"], of 1 1]
    fd_reachable.init [of quiet_os "\<lambda>e. e" "blank_state ()"]
  by (simp add: init_fd_table)

text \<open>C2 (functional): in every reachable state \<^verbatim>\<open>__acquire_descriptor\<close> either fails without
  changing the table, or returns the lowest descriptor from 3 that is free, bound to an entry
  that no descriptor and no operation in flight refers to, with reference count 1.\<close>

theorem acquire_fresh_lowest:
  assumes "fd_reachable os net (s, k)" "acquire_descriptor s = (r, s')"
  shows "(r = - 1 \<and> s' = s) \<or>
    (\<exists>fd p. r = int fd \<and> 3 \<le> fd \<and> fd < MAX_OPEN_FILES \<and> fdmap s fd = None \<and>
       (\<forall>j. 3 \<le> j \<and> j < fd \<longrightarrow> fdmap s j \<noteq> None) \<and>
       fdmap s' = (fdmap s)(fd \<mapsto> p) \<and> (\<forall>fd'. fdmap s fd' \<noteq> Some p) \<and> k p = 0 \<and>
       ref_count (fdmap_pool s' p) = 1)"
proof (cases s rule: acquire_cases)
  case full
  then show ?thesis using assms(2) by simp
next
  case (ok fd i)
  have safe: "fd_safe k s" using fd_reachable_inv [OF assms(1)] by simp
  then have "0 \<le> slack k s i" by (simp add: fd_safe_def)
  then have "k i = 0" "occ (fdmap s) i = 0" using ok(6) by (simp_all add: slack_def)
  moreover have "finite (dom (fdmap s))" using safe by (simp add: fd_safe_def fd_wf_finite)
  ultimately have "\<forall>fd'. fdmap s fd' \<noteq> Some i" using occ_pos [of "fdmap s"] by fastforce
  with ok assms(2) \<open>k i = 0\<close> show ?thesis by (intro disjI2 exI [of _ fd] exI [of _ i]) auto
qed

theorem acquire_fresh_lowest_witness:
  "fst (acquire_descriptor (init_fd quiet_os (blank_state ()))) = - 1 \<or>
   (\<exists>fd. fst (acquire_descriptor (init_fd quiet_os (blank_state ()))) = int fd \<and> 3 \<le> fd)"
  using acquire_fresh_lowest [OF fd_reachable.init [of quiet_os "\<lambda>e. e" "blank_state ()"] prod.collapse [symmetric]]
  by auto

lemma release_open:
  assumes "fdmap s n = Some p" "n < MAX_OPEN_FILES"
  shows "ref_count (fdmap_pool s p) \<noteq> 1 \<Longrightarrow> release_descriptor os net (int n) s =
      (0, set_slot n None (set_entry p ((fdmap_pool s p)\<lparr>ref_count := ref_count (fdmap_pool s p) - 1\<rparr>) s))"
    and "ref_count (fdmap_pool s p) = 1 \<Longrightarrow> 0 \<le> sys_ret os (close_call (fdmap_pool s p)) s \<Longrightarrow> release_descriptor os net (int n) s =
      (0, set_slot n None (set_entry p zero_descriptor (snd (sys os (close_call (fdmap_pool s p)) s))))"
  using assms by (auto simp: release_descriptor_eq is_fd_valid_def fd_drop_eq Let_def case_prod_beta)

lemma close_call_count: "close_call (d\<lparr>ref_count := n\<rparr>) = close_call d"
  by (cases "dtype d") (simp_all add: close_call_def)

lemma release_all_once:
  assumes "distinct fds" "fds \<noteq> []" "\<forall>n \<in> set fds. n < MAX_OPEN_FILES \<and> fdmap s n = Some p"
    and "ref_count (fdmap_pool s p) = int (length fds)" "c = close_call (fdmap_pool s p)" "0 \<le> sys_ret os c s"
  shows "fdmap (release_all os net fds s) = (\<lambda>n. if n \<in> set fds then None else fdmap s n) \<and>
    fdmap_pool (release_all os net fds s) = (fdmap_pool s)(p := zero_descriptor) \<and>
    libc_base (release_all os net fds s) = libc_base (snd (sys os c s))"
  using assms
proof (induction fds arbitrary: s)
  case (Cons n ns)
  have n: "fdmap s n = Some p" "n < MAX_OPEN_FILES" using Cons.prems(3) by auto
  show ?case
  proof (cases "ns = []")
    case True
    then show ?thesis
      using release_open(2) [OF n, of os net] Cons.prems(4,5,6) by (simp add: release_all_def libc_base_def fun_eq_iff)
  next
    case False
    let ?t = "set_slot n None (set_entry p ((fdmap_pool s p)\<lparr>ref_count := ref_count (fdmap_pool s p) - 1\<rparr>) s)"
    have "ref_count (fdmap_pool s p) \<noteq> 1" using False Cons.prems(4) by simp
    then have t: "release_all os net (n # ns) s = release_all os net ns ?t"
      using release_open(1) [OF n, of os net] by (simp add: release_all_def)
    have w: "world ?t = world s" "mem ?t = mem s" "errno ?t = errno s" by simp_all
    have "fdmap (release_all os net ns ?t) = (\<lambda>m. if m \<in> set ns then None else fdmap ?t m) \<and>
        fdmap_pool (release_all os net ns ?t) = (fdmap_pool ?t)(p := zero_descriptor) \<and>
        libc_base (release_all os net ns ?t) = libc_base (snd (sys os c ?t))"
      using Cons.prems False by (intro Cons.IH) (auto simp: close_call_count sys_ret_def)
    moreover have "libc_base (snd (sys os c ?t)) = libc_base (snd (sys os c s))"
      by (simp add: libc_base_def mem_sys world_sys w)
    ultimately show ?thesis unfolding t by (auto simp: fun_eq_iff)
  qed
qed simp

text \<open>Pigeonhole: with a free descriptor some entry is not referred to by any descriptor.\<close>

lemma unmapped_entry_exists:
  assumes "fd_wf s" "fdmap s fd = None" "fd < MAX_OPEN_FILES"
  shows "\<exists>i<MAX_OPEN_FILES. \<forall>x. fdmap s x \<noteq> Some i"
proof (rule ccontr)
  assume none: "\<not> ?thesis"
  have fin: "finite (dom (fdmap s))" using assms(1) by (rule fd_wf_finite)
  have "{..<MAX_OPEN_FILES} \<subseteq> the ` fdmap s ` dom (fdmap s)"
  proof
    fix i assume "i \<in> {..<MAX_OPEN_FILES}"
    then obtain x where "fdmap s x = Some i" using none by auto
    then show "i \<in> the ` fdmap s ` dom (fdmap s)" by force
  qed
  then have "card {..<MAX_OPEN_FILES} \<le> card (the ` fdmap s ` dom (fdmap s))"
    by (rule card_mono [rotated]) (simp add: fin)
  also have "\<dots> \<le> card (dom (fdmap s))"
    by (metis card_image_le fin finite_imageI le_trans)
  also have "\<dots> \<le> card ({..<MAX_OPEN_FILES} - {fd})"
    using assms by (intro card_mono) (auto simp: fd_wf_def)
  also have "\<dots> < card {..<MAX_OPEN_FILES}" using assms(3) by (simp add: MAX_OPEN_FILES_def)
  finally show False by simp
qed

lemma acquire_fails: "fst (acquire_descriptor s) = - 1 \<longleftrightarrow>
    (\<forall>fd. 3 \<le> fd \<and> fd < MAX_OPEN_FILES \<longrightarrow> fdmap s fd \<noteq> None) \<or> (\<forall>p<MAX_OPEN_FILES. ref_count (fdmap_pool s p) \<noteq> 0)"
proof (cases s rule: acquire_cases)
  case full
  then show ?thesis by auto
next
  case (ok fd i)
  then show ?thesis by auto
qed

text \<open>C3 (functional): in every reachable table \<^verbatim>\<open>__acquire_descriptor\<close> fails exactly when all descriptors from 3 to 255 are
  open or no entry of the pool has a count of zero. When it fails although a descriptor is free, there is an entry that no
  descriptor refers to and that an operation in flight holds or whose count is too high; and the count of an entry becomes too
  high only in a step in which the platform refuses to close it.\<close>

theorem acquire_fails_iff_full:
  assumes "fd_reachable os net (s, k)"
  shows "(fst (acquire_descriptor s) = - 1 \<longleftrightarrow>
      (\<forall>fd. 3 \<le> fd \<and> fd < MAX_OPEN_FILES \<longrightarrow> fdmap s fd \<noteq> None) \<or> (\<forall>p<MAX_OPEN_FILES. ref_count (fdmap_pool s p) \<noteq> 0)) \<and>
    (fst (acquire_descriptor s) = - 1 \<and> 3 \<le> fd \<and> fd < MAX_OPEN_FILES \<and> fdmap s fd = None \<longrightarrow>
      (\<exists>p<MAX_OPEN_FILES. (\<forall>x. fdmap s x \<noteq> Some p) \<and> (0 < k p \<or> 0 < slack k s p))) \<and>
    (fd_step os net (s, k) (s', k') \<and> slack k s q < slack k' s' q \<longrightarrow> sys_ret os (close_call (fdmap_pool s q)) s < 0)"
proof (intro conjI impI)
  have safe: "fd_safe k s" using fd_reachable_inv [OF assms] by simp
  show "fst (acquire_descriptor s) = - 1 \<longleftrightarrow>
      (\<forall>fd. 3 \<le> fd \<and> fd < MAX_OPEN_FILES \<longrightarrow> fdmap s fd \<noteq> None) \<or> (\<forall>p<MAX_OPEN_FILES. ref_count (fdmap_pool s p) \<noteq> 0)"
    by (rule acquire_fails)
  assume a: "fst (acquire_descriptor s) = - 1 \<and> 3 \<le> fd \<and> fd < MAX_OPEN_FILES \<and> fdmap s fd = None"
  then obtain p where p: "p < MAX_OPEN_FILES" "\<forall>x. fdmap s x \<noteq> Some p"
    using unmapped_entry_exists [of s fd] safe by (auto simp: fd_safe_def)
  have "ref_count (fdmap_pool s p) \<noteq> 0" using a p(1) acquire_fails [of s] by auto
  moreover have "occ (fdmap s) p = 0" using p(2) by (simp add: occ_def)
  moreover have "0 \<le> slack k s p" using safe by (simp add: fd_safe_def)
  ultimately have "0 < k p \<or> 0 < slack k s p" by (auto simp: slack_def)
  then show "\<exists>p<MAX_OPEN_FILES. (\<forall>x. fdmap s x \<noteq> Some p) \<and> (0 < k p \<or> 0 < slack k s p)" using p by blast
next
  assume "fd_step os net (s, k) (s', k') \<and> slack k s q < slack k' s' q"
  moreover have "fd_wf s" using fd_reachable_inv [OF assms] by (simp add: fd_safe_def)
  ultimately show "sys_ret os (close_call (fdmap_pool s q)) s < 0" using slack_grows [of os net "(s, k)" "(s', k')" q] by simp
qed

theorem acquire_fails_iff_full_witness:
  "fst (acquire_descriptor (init_fd quiet_os (blank_state ()))) \<noteq> - 1"
proof -
  let ?s = "init_fd quiet_os (blank_state ())"
  have "fdmap ?s 3 = None" "3 < MAX_OPEN_FILES" by (simp_all add: init_fd_table(1) MAX_OPEN_FILES_def)
  moreover have "ref_count (fdmap_pool ?s 3) = 0" using init_fd_table(3) [of 3 quiet_os "blank_state ()"] by (simp add: zero_descriptor_def)
  ultimately have "\<not> (\<forall>fd. 3 \<le> fd \<and> fd < MAX_OPEN_FILES \<longrightarrow> fdmap ?s fd \<noteq> None)"
    "\<not> (\<forall>p<MAX_OPEN_FILES. ref_count (fdmap_pool ?s p) \<noteq> 0)" by auto
  then show ?thesis
    using acquire_fails_iff_full [OF fd_reachable.init [of quiet_os "\<lambda>e. e" "blank_state ()"]] by blast
qed

text \<open>C4 (functional): releasing one of several references to an entry only unmaps the
  descriptor: the platform is not called and every other descriptor keeps its entry. Releasing
  the last reference makes exactly one platform call, which closes the handle of the entry, of the kind that its type says; if
  that succeeds the entry is cleared and the descriptor unmapped, if it fails with an error number the table is
  unchanged and \<open>-1\<close> is returned. So when all the descriptors of an entry that nothing else holds are released, in any order, the
  handle is closed once, at the end.\<close>

theorem release_behaviour:
  assumes "fdmap s (nat fd) = Some p" "0 \<le> fd" "fd < int MAX_OPEN_FILES" "d = fdmap_pool s p"
    and "distinct fds" "set fds = {n. fdmap s n = Some p}" "\<forall>n\<in>set fds. n < MAX_OPEN_FILES"
  shows "\<exists>c. call_closes c = Some (entry_handle d) \<and>
    (ref_count d \<noteq> 1 \<longrightarrow>
      release_descriptor os net fd s = (0, set_slot (nat fd) None (set_entry p (d\<lparr>ref_count := ref_count d - 1\<rparr>) s))) \<and>
    (ref_count d = 1 \<and> 0 \<le> sys_ret os c s \<longrightarrow>
      release_descriptor os net fd s = (0, set_slot (nat fd) None (set_entry p zero_descriptor (snd (sys os c s))))) \<and>
    (ref_count d = 1 \<and> sys_ret os c s < 0 \<and>
       0 < sce_errno_to_errno net (sys_ret os c s) (if dtype d = VITA_DESCRIPTOR_SOCKET then ERROR_SOCKET else ERROR_GENERIC) \<longrightarrow>
      release_descriptor os net fd s = (- 1, snd (sys os c s))) \<and>
    (ref_count d = int (length fds) \<and> 0 \<le> sys_ret os c s \<longrightarrow>
      (let s' = release_all os net fds s in
        fdmap s' = (\<lambda>n. if fdmap s n = Some p then None else fdmap s n) \<and>
        fdmap_pool s' = (fdmap_pool s)(p := zero_descriptor) \<and> libc_base s' = libc_base (snd (sys os c s))))"
proof (intro exI [of _ "close_call d"] conjI)
  show "call_closes (close_call d) = Some (entry_handle d)" by (rule close_call_closes)
  show "ref_count d = int (length fds) \<and> 0 \<le> sys_ret os (close_call d) s \<longrightarrow>
      (let s' = release_all os net fds s in
        fdmap s' = (\<lambda>n. if fdmap s n = Some p then None else fdmap s n) \<and>
        fdmap_pool s' = (fdmap_pool s)(p := zero_descriptor) \<and> libc_base s' = libc_base (snd (sys os (close_call d) s)))"
  proof -
    have "fds \<noteq> []" "\<forall>n\<in>set fds. n < MAX_OPEN_FILES \<and> fdmap s n = Some p" using assms(1,6,7) by auto
    moreover have "(n \<in> set fds) = (fdmap s n = Some p)" for n using assms(6) by simp
    ultimately show ?thesis
      using release_all_once [where fds = fds and s = s and p = p and os = os and net = net and c = "close_call d"] assms(4,5)
      by (simp add: Let_def)
  qed
qed (use assms in \<open>auto simp: release_descriptor_eq is_fd_valid_def fd_drop_eq Let_def case_prod_beta\<close>)

theorem release_behaviour_witness:
  "release_descriptor quiet_os (\<lambda>e. e) 1 (init_fd quiet_os (blank_state ())) =
     (0, set_slot 1 None (set_entry 1 zero_descriptor
        (snd (sys quiet_os (Io (sceIoClose (sce_uid (fdmap_pool (init_fd quiet_os (blank_state ())) 1))))
           (init_fd quiet_os (blank_state ()))))))"
proof -
  let ?s = "init_fd quiet_os (blank_state ())"
  have d: "ref_count (fdmap_pool ?s 1) = 1" "dtype (fdmap_pool ?s 1) = VITA_DESCRIPTOR_TTY"
    using init_fd_table(2) [of 1 quiet_os "blank_state ()"] by simp_all
  have m: "fdmap ?s (nat 1) = Some 1" "(0::int) \<le> 1" "(1::int) < int MAX_OPEN_FILES" "distinct [1::nat]"
    "set [1] = {n. fdmap ?s n = Some 1}" "\<forall>n\<in>set [1]. n < MAX_OPEN_FILES"
    by (auto simp: init_fd_table(1) MAX_OPEN_FILES_def)
  have r: "0 \<le> sys_ret quiet_os c ?s" for c by (simp add: sys_ret_def quiet_os_def)
  obtain c where c: "call_closes c = Some (entry_handle (fdmap_pool ?s 1))"
    "release_descriptor quiet_os (\<lambda>e. e) 1 ?s = (0, set_slot 1 None (set_entry 1 zero_descriptor (snd (sys quiet_os c ?s))))"
    using release_behaviour [OF m(1,2,3) refl m(4,5,6), of quiet_os "\<lambda>e. e"] d(1) r by auto
  have "snd (sys quiet_os c ?s) = snd (sys quiet_os (Io (sceIoClose (sce_uid (fdmap_pool ?s 1)))) ?s)"
    by (simp add: sys_def quiet_os_def)
  then show ?thesis by (simp only: c(2))
qed

text \<open>C5 (safety): \<^verbatim>\<open>__duplicate_descriptor2\<close> with two equal descriptors returns while it still
  holds the descriptor mutex, once more than before the call; with different descriptors in range
  it releases the mutex as often as it takes it.\<close>

theorem duplicate2_mutex:
  assumes "duplicate_descriptor2 os net oldfd newfd s = Some (r, s')"
  shows "fd_mutex s' = (if is_fd_valid oldfd s \<and> oldfd = newfd then fd_mutex s + 1 else fd_mutex s)"
proof -
  have "fd_mutex (snd (release_descriptor os net newfd s)) = fd_mutex s"
    by (simp add: release_descriptor_eq fd_drop_eq Let_def case_prod_beta)
  then show ?thesis
    using assms by (auto simp: duplicate_descriptor2_eq Let_def split: if_splits option.splits)
qed

theorem duplicate2_mutex_witness:
  "fd_mutex (init_fd quiet_os (blank_state ())) = 0 \<and>
   (\<exists>s'. duplicate_descriptor2 quiet_os (\<lambda>e. e) 1 1 (init_fd quiet_os (blank_state ())) = Some (1, s') \<and>
      fd_mutex s' = 1)"
proof -
  let ?s = "init_fd quiet_os (blank_state ())"
  have v: "is_fd_valid 1 ?s" by (simp add: is_fd_valid_def init_fd_table(1) MAX_OPEN_FILES_def)
  then have d: "duplicate_descriptor2 quiet_os (\<lambda>e. e) 1 1 ?s = Some (1, lock_fd ?s)"
    by (simp add: duplicate_descriptor2_eq)
  show ?thesis using duplicate2_mutex [OF d] d v by (simp add: init_fd_table(4))
qed

end
