(* ===== verification/Unistd_IO.thy ===== *)
theory Unistd_IO
  imports Fd_Table
begin

text \<open>
  The descriptor-based input and output of \<^verbatim>\<open>src/unistd\<close>: read, write, pread, pwrite and
  their vectored forms, lseek, close, dup, dup2, pipe, isatty, fsync and ftruncate. Each
  operation is the whole function of the source over the descriptor table and the platform;
  buffers are addresses into the memory of the state.
\<close>

section \<open>The common tail\<close>

text \<open>
  \<^verbatim>\<open>if (ret < 0) { if (ret != -1) errno = ...; return -1; } errno = 0; return ret;\<close>
\<close>

definition io_result ::
  "(int \<Rightarrow> int) \<Rightarrow> ErrorType \<Rightarrow> int \<Rightarrow> ('w, 'z) libc_scheme \<Rightarrow> int \<times> ('w, 'z) libc_scheme" where
  "io_result net type ret s =
     (if ret < 0
      then (- 1, if ret \<noteq> - 1 then set_errno (sce_errno_to_errno net ret type) s else s)
      else (ret, set_errno 0 s))"

definition load :: "addr \<Rightarrow> size_t \<Rightarrow> ('w, 'z) libc_scheme \<Rightarrow> byte list" where
  "load p n s = mem_load p (unat n) (mem s)"

definition PIPE_MAX :: size_t where "PIPE_MAX = 4 * 4096"

section \<open>read and write\<close>

definition read_dispatch ::
  "'w services \<Rightarrow> DescriptorTranslation \<Rightarrow> addr \<Rightarrow> size_t \<Rightarrow> ('w, 'z) fd_state_scheme \<Rightarrow>
     (int \<times> ErrorType) \<times> ('w, 'z) fd_state_scheme" where
  "read_dispatch os d ptr len s =
     (case dtype d of
        VITA_DESCRIPTOR_TTY \<Rightarrow>
          (let (r, s) = sys os (Io (sceIoRead (sce_uid d) ptr len)) s
           in ((rp_ret r, ERROR_GENERIC), s))
      | VITA_DESCRIPTOR_FILE \<Rightarrow>
          (let (r, s) = sys os (Fios (sceFiosFHReadSync (sce_uid d) ptr len)) s
           in ((cint (rp_ret r), ERROR_FIOS), s))
      | VITA_DESCRIPTOR_SOCKET \<Rightarrow>
          (let (r, s) = sys os (Net (sceNetRecv (sce_uid d) ptr len 0)) s
           in ((rp_ret r, ERROR_SOCKET), s))
      | VITA_DESCRIPTOR_DIRECTORY \<Rightarrow> ((make_sce_errno EBADF, ERROR_GENERIC), s)
      | VITA_DESCRIPTOR_PIPE \<Rightarrow>
          (let rlen = (if len > PIPE_MAX then PIPE_MAX else len);
               (r, s) = sys os (Kernel (sceKernelReceiveMsgPipe (sce_uid d) ptr rlen)) s
           in ((if rp_ret r = 0 then cint (outp r 0 0) else rp_ret r, ERROR_GENERIC), s)))"

definition posix_read ::
  "'w services \<Rightarrow> (int \<Rightarrow> int) \<Rightarrow> int \<Rightarrow> addr \<Rightarrow> size_t \<Rightarrow> ('w, 'z) fd_state_scheme \<Rightarrow>
     int \<times> ('w, 'z) fd_state_scheme" where
  "posix_read os net fd ptr len s =
     with_fd os net fd
       (\<lambda>s. (let (t, s) = sys os (Fios (sceFiosFHTell fd)) s in
             if 0 > rp_ret t then (- 1, set_errno EBADF s)
             else (let (r, s) = sys os (Fios (sceFiosFHReadSync fd ptr len)) s
                   in io_result net ERROR_FIOS (cint (rp_ret r)) s)))
       (\<lambda>d. read_dispatch os d ptr len)
       (\<lambda>(ret, type) s. io_result net type ret s) s"

definition write_dispatch ::
  "'w services \<Rightarrow> DescriptorTranslation \<Rightarrow> addr \<Rightarrow> size_t \<Rightarrow> ('w, 'z) fd_state_scheme \<Rightarrow>
     (int \<times> ErrorType) \<times> ('w, 'z) fd_state_scheme" where
  "write_dispatch os d buf nbytes s =
     (case dtype d of
        VITA_DESCRIPTOR_TTY \<Rightarrow>
          (let (r, s) = sys os (Io (sceIoWrite (sce_uid d) (load buf nbytes s))) s
           in ((rp_ret r, ERROR_GENERIC), s))
      | VITA_DESCRIPTOR_FILE \<Rightarrow>
          (let (r, s) = sys os (Fios (sceFiosFHWriteSync (sce_uid d) (load buf nbytes s))) s
           in ((cint (rp_ret r), ERROR_FIOS), s))
      | VITA_DESCRIPTOR_SOCKET \<Rightarrow>
          (let (r, s) = sys os (Net (sceNetSend (sce_uid d) (load buf nbytes s) 0)) s
           in ((rp_ret r, ERROR_SOCKET), s))
      | VITA_DESCRIPTOR_DIRECTORY \<Rightarrow> ((make_sce_errno EBADF, ERROR_GENERIC), s)
      | VITA_DESCRIPTOR_PIPE \<Rightarrow>
          (let len = (if nbytes > PIPE_MAX then PIPE_MAX else nbytes);
               (r, s) = sys os (Kernel (sceKernelSendMsgPipe (sce_uid d) (load buf len s))) s
           in ((if rp_ret r = 0 then cint (outp r 0 0) else rp_ret r, ERROR_GENERIC), s)))"

definition posix_write ::
  "'w services \<Rightarrow> (int \<Rightarrow> int) \<Rightarrow> int \<Rightarrow> addr \<Rightarrow> size_t \<Rightarrow> ('w, 'z) fd_state_scheme \<Rightarrow>
     int \<times> ('w, 'z) fd_state_scheme" where
  "posix_write os net fd buf nbytes s =
     with_fd os net fd
       (\<lambda>s. (let (t, s) = sys os (Fios (sceFiosFHTell fd)) s in
             if 0 > rp_ret t then (- 1, set_errno EBADF s)
             else (let (r, s) = sys os (Fios (sceFiosFHWriteSync fd (load buf nbytes s))) s
                   in io_result net ERROR_FIOS (cint (rp_ret r)) s)))
       (\<lambda>d. write_dispatch os d buf nbytes)
       (\<lambda>(ret, type) s. io_result net type ret s) s"

section \<open>Positioned input and output\<close>

definition pread_dispatch ::
  "'w services \<Rightarrow> DescriptorTranslation \<Rightarrow> addr \<Rightarrow> size_t \<Rightarrow> int \<Rightarrow> ('w, 'z) fd_state_scheme \<Rightarrow>
     (int \<times> ErrorType) \<times> ('w, 'z) fd_state_scheme" where
  "pread_dispatch os d buf sz off s =
     (case dtype d of
        VITA_DESCRIPTOR_DIRECTORY \<Rightarrow> ((make_sce_errno EBADF, ERROR_GENERIC), s)
      | VITA_DESCRIPTOR_FILE \<Rightarrow>
          (let (r, s) = sys os (Fios (sceFiosFHPreadSync (sce_uid d) buf sz off)) s
           in ((cint (rp_ret r), ERROR_FIOS), s))
      | _ \<Rightarrow>
          (let (r, s) = sys os (Io (sceIoPread (sce_uid d) buf sz off)) s
           in ((cint (rp_ret r), ERROR_GENERIC), s)))"

definition pread ::
  "'w services \<Rightarrow> (int \<Rightarrow> int) \<Rightarrow> int \<Rightarrow> addr \<Rightarrow> size_t \<Rightarrow> int \<Rightarrow> ('w, 'z) fd_state_scheme \<Rightarrow>
     int \<times> ('w, 'z) fd_state_scheme" where
  "pread os net fd buf sz off s =
     with_fd os net fd
       (\<lambda>s. (- 1, set_errno EBADF s))
       (\<lambda>d. pread_dispatch os d buf sz off)
       (\<lambda>(ret, type) s. io_result net type ret s) s"

definition pwrite_dispatch ::
  "'w services \<Rightarrow> DescriptorTranslation \<Rightarrow> addr \<Rightarrow> size_t \<Rightarrow> int \<Rightarrow> ('w, 'z) fd_state_scheme \<Rightarrow>
     (int \<times> ErrorType) \<times> ('w, 'z) fd_state_scheme" where
  "pwrite_dispatch os d buf sz off s =
     (case dtype d of
        VITA_DESCRIPTOR_DIRECTORY \<Rightarrow> ((make_sce_errno EBADF, ERROR_GENERIC), s)
      | VITA_DESCRIPTOR_FILE \<Rightarrow>
          (let (r, s) = sys os (Fios (sceFiosFHPwriteSync (sce_uid d) (load buf sz s) off)) s
           in ((cint (rp_ret r), ERROR_FIOS), s))
      | _ \<Rightarrow>
          (let (r, s) = sys os (Io (sceIoPwrite (sce_uid d) (load buf sz s) off)) s
           in ((cint (rp_ret r), ERROR_GENERIC), s)))"

definition pwrite ::
  "'w services \<Rightarrow> (int \<Rightarrow> int) \<Rightarrow> int \<Rightarrow> addr \<Rightarrow> size_t \<Rightarrow> int \<Rightarrow> ('w, 'z) fd_state_scheme \<Rightarrow>
     int \<times> ('w, 'z) fd_state_scheme" where
  "pwrite os net fd buf sz off s =
     with_fd os net fd
       (\<lambda>s. (- 1, set_errno EBADF s))
       (\<lambda>d. pwrite_dispatch os d buf sz off)
       (\<lambda>(ret, type) s. io_result net type ret s) s"

section \<open>Vectored input and output\<close>

text \<open>The first loop of the vectored functions: the total size, \<open>None\<close> past \<open>SSIZE_MAX\<close>.\<close>

definition SSIZE_MAX :: size_t where "SSIZE_MAX = 0x7FFFFFFF"

fun iov_total :: "iovec list \<Rightarrow> size_t \<Rightarrow> size_t option" where
  "iov_total [] bytes = Some bytes"
| "iov_total ((p, n) # v) bytes =
     (if SSIZE_MAX - bytes < n then None else iov_total v (bytes + n))"

text \<open>Copying the data read into the vectors, and the vectors into the buffer to write.\<close>

fun scatter :: "iovec list \<Rightarrow> addr \<Rightarrow> size_t \<Rightarrow> memory \<Rightarrow> memory" where
  "scatter [] buffer bytes m = m"
| "scatter ((p, n) # v) buffer bytes m =
     (let cpy = min n bytes; m = mem_copy p buffer cpy m in
      if bytes - cpy = 0 then m else scatter v (buffer + cpy) (bytes - cpy) m)"

fun gather :: "iovec list \<Rightarrow> addr \<Rightarrow> size_t \<Rightarrow> memory \<Rightarrow> memory" where
  "gather [] bp to_copy m = m"
| "gather ((p, n) # v) bp to_copy m =
     (let cpy = min n to_copy; m = mem_copy bp p cpy m in
      if to_copy - cpy = 0 then m else gather v (bp + cpy) (to_copy - cpy) m)"

definition set_mem :: "memory \<Rightarrow> ('w, 'z) libc_scheme \<Rightarrow> ('w, 'z) libc_scheme" where
  "set_mem m s = s\<lparr>mem := m\<rparr>"

text \<open>\<open>__readv\<close> and \<open>__preadv\<close>; \<open>free\<close> runs when the buffer goes out of scope.\<close>

definition readv_via ::
  "'w services \<Rightarrow> (addr \<Rightarrow> size_t \<Rightarrow> ('w, 'z) fd_state_scheme \<Rightarrow> int \<times> ('w, 'z) fd_state_scheme) \<Rightarrow>
     iovec list \<Rightarrow> ('w, 'z) fd_state_scheme \<Rightarrow> int \<times> ('w, 'z) fd_state_scheme" where
  "readv_via os rd vector s =
     (case iov_total vector 0 of
        None \<Rightarrow> (- 1, s)
      | Some bytes \<Rightarrow>
          (let (r, s) = sys os (Heap (malloc bytes)) s;
               buffer = word_of_int (rp_ret r);
               (res, s) =
                 (if buffer = 0 then (- 1, s)
                  else
                    (let (bytes_read, s) = rd buffer bytes s in
                     if bytes_read < 0 then (- 1, s)
                     else (bytes_read, set_mem (scatter vector buffer (word_of_int bytes_read) (mem s)) s)))
           in (res, snd (sys os (Heap (free buffer)) s))))"

definition writev_via ::
  "'w services \<Rightarrow> (addr \<Rightarrow> size_t \<Rightarrow> ('w, 'z) fd_state_scheme \<Rightarrow> int \<times> ('w, 'z) fd_state_scheme) \<Rightarrow>
     iovec list \<Rightarrow> ('w, 'z) fd_state_scheme \<Rightarrow> int \<times> ('w, 'z) fd_state_scheme" where
  "writev_via os wr vector s =
     (case iov_total vector 0 of
        None \<Rightarrow> (- 1, s)
      | Some bytes \<Rightarrow>
          (let (r, s) = sys os (Heap (malloc bytes)) s;
               buffer = word_of_int (rp_ret r);
               (res, s) =
                 (if buffer = 0 then (- 1, s)
                  else wr buffer bytes (set_mem (gather vector buffer bytes (mem s)) s))
           in (res, snd (sys os (Heap (free buffer)) s))))"

text \<open>The bytes a list of vectors describes, which the vectored services read.\<close>

definition load_iov :: "iovec list \<Rightarrow> ('w, 'z) libc_scheme \<Rightarrow> byte list" where
  "load_iov v s = concat (map (\<lambda>(p, n). load p n s) v)"

definition readv ::
  "'w services \<Rightarrow> (int \<Rightarrow> int) \<Rightarrow> int \<Rightarrow> iovec list \<Rightarrow> ('w, 'z) fd_state_scheme \<Rightarrow>
     int \<times> ('w, 'z) fd_state_scheme" where
  "readv os net fd iov s =
     with_fd os net fd
       (\<lambda>s. (let (t, s) = sys os (Fios (sceFiosFHTell fd)) s in
             if 0 > rp_ret t then (- 1, set_errno EBADF s)
             else (let (r, s) = sys os (Fios (sceFiosFHReadvSync fd iov)) s
                   in io_result net ERROR_FIOS (cint (rp_ret r)) s)))
       (\<lambda>d s. (case dtype d of
                 VITA_DESCRIPTOR_FILE \<Rightarrow>
                   (let (r, s) = sys os (Fios (sceFiosFHReadvSync (sce_uid d) iov)) s
                    in ((cint (rp_ret r), ERROR_FIOS), s))
               | VITA_DESCRIPTOR_DIRECTORY \<Rightarrow> ((make_sce_errno EBADF, ERROR_GENERIC), s)
               | _ \<Rightarrow>
                   (let (ret, s) = readv_via os (posix_read os net (sce_uid d)) iov s
                    in ((ret, ERROR_GENERIC), s))))
       (\<lambda>(ret, type) s. io_result net type ret s) s"

definition writev ::
  "'w services \<Rightarrow> (int \<Rightarrow> int) \<Rightarrow> int \<Rightarrow> iovec list \<Rightarrow> ('w, 'z) fd_state_scheme \<Rightarrow>
     int \<times> ('w, 'z) fd_state_scheme" where
  "writev os net fd iov s =
     with_fd os net fd
       (\<lambda>s. (let (t, s) = sys os (Fios (sceFiosFHTell fd)) s in
             if 0 > rp_ret t then (- 1, set_errno EBADF s)
             else (let (r, s) = sys os (Fios (sceFiosFHWritevSync fd (load_iov iov s))) s
                   in io_result net ERROR_FIOS (cint (rp_ret r)) s)))
       (\<lambda>d s. (case dtype d of
                 VITA_DESCRIPTOR_FILE \<Rightarrow>
                   (let (r, s) = sys os (Fios (sceFiosFHWritevSync (sce_uid d) (load_iov iov s))) s
                    in ((cint (rp_ret r), ERROR_FIOS), s))
               | VITA_DESCRIPTOR_DIRECTORY \<Rightarrow> ((make_sce_errno EBADF, ERROR_GENERIC), s)
               | _ \<Rightarrow>
                   (let (ret, s) = writev_via os (posix_write os net (sce_uid d)) iov s
                    in ((ret, ERROR_GENERIC), s))))
       (\<lambda>(ret, type) s. io_result net type ret s) s"

definition preadv ::
  "'w services \<Rightarrow> (int \<Rightarrow> int) \<Rightarrow> int \<Rightarrow> iovec list \<Rightarrow> int \<Rightarrow> ('w, 'z) fd_state_scheme \<Rightarrow>
     int \<times> ('w, 'z) fd_state_scheme" where
  "preadv os net fd iov off s =
     with_fd os net fd
       (\<lambda>s. (- 1, set_errno EBADF s))
       (\<lambda>d s. (case dtype d of
                 VITA_DESCRIPTOR_DIRECTORY \<Rightarrow> ((make_sce_errno EBADF, ERROR_GENERIC), s)
               | VITA_DESCRIPTOR_FILE \<Rightarrow>
                   (let (r, s) = sys os (Fios (sceFiosFHPreadvSync (sce_uid d) iov off)) s
                    in ((cint (rp_ret r), ERROR_FIOS), s))
               | _ \<Rightarrow>
                   (let (ret, s) = readv_via os (\<lambda>b n. pread os net (sce_uid d) b n off) iov s
                    in ((ret, ERROR_GENERIC), s))))
       (\<lambda>(ret, type) s. io_result net type ret s) s"

definition pwritev ::
  "'w services \<Rightarrow> (int \<Rightarrow> int) \<Rightarrow> int \<Rightarrow> iovec list \<Rightarrow> int \<Rightarrow> ('w, 'z) fd_state_scheme \<Rightarrow>
     int \<times> ('w, 'z) fd_state_scheme" where
  "pwritev os net fd iov off s =
     with_fd os net fd
       (\<lambda>s. (- 1, set_errno EBADF s))
       (\<lambda>d s. (case dtype d of
                 VITA_DESCRIPTOR_DIRECTORY \<Rightarrow> ((make_sce_errno EBADF, ERROR_GENERIC), s)
               | VITA_DESCRIPTOR_FILE \<Rightarrow>
                   (let (r, s) = sys os (Fios (sceFiosFHPwritevSync (sce_uid d) (load_iov iov s) off)) s
                    in ((cint (rp_ret r), ERROR_FIOS), s))
               | _ \<Rightarrow>
                   (let (ret, s) = writev_via os (\<lambda>b n. pwrite os net (sce_uid d) b n off) iov s
                    in ((ret, ERROR_GENERIC), s))))
       (\<lambda>(ret, type) s. io_result net type ret s) s"


section \<open>What the operations leave alone\<close>

lemma load_set_entry [simp]: "load a n (set_entry p e s) = load a n s"
  by (simp add: load_def)

lemma io_result_more [simp]: "libc.more (snd (io_result net type ret s)) = libc.more s"
  by (simp add: io_result_def)

lemma more_set_mem [simp]: "libc.more (set_mem m s) = libc.more s"
  by (simp add: set_mem_def)

lemma dispatch_blind:
  "table_blind (\<lambda>d. read_dispatch os d ptr len)"
  "table_blind (\<lambda>d. write_dispatch os d ptr len)"
  "table_blind (\<lambda>d. pread_dispatch os d ptr len off)"
  "table_blind (\<lambda>d. pwrite_dispatch os d ptr len off)"
  by (simp_all add: table_blind_def read_dispatch_def write_dispatch_def pread_dispatch_def
      pwrite_dispatch_def Let_def case_prod_beta sys_set_entry split: DescriptorTypes.splits)

lemma table_blind_more: "table_blind work \<Longrightarrow> libc.more (snd (work d s)) = libc.more s"
  by (simp add: table_blind_def)

lemma rw_more:
  assumes "fd_live s"
  shows "libc.more (snd (posix_read os net fd ptr len s)) = libc.more s"
    and "libc.more (snd (posix_write os net fd ptr len s)) = libc.more s"
    and "libc.more (snd (pread os net fd ptr len off s)) = libc.more s"
    and "libc.more (snd (pwrite os net fd ptr len off s)) = libc.more s"
  unfolding posix_read_def posix_write_def pread_def pwrite_def
  by (rule with_fd_more [OF assms];
      simp add: Let_def case_prod_beta table_blind_more [OF dispatch_blind(1)]
        table_blind_more [OF dispatch_blind(2)] table_blind_more [OF dispatch_blind(3)]
        table_blind_more [OF dispatch_blind(4)])+

lemma via_more:
  assumes "\<And>b n s. fd_live s \<Longrightarrow> libc.more (snd (f b n s)) = libc.more s" "fd_live s"
  shows "libc.more (snd (readv_via os f v s)) = libc.more s"
    and "libc.more (snd (writev_via os f v s)) = libc.more s"
proof -
  note live = fd_live_more [OF _ assms(2)]
  show "libc.more (snd (readv_via os f v s)) = libc.more s"
    by (simp add: readv_via_def Let_def case_prod_beta assms(1) live split: option.splits)
  show "libc.more (snd (writev_via os f v s)) = libc.more s"
    by (simp add: writev_via_def Let_def case_prod_beta assms(1) live split: option.splits)
qed

lemma rwv_more:
  assumes "fd_live s"
  shows "libc.more (snd (readv os net fd v s)) = libc.more s"
    and "libc.more (snd (writev os net fd v s)) = libc.more s"
    and "libc.more (snd (preadv os net fd v off s)) = libc.more s"
    and "libc.more (snd (pwritev os net fd v off s)) = libc.more s"
  unfolding readv_def writev_def preadv_def pwritev_def
  by (rule with_fd_more [OF assms];
      simp add: Let_def case_prod_beta via_more rw_more split: DescriptorTypes.splits)+

section \<open>Copying between a buffer and the vectors\<close>

definition iov_sum :: "iovec list \<Rightarrow> nat" where
  "iov_sum v = sum_list (map (\<lambda>(p, n). unat n) v)"

lemma iov_sum_simps [simp]: "iov_sum [] = 0" "iov_sum ((p, n) # v) = unat n + iov_sum v"
  by (simp_all add: iov_sum_def)

lemma iov_total_sum:
  "iov_total v b = Some t \<Longrightarrow> b \<le> SSIZE_MAX \<Longrightarrow> unat t = unat b + iov_sum v \<and> t \<le> SSIZE_MAX"
proof (induction v b rule: iov_total.induct)
  case (2 p n v b)
  from 2(2) have n: "n \<le> SSIZE_MAX - b" and r: "iov_total v (b + n) = Some t"
    by (auto split: if_splits)
  have s: "unat b + unat n \<le> unat SSIZE_MAX"
    using n 2(3) by (simp add: word_le_nat_alt unat_sub)
  moreover have "unat SSIZE_MAX < 2 ^ 32" by (rule unat_lt32)
  ultimately have "unat (b + n) = unat b + unat n" by (simp add: unat_word_ariths)
  with s 2(1) n r show ?case by (simp add: word_le_nat_alt not_less add.assoc)
qed simp

lemma iov_total_None:
  "b \<le> SSIZE_MAX \<Longrightarrow> iov_total v b = None \<longleftrightarrow> unat SSIZE_MAX < unat b + iov_sum v"
proof (induction v b rule: iov_total.induct)
  case (2 p n v b)
  show ?case
  proof (cases "SSIZE_MAX - b < n")
    case True
    then show ?thesis using 2(2) by (simp add: word_less_nat_alt word_le_nat_alt unat_sub)
  next
    case False
    then have s: "unat b + unat n \<le> unat SSIZE_MAX"
      using 2(2) by (simp add: word_less_nat_alt word_le_nat_alt unat_sub)
    moreover have "unat SSIZE_MAX < 2 ^ 32" by (rule unat_lt32)
    ultimately have "unat (b + n) = unat b + unat n" by (simp add: unat_word_ariths)
    with s False 2(1) show ?thesis by (simp add: word_le_nat_alt add.assoc)
  qed
qed (simp add: word_le_nat_alt)

lemma gather_frame: "\<not> in_range bp k a \<Longrightarrow> gather v bp k m a = m a"
proof (induction v bp k m rule: gather.induct)
  case (2 p n v bp k m)
  have "\<not> in_range bp (min n k) a" "\<not> in_range (bp + min n k) (k - min n k) a"
    using in_range_split [of "min n k" k bp a] 2(2) by auto
  then show ?case using 2(1) by (auto simp: Let_def mem_copy_outside)
qed simp

lemma gather_load:
  assumes "unat k = iov_sum v" "\<forall>(p, n) \<in> set v. apart p n bp k"
  shows "mem_load bp (unat k) (gather v bp k m) = concat (map (\<lambda>(p, n). mem_load p (unat n) m) v)"
  using assms
proof (induction v bp k m rule: gather.induct)
  case (1 bp k m)
  then show ?case by simp
next
  case (2 p n v bp k m)
  let ?m = "mem_copy bp p n m"
  have le: "n \<le> k" using 2(2) by (simp add: word_le_nat_alt)
  then have cpy: "min n k = n" by simp
  have rest: "unat (k - n) = iov_sum v" using 2(2) le by (simp add: unat_sub word_le_nat_alt)
  have same: "mem_load q (unat j) ?m = mem_load q (unat j) m" if "(q, j) \<in> set v" for q j
    by (rule mem_load_frame)
       (use that 2(3) in_range_split [OF le] in \<open>auto simp: apart_def intro!: mem_copy_outside\<close>)
  have ih: "mem_load (bp + n) (unat (k - n)) (gather v (bp + n) (k - n) ?m) =
      concat (map (\<lambda>(p, n). mem_load p (unat n) ?m) v)" if "k - n \<noteq> 0"
    by (rule 2(1) [OF cpy [symmetric], of "?m", unfolded cpy])
       (use that 2(3) rest in_range_split [OF le] in \<open>auto simp: apart_def\<close>)
  have tl: "concat (map (\<lambda>(p, n). mem_load p (unat n) ?m) v) = concat (map (\<lambda>(p, n). mem_load p (unat n) m) v)"
    by (intro arg_cong [of _ _ concat] map_cong) (auto simp: same)
  have hd: "mem_load bp (unat n) (gather v (bp + n) (k - n) ?m) = mem_load p (unat n) m"
    using mem_load_frame [of bp n "gather v (bp + n) (k - n) ?m" ?m] in_range_tail_disjoint [OF le]
    by (simp add: gather_frame mem_load_copy)
  show ?case
  proof (cases "k - n = 0")
    case True
    then have "k = n" and "iov_sum v = 0" using rest by simp_all
    then have "concat (map (\<lambda>(p, n). mem_load p (unat n) m) v) = []"
      by (auto simp: iov_sum_def)
    with \<open>k = n\<close> show ?thesis by (simp add: mem_load_copy)
  next
    case False
    then show ?thesis using ih tl hd mem_load_split [OF le, of bp] cpy by (simp add: Let_def)
  qed
qed

text \<open>The vectors pairwise share no address.\<close>

fun iov_apart :: "iovec list \<Rightarrow> bool" where
  "iov_apart [] = True"
| "iov_apart ((p, n) # v) = ((\<forall>(q, j) \<in> set v. apart p n q j) \<and> iov_apart v)"

lemma scatter_frame: "\<forall>(p, n) \<in> set v. \<not> in_range p n a \<Longrightarrow> scatter v b k m a = m a"
proof (induction v b k m rule: scatter.induct)
  case (2 p n v b k m)
  have "\<not> in_range p (min n k) a" using 2(2) in_range_split [of "min n k" n p a] by auto
  then show ?case using 2 by (auto simp: Let_def mem_copy_outside)
qed simp

lemma mem_load_iov_cong:
  "(\<And>p n a. (p, n) \<in> set v \<Longrightarrow> in_range p n a \<Longrightarrow> m a = m' a) \<Longrightarrow>
     concat (map (\<lambda>(p, n). mem_load p (unat n) m) v) = concat (map (\<lambda>(p, n). mem_load p (unat n) m') v)"
  by (intro arg_cong [of _ _ concat] map_cong) (auto intro!: mem_load_frame)

lemma scatter_load:
  assumes "unat k \<le> iov_sum v" "\<forall>(p, n) \<in> set v. apart p n b k" "iov_apart v"
  shows "concat (map (\<lambda>(p, n). mem_load p (unat n) (scatter v b k m)) v) =
    mem_load b (unat k) m @ drop (unat k) (concat (map (\<lambda>(p, n). mem_load p (unat n) m) v))"
  using assms
proof (induction v b k m rule: scatter.induct)
  case (1 b k m)
  then show ?case by simp
next
  case (2 p n v b k m)
  have sep: "apart p n b k" "\<forall>(q, j) \<in> set v. apart p n q j" using 2(3,4) by auto
  show ?case
  proof (cases "k \<le> n")
    case True
    let ?m = "mem_copy p b k m"
    have out: "?m a = m a" if "in_range q j a" "(q, j) \<in> set v" for q j a
      using that sep(2) in_range_split [OF True, of p a]
      by (fastforce simp: apart_def intro: mem_copy_outside)
    have "?m a = m a" if "in_range (p + k) (n - k) a" for a
      using that in_range_tail_disjoint [OF True, of p a] by (auto intro: mem_copy_outside)
    then have "mem_load p (unat n) ?m = mem_load b (unat k) m @ mem_load (p + k) (unat (n - k)) m"
      by (simp add: mem_load_split [OF True, of p ?m] mem_load_copy mem_load_frame [of "p + k" "n - k" ?m m])
    moreover have "drop (unat k) (mem_load p (unat n) m) = mem_load (p + k) (unat (n - k)) m"
      by (simp add: mem_load_split [OF True, of p m])
    moreover have "unat k \<le> unat n" using True by (simp add: word_le_nat_alt)
    ultimately show ?thesis
      using True mem_load_iov_cong [of v ?m m] out by (auto simp: min_def mem_load_copy)
  next
    case False
    then have le: "n \<le> k" "n < k" by auto
    let ?m = "mem_copy p b n m"
    let ?r = "scatter v (b + n) (k - n) ?m"
    have cpy: "min n k = n" using le by simp
    have ne: "k - n \<noteq> 0" using le(2) by simp
    have out: "?m a = m a" if "in_range q j a" "(q, j) \<in> set v" for q j a
      using that sep(2) by (fastforce simp: apart_def intro: mem_copy_outside)
    have buf: "mem_load (b + n) (unat (k - n)) ?m = mem_load (b + n) (unat (k - n)) m"
      using sep(1) in_range_split [OF le(1)] by (intro mem_load_frame mem_copy_outside) (auto simp: apart_def)
    have "unat (k - n) \<le> iov_sum v" using 2(2) le by (simp add: unat_sub word_le_nat_alt)
    moreover have "\<forall>(q, j) \<in> set v. apart q j (b + n) (k - n)"
      using 2(3) in_range_split [OF le(1)] by (fastforce simp: apart_def)
    ultimately have ih: "concat (map (\<lambda>(p, n). mem_load p (unat n) ?r) v) =
        mem_load (b + n) (unat (k - n)) m @
        drop (unat (k - n)) (concat (map (\<lambda>(p, n). mem_load p (unat n) m) v))"
      using 2(1) [OF cpy [symmetric] refl, unfolded cpy] 2(4) ne buf mem_load_iov_cong [of v ?m m] out by simp
    have "?r a = ?m a" if "in_range p n a" for a
      using that sep(2) by (intro scatter_frame) (auto simp: apart_def)
    then have "mem_load p (unat n) ?r = mem_load b (unat n) m"
      using mem_load_frame [of p n ?r ?m] by (simp add: mem_load_copy)
    moreover have "unat k = unat n + unat (k - n)" using le by (simp add: unat_sub word_le_nat_alt)
    ultimately show ?thesis
      using ih cpy ne mem_load_split [OF le(1), of b m] by (simp add: Let_def)
  qed
qed

section \<open>Properties\<close>

text \<open>C6 (invariant): none of the eight input and output operations changes the descriptor table:
  from every state where the open descriptors are live (in particular every reachable one), with
  any platform, descriptor, buffers and outcome, the slots, the pool with its reference counts and
  the mutex are afterwards what they were, so no operation leaks or closes a descriptor.\<close>

theorem io_keeps_table:
  assumes "fd_live s"
  shows "libc.more (snd (posix_read os net fd ptr len s)) = libc.more s \<and>
    libc.more (snd (posix_write os net fd ptr len s)) = libc.more s \<and>
    libc.more (snd (pread os net fd ptr len off s)) = libc.more s \<and>
    libc.more (snd (pwrite os net fd ptr len off s)) = libc.more s \<and>
    libc.more (snd (readv os net fd v s)) = libc.more s \<and>
    libc.more (snd (writev os net fd v s)) = libc.more s \<and>
    libc.more (snd (preadv os net fd v off s)) = libc.more s \<and>
    libc.more (snd (pwritev os net fd v off s)) = libc.more s"
  using rw_more [OF assms] rwv_more [OF assms] by simp

theorem io_keeps_table_witness:
  "fdmap (snd (posix_write quiet_os (\<lambda>e. e) 1 0x1000 4 (init_fd quiet_os (blank_state ())))) =
   fdmap (init_fd quiet_os (blank_state ()))"
proof -
  let ?s = "init_fd quiet_os (blank_state ())"
  have "fd_live ?s" by (rule init_live)
  from io_keeps_table [OF this, where os = quiet_os and net = "\<lambda>e. e" and fd = 1 and ptr = "0x1000" and len = 4] show ?thesis
    using more_fdmap [of "snd (posix_write quiet_os (\<lambda>e. e) 1 0x1000 4 ?s)" ?s] by simp
qed

text \<open>
  What the transfer services are documented to do: the handle that a call reads from or writes to, the place or the bytes, and
  the offset for a positioned call; the family whose error codes it returns; and the number of bytes, which message pipes give
  in an out-parameter and which is narrowed where the service returns 64 bits.
\<close>

definition call_reads :: "sce_call \<Rightarrow> (platform_handle \<times> addr \<times> size_t \<times> int option) option" where
  "call_reads c =
     (case c of
        Io (sceIoRead h p n) \<Rightarrow> Some (Io_handle h, p, n, None)
      | Io (sceIoPread h p n off) \<Rightarrow> Some (Io_handle h, p, n, Some off)
      | Fios (sceFiosFHReadSync h p n) \<Rightarrow> Some (File_handle h, p, n, None)
      | Fios (sceFiosFHPreadSync h p n off) \<Rightarrow> Some (File_handle h, p, n, Some off)
      | Net (sceNetRecv h p n fl) \<Rightarrow> if fl = 0 then Some (Socket_handle h, p, n, None) else None
      | Kernel (sceKernelReceiveMsgPipe h p n) \<Rightarrow> Some (Pipe_handle h, p, n, None)
      | _ \<Rightarrow> None)"

definition call_writes :: "sce_call \<Rightarrow> (platform_handle \<times> byte list \<times> int option) option" where
  "call_writes c =
     (case c of
        Io (sceIoWrite h bs) \<Rightarrow> Some (Io_handle h, bs, None)
      | Io (sceIoPwrite h bs off) \<Rightarrow> Some (Io_handle h, bs, Some off)
      | Fios (sceFiosFHWriteSync h bs) \<Rightarrow> Some (File_handle h, bs, None)
      | Fios (sceFiosFHPwriteSync h bs off) \<Rightarrow> Some (File_handle h, bs, Some off)
      | Net (sceNetSend h bs fl) \<Rightarrow> if fl = 0 then Some (Socket_handle h, bs, None) else None
      | Kernel (sceKernelSendMsgPipe h bs) \<Rightarrow> Some (Pipe_handle h, bs, None)
      | _ \<Rightarrow> None)"

definition call_error :: "sce_call \<Rightarrow> ErrorType" where
  "call_error c = (case c of Fios _ \<Rightarrow> ERROR_FIOS | Net _ \<Rightarrow> ERROR_SOCKET | _ \<Rightarrow> ERROR_GENERIC)"

definition call_count :: "sce_call \<Rightarrow> reply \<Rightarrow> int" where
  "call_count c r =
     (case c of
        Kernel _ \<Rightarrow> if rp_ret r = 0 then cint (outp r 0 0) else rp_ret r
      | Io (sceIoRead _ _ _) \<Rightarrow> rp_ret r
      | Io (sceIoWrite _ _) \<Rightarrow> rp_ret r
      | Net _ \<Rightarrow> rp_ret r
      | _ \<Rightarrow> cint (rp_ret r))"

text \<open>One call and what POSIX makes of it: the count with \<open>errno\<close> 0, or \<open>-1\<close> with the error number; \<open>-1\<close> itself is passed on.\<close>

definition transfer :: "'w services \<Rightarrow> (int \<Rightarrow> int) \<Rightarrow> sce_call \<Rightarrow> ('w, 'z) libc_scheme \<Rightarrow> int \<times> ('w, 'z) libc_scheme" where
  "transfer os net c s =
     (let n = call_count c (fst (sys os c s)); s' = snd (sys os c s)
      in if 0 \<le> n then (n, set_errno 0 s')
         else if n = - 1 then (- 1, s')
         else (- 1, set_errno (sce_errno_to_errno net n (call_error c)) s'))"

lemmas transfer_defs = call_reads_def call_writes_def call_error_def call_count_def transfer_def io_result_def entry_handle_def

lemma io_dispatch:
  assumes "fd_live s" "is_fd_valid fd s" "d = fdmap_pool s (the (fdmap s (nat fd)))"
  shows "posix_read os net fd ptr len s =
      (case read_dispatch os d ptr len s of ((ret, type), s') \<Rightarrow> io_result net type ret s')"
    and "posix_write os net fd ptr len s =
      (case write_dispatch os d ptr len s of ((ret, type), s') \<Rightarrow> io_result net type ret s')"
    and "pread os net fd ptr len off s =
      (case pread_dispatch os d ptr len off s of ((ret, type), s') \<Rightarrow> io_result net type ret s')"
    and "pwrite os net fd ptr len off s =
      (case pwrite_dispatch os d ptr len off s of ((ret, type), s') \<Rightarrow> io_result net type ret s')"
  unfolding posix_read_def posix_write_def pread_def pwrite_def assms(3)
  by (simp_all add: with_fd_valid [OF assms(1,2) dispatch_blind(1)] with_fd_valid [OF assms(1,2) dispatch_blind(2)]
      with_fd_valid [OF assms(1,2) dispatch_blind(3)] with_fd_valid [OF assms(1,2) dispatch_blind(4)]
      Let_def case_prod_beta)

lemma pipe_length: "(if PIPE_MAX < len then PIPE_MAX else len) = min len PIPE_MAX"
  by (simp add: min_def not_le [symmetric])

lemma io_directory: "io_result net ERROR_GENERIC (make_sce_errno EBADF) s = (- 1, set_errno EBADF s)"
  using make_sce_errno_neg [of EBADF] make_sce_errno_mask [of EBADF] by (simp add: io_result_def sce_errno_to_errno_def)

lemma directory_dispatch:
  assumes "dtype d = VITA_DESCRIPTOR_DIRECTORY"
  shows "(case read_dispatch os d ptr len s of ((ret, type), s') \<Rightarrow> io_result net type ret s') = (- 1, set_errno EBADF s)"
    and "(case write_dispatch os d ptr len s of ((ret, type), s') \<Rightarrow> io_result net type ret s') = (- 1, set_errno EBADF s)"
    and "(case pread_dispatch os d ptr len off s of ((ret, type), s') \<Rightarrow> io_result net type ret s') = (- 1, set_errno EBADF s)"
    and "(case pwrite_dispatch os d ptr len off s of ((ret, type), s') \<Rightarrow> io_result net type ret s') = (- 1, set_errno EBADF s)"
  using assms io_directory by (simp_all add: read_dispatch_def write_dispatch_def pread_dispatch_def pwrite_dispatch_def)

lemma read_transfer:
  "dtype d \<noteq> VITA_DESCRIPTOR_DIRECTORY \<Longrightarrow>
     \<exists>c. call_reads c = Some (entry_handle d, ptr, if dtype d = VITA_DESCRIPTOR_PIPE then min len PIPE_MAX else len, None) \<and>
       (case read_dispatch os d ptr len s of ((ret, type), s') \<Rightarrow> io_result net type ret s') = transfer os net c s"
  by (rule exI [of _ "case dtype d of
        VITA_DESCRIPTOR_TTY \<Rightarrow> Io (sceIoRead (sce_uid d) ptr len)
      | VITA_DESCRIPTOR_FILE \<Rightarrow> Fios (sceFiosFHReadSync (sce_uid d) ptr len)
      | VITA_DESCRIPTOR_SOCKET \<Rightarrow> Net (sceNetRecv (sce_uid d) ptr len 0)
      | _ \<Rightarrow> Kernel (sceKernelReceiveMsgPipe (sce_uid d) ptr (min len PIPE_MAX))"], cases "dtype d")
     (simp_all add: read_dispatch_def transfer_defs Let_def case_prod_beta pipe_length)

lemma write_transfer:
  "dtype d \<noteq> VITA_DESCRIPTOR_DIRECTORY \<Longrightarrow>
     \<exists>c. call_writes c = Some (entry_handle d, load buf (if dtype d = VITA_DESCRIPTOR_PIPE then min len PIPE_MAX else len) s, None) \<and>
       (case write_dispatch os d buf len s of ((ret, type), s') \<Rightarrow> io_result net type ret s') = transfer os net c s"
  by (rule exI [of _ "case dtype d of
        VITA_DESCRIPTOR_TTY \<Rightarrow> Io (sceIoWrite (sce_uid d) (load buf len s))
      | VITA_DESCRIPTOR_FILE \<Rightarrow> Fios (sceFiosFHWriteSync (sce_uid d) (load buf len s))
      | VITA_DESCRIPTOR_SOCKET \<Rightarrow> Net (sceNetSend (sce_uid d) (load buf len s) 0)
      | _ \<Rightarrow> Kernel (sceKernelSendMsgPipe (sce_uid d) (load buf (min len PIPE_MAX) s))"], cases "dtype d")
     (simp_all add: write_dispatch_def transfer_defs Let_def case_prod_beta pipe_length)

lemma pread_transfer:
  "dtype d \<noteq> VITA_DESCRIPTOR_DIRECTORY \<Longrightarrow>
     h = (if dtype d = VITA_DESCRIPTOR_FILE then File_handle (sce_uid d) else Io_handle (sce_uid d)) \<Longrightarrow>
     \<exists>c. call_reads c = Some (h, buf, len, Some off) \<and>
       (case pread_dispatch os d buf len off s of ((ret, type), s') \<Rightarrow> io_result net type ret s') = transfer os net c s"
  by (rule exI [of _ "if dtype d = VITA_DESCRIPTOR_FILE then Fios (sceFiosFHPreadSync (sce_uid d) buf len off)
      else Io (sceIoPread (sce_uid d) buf len off)"], cases "dtype d")
     (simp_all add: pread_dispatch_def transfer_defs Let_def case_prod_beta )

lemma pwrite_transfer:
  "dtype d \<noteq> VITA_DESCRIPTOR_DIRECTORY \<Longrightarrow>
     h = (if dtype d = VITA_DESCRIPTOR_FILE then File_handle (sce_uid d) else Io_handle (sce_uid d)) \<Longrightarrow>
     \<exists>c. call_writes c = Some (h, load buf len s, Some off) \<and>
       (case pwrite_dispatch os d buf len off s of ((ret, type), s') \<Rightarrow> io_result net type ret s') = transfer os net c s"
  by (rule exI [of _ "if dtype d = VITA_DESCRIPTOR_FILE then Fios (sceFiosFHPwriteSync (sce_uid d) (load buf len s) off)
      else Io (sceIoPwrite (sce_uid d) (load buf len s) off)"], cases "dtype d")
     (simp_all add: pwrite_dispatch_def transfer_defs Let_def case_prod_beta )

text \<open>C7 (refinement): on an open descriptor, grabbing and dropping the entry cannot be observed, and each of read, write, pread
  and pwrite is exactly one platform call on the state of the caller: a call that reads into, or writes the bytes of, the
  caller's buffer at the handle of the entry, of the kind its type says, at most 16384 bytes for a pipe. Its result is the
  count with \<open>errno\<close> 0, or \<open>-1\<close> with the error number of the service's family. On a directory all four fail with EBADF without a
  call. The positioned calls take the handle of a terminal, socket or pipe for one of SceIo.\<close>

theorem io_refines_platform_call:
  assumes "fd_live s" "is_fd_valid fd s" "d = fdmap_pool s (the (fdmap s (nat fd)))"
    and "n = (if dtype d = VITA_DESCRIPTOR_PIPE then min len (4 * 4096) else len)"
    and "h = (if dtype d = VITA_DESCRIPTOR_FILE then File_handle (sce_uid d) else Io_handle (sce_uid d))"
  shows "if dtype d = VITA_DESCRIPTOR_DIRECTORY then
      posix_read os net fd ptr len s = (- 1, set_errno EBADF s) \<and> posix_write os net fd ptr len s = (- 1, set_errno EBADF s) \<and>
      pread os net fd ptr len off s = (- 1, set_errno EBADF s) \<and> pwrite os net fd ptr len off s = (- 1, set_errno EBADF s)
    else
      (\<exists>c. call_reads c = Some (entry_handle d, ptr, n, None) \<and> posix_read os net fd ptr len s = transfer os net c s) \<and>
      (\<exists>c. call_writes c = Some (entry_handle d, load ptr n s, None) \<and> posix_write os net fd ptr len s = transfer os net c s) \<and>
      (\<exists>c. call_reads c = Some (h, ptr, len, Some off) \<and> pread os net fd ptr len off s = transfer os net c s) \<and>
      (\<exists>c. call_writes c = Some (h, load ptr len s, Some off) \<and> pwrite os net fd ptr len off s = transfer os net c s)"
  using read_transfer [where d = d and ptr = ptr and len = len and os = os and s = s and net = net]
    write_transfer [where d = d and buf = ptr and len = len and os = os and s = s and net = net]
    pread_transfer [OF _ assms(5), where buf = ptr and len = len and off = off and os = os and s = s and net = net]
    pwrite_transfer [OF _ assms(5), where buf = ptr and len = len and off = off and os = os and s = s and net = net]
  unfolding io_dispatch [OF assms(1-3)] assms(4) PIPE_MAX_def [symmetric]
  by (cases "dtype d = VITA_DESCRIPTOR_DIRECTORY") (simp_all only: directory_dispatch if_True if_False simp_thms split_conv prod.case)

theorem io_refines_platform_call_witness:
  "fst (posix_write quiet_os (\<lambda>e. e) 1 0x1000 4 (init_fd quiet_os (blank_state ()))) = 0"
proof -
  let ?s = "init_fd quiet_os (blank_state ())"
  have l: "fd_live ?s" by (rule init_live)
  have v: "is_fd_valid 1 ?s" by (simp add: is_fd_valid_def init_fd_table(1) MAX_OPEN_FILES_def)
  have d: "dtype (fdmap_pool ?s (the (fdmap ?s (nat 1)))) = VITA_DESCRIPTOR_TTY"
    using init_fd_table(2) [of 1 quiet_os "blank_state ()"] by (simp add: init_fd_table(1))
  obtain c where c: "call_writes c = Some (entry_handle (fdmap_pool ?s (the (fdmap ?s (nat 1)))), load 0x1000 4 ?s, None)"
    "posix_write quiet_os (\<lambda>e. e) 1 0x1000 4 ?s = transfer quiet_os (\<lambda>e. e) c ?s"
    using io_refines_platform_call [OF l v refl refl refl, where os = quiet_os and net = "\<lambda>e. e" and ptr = "0x1000" and len = 4] d
    by (simp only: DescriptorTypes.simps if_False) blast
  have "call_count c (ret_reply 0) = 0" by (simp add: call_count_def cint_id split: sce_call.split io_call.split)
  then show ?thesis by (simp add: c(2) transfer_def sys_def quiet_os_def)
qed

text \<open>C8 (functional): the writing side of a vectored operation on a terminal, pipe or socket
  passes on exactly the bytes of the vectors, in order, in one buffer of their total length, and
  changes no memory outside that buffer; it fails without allocating exactly when the total
  exceeds \<open>SSIZE_MAX\<close>.\<close>

theorem writev_gathers:
  assumes "os (Heap (malloc (of_nat (iov_sum v)))) (world s) = (ret_reply (uint b), w)"
    and "b \<noteq> 0" "\<forall>(p, n) \<in> set v. apart p n b (of_nat (iov_sum v))"
  shows "if unat SSIZE_MAX < iov_sum v then writev_via os wr v s = (- 1, s)
    else \<exists>s1 bytes. unat bytes = iov_sum v \<and> load b bytes s1 = load_iov v s \<and>
      (\<forall>a. \<not> in_range b bytes a \<longrightarrow> mem s1 a = mem s a) \<and> world s1 = w \<and> libc.more s1 = libc.more s \<and>
      writev_via os wr v s =
        (fst (wr b bytes s1), snd (sys os (Heap (free b)) (snd (wr b bytes s1))))"
proof (cases "iov_total v 0")
  case None
  then have "unat SSIZE_MAX < iov_sum v" using iov_total_None [of 0 v] by (simp add: SSIZE_MAX_def)
  with None show ?thesis by (simp add: writev_via_def)
next
  case (Some t)
  then have t: "unat t = iov_sum v" "t \<le> SSIZE_MAX" using iov_total_sum [OF Some] by simp_all
  have tw: "of_nat (iov_sum v) = t" unfolding t(1) [symmetric] by simp
  define s0 where "s0 = snd (sys os (Heap (malloc t)) s)"
  define s1 where "s1 = set_mem (gather v b t (mem s0)) s0"
  have s0: "mem s0 = mem s" "world s0 = w" "libc.more s0 = libc.more s"
    using assms(1) tw by (simp_all add: s0_def mem_sys)
  have "rp_ret (fst (sys os (Heap (malloc t)) s)) = uint b" using assms(1) tw by (simp add: sys_ret_def)
  then have run: "writev_via os wr v s =
      (fst (wr b t s1), snd (sys os (Heap (free b)) (snd (wr b t s1))))"
    using Some assms(2) by (simp add: writev_via_def Let_def case_prod_beta s1_def s0_def)
  have m1: "mem s1 = gather v b t (mem s)" "world s1 = w" "libc.more s1 = libc.more s"
    using s0 by (simp_all add: s1_def set_mem_def)
  have "load b t s1 = load_iov v s"
    using gather_load [of t v b "mem s"] t(1) assms(3) tw m1 by (simp add: load_def load_iov_def)
  moreover have "\<forall>a. \<not> in_range b t a \<longrightarrow> mem s1 a = mem s a" using m1 by (simp add: gather_frame)
  ultimately have "\<exists>s1 bytes. unat bytes = iov_sum v \<and> load b bytes s1 = load_iov v s \<and>
      (\<forall>a. \<not> in_range b bytes a \<longrightarrow> mem s1 a = mem s a) \<and> world s1 = w \<and> libc.more s1 = libc.more s \<and>
      writev_via os wr v s =
        (fst (wr b bytes s1), snd (sys os (Heap (free b)) (snd (wr b bytes s1))))"
    using t(1) run m1(2,3) by blast
  then show ?thesis using t by (simp add: word_le_nat_alt)
qed

text \<open>A platform whose allocator hands out one buffer, for the witnesses.\<close>

definition heap_os :: "addr \<Rightarrow> sce_call \<Rightarrow> unit \<Rightarrow> reply \<times> unit" where
  "heap_os b c w = (case c of Heap (malloc n) \<Rightarrow> (ret_reply (uint b), w) | _ \<Rightarrow> (ret_reply 0, w))"

lemma apart_offset:
  "n \<le> q - p \<Longrightarrow> k \<le> p - q \<Longrightarrow> apart p n q k"
proof (unfold apart_def, intro allI impI notI)
  fix a assume "n \<le> q - p" "k \<le> p - q" "in_range p n a" "in_range q k a"
  moreover define x d where "x = a - p" and "d = q - p"
  moreover have "a - q = x - d" "p - q = - d" by (simp_all add: x_def d_def)
  ultimately have "n \<le> d" "k \<le> - d" "x < n" "x - d < k" by (simp_all only: in_range_def)
  then have "x < d" "x - d < - d" by auto
  then have "unat x < unat d" "unat (x - d) < unat (0 - d)" by (simp_all add: word_less_nat_alt)
  moreover have "unat (x - d) = unat x + 2 ^ 32 - unat d" "unat (0 - d) = 2 ^ 32 - unat d"
    using calculation(1) unat_sub_if' [of x d] unat_sub_if' [of 0 d] by simp_all
  ultimately show False by linarith
qed

theorem writev_gathers_witness:
  "\<exists>s1. load 0x9000 5 s1 = load_iov [(0x1000, 2), (0x2000, 3)] (blank_state ()) \<and>
     writev_via (heap_os 0x9000) (\<lambda>b n s. (uint n, s)) [(0x1000, 2), (0x2000, 3)] (blank_state ()) =
       (5, snd (sys (heap_os 0x9000) (Heap (free 0x9000)) s1))"
proof -
  have s: "iov_sum [(0x1000, 2), (0x2000, 3)] = 5" by simp
  have a: "apart 0x1000 2 0x9000 5" "apart 0x2000 3 0x9000 5" by (rule apart_offset; simp)+
  have "\<not> unat SSIZE_MAX < 5" by (simp add: SSIZE_MAX_def)
  with writev_gathers [where os = "heap_os 0x9000" and v = "[(0x1000, 2), (0x2000, 3)]" and s = "blank_state ()" and b = "0x9000"
      and w = "()" and wr = "\<lambda>b n s. (uint n, s)"] a
  obtain s1 bytes where "unat bytes = 5" "load 0x9000 bytes s1 = load_iov [(0x1000, 2), (0x2000, 3)] (blank_state ())"
    "writev_via (heap_os 0x9000) (\<lambda>b n s. (uint n, s)) [(0x1000, 2), (0x2000, 3)] (blank_state ()) =
       (uint bytes, snd (sys (heap_os 0x9000) (Heap (free 0x9000)) s1))"
    unfolding s by (auto simp: heap_os_def blank_state_def)
  moreover have "of_nat (unat bytes) = bytes" by simp
  then have "bytes = 5" using calculation(1) by simp
  ultimately show ?thesis by auto
qed

text \<open>C9 (functional): the reading side of a vectored operation on a terminal, pipe or socket
  distributes the bytes read over the vectors in order: when the read stored \<open>k\<close> bytes in the
  buffer, the vectors afterwards hold those bytes followed by what they held behind the first
  \<open>k\<close> positions, and the result is \<open>k\<close>; a failed read gives \<open>-1\<close> and copies nothing.\<close>

theorem readv_scatters:
  assumes "os (Heap (malloc (of_nat (iov_sum v)))) (world s) = (ret_reply (uint b), w)" "b \<noteq> 0"
    and "iov_sum v \<le> unat SSIZE_MAX" "iov_apart v" "\<forall>(p, n) \<in> set v. apart p n b (of_nat (iov_sum v))"
    and "rd b (of_nat (iov_sum v)) (snd (sys os (Heap (malloc (of_nat (iov_sum v)))) s)) = (ret, s1)"
    and "ret \<le> int (iov_sum v)" "\<And>w. rp_writes (fst (os (Heap (free b)) w)) = []"
  shows "readv_via os rd v s = (if ret < 0 then (- 1, snd (sys os (Heap (free b)) s1))
      else (ret, snd (sys os (Heap (free b)) (set_mem (scatter v b (word_of_int ret) (mem s1)) s1)))) \<and>
    load_iov v (snd (readv_via os rd v s)) =
      (if ret < 0 then load_iov v s1
       else load b (word_of_int ret) s1 @ drop (nat ret) (load_iov v s1))"
proof -
  have "iov_total v 0 \<noteq> None" using iov_total_None [of 0 v] assms(3) by (simp add: SSIZE_MAX_def)
  then obtain t where Some: "iov_total v 0 = Some t" by auto
  then have t: "unat t = iov_sum v" using iov_total_sum [OF Some] by simp
  have tw: "of_nat (iov_sum v) = t" unfolding t [symmetric] by simp
  have "rp_ret (fst (sys os (Heap (malloc t)) s)) = uint b" using assms(1) tw by (simp add: sys_ret_def)
  then have run: "readv_via os rd v s = (if ret < 0 then (- 1, snd (sys os (Heap (free b)) s1))
      else (ret, snd (sys os (Heap (free b)) (set_mem (scatter v b (word_of_int ret) (mem s1)) s1))))"
    using Some assms(2,6) tw by (simp add: readv_via_def Let_def case_prod_beta)
  have free: "load_iov v (snd (sys os (Heap (free b)) x)) = load_iov v x" for x :: "('a, 'b) fd_state_scheme"
    using assms(8) by (simp add: load_iov_def load_def mem_sys)
  have "load_iov v (set_mem (scatter v b (word_of_int ret) (mem s1)) s1) =
      load b (word_of_int ret) s1 @ drop (nat ret) (load_iov v s1)" if "0 \<le> ret"
  proof -
    have lt: "nat ret \<le> unat t" using that assms(7) t by simp
    then have u: "unat (word_of_int ret :: size_t) = nat ret"
      using that assms(7) t int_unat_lt32 [of t] by (intro unat_word_of_int32) linarith+
    then have le: "(word_of_int ret :: size_t) \<le> t" using lt by (simp add: word_le_nat_alt)
    have "\<forall>(p, n) \<in> set v. apart p n b (word_of_int ret)"
      using assms(5) in_range_split [OF le] unfolding tw by (fastforce simp: apart_def)
    then show ?thesis
      using scatter_load [of "word_of_int ret" v b "mem s1"] u lt t assms(4)
      by (simp add: load_iov_def load_def set_mem_def)
  qed
  then show ?thesis using run free by simp
qed

theorem readv_scatters_witness:
  "load_iov [(0x1000, 2), (0x2000, 3)]
     (snd (readv_via (heap_os 0x9000) (\<lambda>b n s. (3, set_mem (mem_store b [7, 8, 9] (mem s)) s))
        [(0x1000, 2), (0x2000, 3)] (blank_state ()))) = [7, 8, 9, 0, 0]"
proof -
  let ?v = "[(0x1000, 2), (0x2000, 3)] :: iovec list"
  let ?rd = "\<lambda>b (n :: size_t) s. (3, set_mem (mem_store b [7, 8, 9] (mem s)) s)"
  define s0 where "s0 = snd (sys (heap_os 0x9000) (Heap (malloc 5)) (blank_state ()))"
  have n: "of_nat (iov_sum ?v) = (5 :: size_t)" by simp
  have a: "apart 0x1000 2 0x9000 5" "apart 0x2000 3 0x9000 5" "apart 0x1000 2 0x2000 3"
    by (rule apart_offset; simp)+
  have m0: "mem s0 = (\<lambda>_. 0)" by (simp add: s0_def mem_sys heap_os_def blank_state_def)
  have e: "load_iov ?v (snd (?rd 0x9000 5 s0)) = [0, 0, 0, 0, 0]"
    "load 0x9000 3 (snd (?rd 0x9000 5 s0)) = [7, 8, 9]"
    by (simp_all add: load_iov_def load_def set_mem_def m0 mem_load_def upt_conv_Cons)
  have "heap_os 0x9000 (Heap (malloc 5)) (world (blank_state ())) = (ret_reply (uint (0x9000 :: addr)), ())"
    by (simp add: heap_os_def)
  moreover have "\<And>w. rp_writes (fst (heap_os 0x9000 (Heap (free 0x9000)) w)) = []" by (simp add: heap_os_def)
  moreover have "?rd 0x9000 5 (snd (sys (heap_os 0x9000) (Heap (malloc 5)) (blank_state ()))) =
      (3, snd (?rd 0x9000 5 s0))" by (simp add: s0_def)
  ultimately show ?thesis
    using readv_scatters [where os = "heap_os 0x9000" and v = ?v and s = "blank_state ()" and b = "0x9000"
        and w = "()" and rd = ?rd and ret = 3 and ?s1.0 = "snd (?rd 0x9000 5 s0)", unfolded n, THEN conjunct2] a e
    by (simp add: SSIZE_MAX_def)
qed

text \<open>
  The vectored operations hand the platform's handle, not the descriptor, to read, write, pread
  and pwrite, which take it for a descriptor.
\<close>

lemma via_fails:
  assumes "\<And>b n s'. fdmap s' = fdmap s \<Longrightarrow> fst (f b n s') = - 1"
  shows "fst (readv_via os f v s) = - 1" "fst (writev_via os f v s) = - 1"
  using assms
  by (simp_all add: readv_via_def writev_via_def set_mem_def Let_def case_prod_beta split: option.splits)

lemma rw_invalid:
  assumes "\<not> is_fd_valid fd s" "\<And>w. rp_ret (fst (os (Fios (sceFiosFHTell fd)) w)) < 0"
  shows "fst (posix_read os net fd ptr len s) = - 1" "fst (posix_write os net fd ptr len s) = - 1"
    "fst (pread os net fd ptr len off s) = - 1" "fst (pwrite os net fd ptr len off s) = - 1"
  using assms
  by (simp_all add: posix_read_def posix_write_def pread_def pwrite_def with_fd_invalid sys_ret_def case_prod_beta)

lemma with_fd_fst:
  assumes "is_fd_valid fd s"
    and "\<And>s'. fdmap s' = fdmap s \<Longrightarrow>
      P (work ((fdmap_pool s p)\<lparr>ref_count := ref_count (fdmap_pool s p) + 1\<rparr>) s')"
    and "p = the (fdmap s (nat fd))" "\<And>r s'. P (r, s') \<Longrightarrow> Q (tail r s')" "\<And>r s1 s2. P (r, s1) = P (r, s2)"
  shows "Q (with_fd os net fd bad work tail s)"
  using assms
  by (simp add: with_fd_def fd_grab_eq Let_def case_prod_beta) (metis fd_field_simps(7) prod.collapse)

text \<open>C10 (error): on a terminal, pipe or socket whose platform handle is not itself an open
  descriptor number or FIOS handle, readv, writev, preadv and pwritev fail with \<open>-1\<close> on every
  input: they pass the handle on as a descriptor.\<close>

theorem vectored_handle_as_descriptor:
  assumes "is_fd_valid fd s" "d = fdmap_pool s (the (fdmap s (nat fd)))"
    and "dtype d \<in> {VITA_DESCRIPTOR_TTY, VITA_DESCRIPTOR_PIPE, VITA_DESCRIPTOR_SOCKET}"
    and "\<not> is_fd_valid (sce_uid d) s" "\<And>w. rp_ret (fst (os (Fios (sceFiosFHTell (sce_uid d))) w)) < 0"
  shows "fst (readv os net fd v s) = - 1 \<and> fst (writev os net fd v s) = - 1 \<and>
    fst (preadv os net fd v off s) = - 1 \<and> fst (pwritev os net fd v off s) = - 1"
proof -
  have inv: "\<not> is_fd_valid (sce_uid d) s'" if "fdmap s' = fdmap s" for s' :: "('a, 'b) fd_state_scheme"
    using assms(4) that by (simp add: is_fd_valid_def)
  have rw: "fst (posix_read os net (sce_uid d) b n s') = - 1" "fst (posix_write os net (sce_uid d) b n s') = - 1"
    "fst (pread os net (sce_uid d) b n off s') = - 1" "fst (pwrite os net (sce_uid d) b n off s') = - 1"
    if "fdmap s' = fdmap s" for b n and s' :: "('a, 'b) fd_state_scheme"
    using rw_invalid [OF inv [OF that], where os = os, OF assms(5)] by simp_all
  have "dtype d = VITA_DESCRIPTOR_TTY \<or> dtype d = VITA_DESCRIPTOR_PIPE \<or> dtype d = VITA_DESCRIPTOR_SOCKET"
    using assms(3) by simp
  note ty = this
  note bracket = with_fd_fst [OF assms(1) _ refl, where P = "\<lambda>x. fst (fst x) = - 1" and Q = "\<lambda>x. fst x = - 1"]
  note ops = readv_def writev_def preadv_def pwritev_def
  have "fst (readv os net fd v s) = - 1" "fst (writev os net fd v s) = - 1"
    "fst (preadv os net fd v off s) = - 1" "fst (pwritev os net fd v off s) = - 1"
    unfolding ops
    by (rule bracket; use ty in \<open>elim disjE; simp add: io_result_def case_prod_beta via_fails rw flip: assms(2)\<close>)+
  then show ?thesis by simp
qed

text \<open>A platform with a terminal whose handle is no descriptor number.\<close>

definition tty_os :: "sce_call \<Rightarrow> unit \<Rightarrow> reply \<times> unit" where
  "tty_os c w = (case c of Kernel sceKernelGetStdout \<Rightarrow> (ret_reply 0x10005, w)
     | Fios (sceFiosFHTell h) \<Rightarrow> (ret_reply (- 1), w) | _ \<Rightarrow> (ret_reply 0, w))"

theorem vectored_handle_as_descriptor_witness:
  "fst (writev tty_os (\<lambda>e. e) 1 [(0x1000, 4)] (init_fd tty_os (blank_state ()))) = - 1"
proof -
  let ?s = "init_fd tty_os (blank_state ())"
  have v: "is_fd_valid 1 ?s" by (simp add: is_fd_valid_def init_fd_table(1) MAX_OPEN_FILES_def)
  have d: "fdmap_pool ?s (the (fdmap ?s (nat 1))) =
      \<lparr>sce_uid = 0x10005, dtype = VITA_DESCRIPTOR_TTY, ref_count = 1\<rparr>"
    unfolding init_fd_table(1)
    by (simp add: init_fd_def init_std_def Let_def case_prod_beta sys_ret_def tty_os_def unlock_fd_def)
  show ?thesis
    using vectored_handle_as_descriptor [OF v d [symmetric], where os = tty_os and net = "\<lambda>e. e" and v = "[(0x1000, 4)]"]
    by (simp add: is_fd_valid_def MAX_OPEN_FILES_def tty_os_def)
qed

end
