(* ===== verification/Unistd_Fd.thy ===== *)
theory Unistd_Fd
  imports Unistd_IO
begin

text \<open>
  The operations of \<^verbatim>\<open>src/unistd\<close> that create, duplicate, close and inspect descriptors: close,
  dup, dup2, pipe, isatty, lseek, fsync and ftruncate.
\<close>

definition close_fd ::
  "'w services \<Rightarrow> (int \<Rightarrow> int) \<Rightarrow> int \<Rightarrow> ('w, 'z) fd_state_scheme \<Rightarrow> int \<times> ('w, 'z) fd_state_scheme" where
  "close_fd os net fd s =
     (let (res, s) = release_descriptor os net fd s in
      if res < 0 then (- 1, set_errno EBADF s) else (0, set_errno 0 s))"

definition dup :: "int \<Rightarrow> ('w, 'z) fd_state_scheme \<Rightarrow> int \<times> ('w, 'z) fd_state_scheme" where
  "dup oldfd s =
     (let (fd, s) = duplicate_descriptor oldfd 0 s in
      if fd < 0 then (- 1, if errno s \<noteq> EMFILE then set_errno EBADF s else s)
      else (fd, set_errno 0 s))"

definition dup2 ::
  "'w services \<Rightarrow> (int \<Rightarrow> int) \<Rightarrow> int \<Rightarrow> int \<Rightarrow> ('w, 'z) fd_state_scheme \<Rightarrow>
     (int \<times> ('w, 'z) fd_state_scheme) option" where
  "dup2 os net oldfd newfd s =
     (if newfd < 0 \<or> int MAX_OPEN_FILES \<le> newfd then Some (- 1, set_errno EBADF s)
      else
        (case duplicate_descriptor2 os net oldfd newfd s of
           None \<Rightarrow> None
         | Some (fd, s) \<Rightarrow>
             if fd < 0 then Some (- 1, set_errno EBADF s) else Some (fd, set_errno 0 s)))"

text \<open>\<open>pipefd\<close> is the pair of the result, \<open>None\<close> where the function fails.\<close>

definition pipe ::
  "'w services \<Rightarrow> (int \<Rightarrow> int) \<Rightarrow> ('w, 'z) fd_state_scheme \<Rightarrow>
     (int \<times> int) option \<times> ('w, 'z) fd_state_scheme" where
  "pipe os net s =
     (let (r, s) = sys os (Kernel (sceKernelCreateMsgPipe ''SceLibcExt pipe'' 0x40 0xC PIPE_MAX)) s; ret = rp_ret r in
      if ret < 0 then (None, set_errno (sce_errno_to_errno net ret ERROR_GENERIC) s)
      else
        (let (fd, s) = acquire_descriptor s in
         if fd < 0 then
           (None, set_errno EMFILE (snd (sys os (Kernel (sceKernelDeleteMsgPipe ret)) s)))
         else
           (let s = publish fd ret VITA_DESCRIPTOR_PIPE s;
                (fd2, s) = duplicate_descriptor fd 0 s
            in if fd2 < 0 then
                 (None, set_errno EMFILE (snd (sys os (Kernel (sceKernelDeleteMsgPipe ret)) s)))
               else (Some (fd, fd2), s))))"

definition isatty ::
  "'w services \<Rightarrow> (int \<Rightarrow> int) \<Rightarrow> int \<Rightarrow> ('w, 'z) fd_state_scheme \<Rightarrow> int \<times> ('w, 'z) fd_state_scheme" where
  "isatty os net fd s =
     with_fd os net fd
       (\<lambda>s. (0, set_errno EBADF s))
       (\<lambda>d s. (if dtype d = VITA_DESCRIPTOR_TTY then 1 else 0, s))
       (\<lambda>istty s. (istty, s)) s"

text \<open>\<open>lseek\<close> reports every negative result, with no test for \<open>-1\<close>, and keeps \<open>errno\<close> on success.\<close>

definition lseek_result ::
  "(int \<Rightarrow> int) \<Rightarrow> int \<Rightarrow> ('w, 'z) libc_scheme \<Rightarrow> int \<times> ('w, 'z) libc_scheme" where
  "lseek_result net ret s =
     (if ret < 0 then (- 1, set_errno (sce_errno_to_errno net ret ERROR_FIOS) s) else (ret, s))"

definition lseek ::
  "'w services \<Rightarrow> (int \<Rightarrow> int) \<Rightarrow> int \<Rightarrow> int \<Rightarrow> int \<Rightarrow> ('w, 'z) fd_state_scheme \<Rightarrow>
     int \<times> ('w, 'z) fd_state_scheme" where
  "lseek os net fd ptr dir s =
     with_fd os net fd
       (\<lambda>s. let (t, s) = sys os (Fios (sceFiosFHTell fd)) s in
            if 0 > rp_ret t then (- 1, set_errno EBADF s)
            else (let (r, s) = sys os (Fios (sceFiosFHSeek fd ptr dir)) s in lseek_result net (cint (rp_ret r)) s))
       (\<lambda>d s. case dtype d of
            VITA_DESCRIPTOR_FILE \<Rightarrow>
              (let (r, s) = sys os (Fios (sceFiosFHSeek (sce_uid d) ptr dir)) s in (cint (rp_ret r), s))
          | VITA_DESCRIPTOR_DIRECTORY \<Rightarrow> (make_sce_errno EBADF, s)
          | _ \<Rightarrow> (make_sce_errno ESPIPE, s))
       (lseek_result net) s"

definition fsync ::
  "'w services \<Rightarrow> (int \<Rightarrow> int) \<Rightarrow> int \<Rightarrow> ('w, 'z) fd_state_scheme \<Rightarrow> int \<times> ('w, 'z) fd_state_scheme" where
  "fsync os net fd s =
     with_fd os net fd
       (\<lambda>s. (- 1, set_errno EBADF s))
       (\<lambda>d s. case dtype d of
            VITA_DESCRIPTOR_DIRECTORY \<Rightarrow>
              (let (q, s) = sys os (Fios (sceFiosDHGetPath (sce_uid d))) s;
                   (r, s) = sys os (Fios (sceFiosSyncSync (rp_str q))) s in (rp_ret r, s))
          | VITA_DESCRIPTOR_FILE \<Rightarrow>
              (let (r, s) = sys os (Fios (sceFiosFHSyncSync (sce_uid d))) s in (rp_ret r, s))
          | _ \<Rightarrow> (make_sce_errno EINVAL, s))
       (\<lambda>ret s. if ret < 0 then (- 1, set_errno (sce_errno_to_errno net ret ERROR_GENERIC) s) else (0, s)) s"

definition ftruncate ::
  "'w services \<Rightarrow> (int \<Rightarrow> int) \<Rightarrow> int \<Rightarrow> int \<Rightarrow> ('w, 'z) fd_state_scheme \<Rightarrow>
     int \<times> ('w, 'z) fd_state_scheme" where
  "ftruncate os net fd len s =
     with_fd os net fd
       (\<lambda>s. (- 1, set_errno EBADF s))
       (\<lambda>d s. case dtype d of
            VITA_DESCRIPTOR_FILE \<Rightarrow>
              (let (r, s) = sys os (Fios (sceFiosFHTruncateSync (sce_uid d) len)) s in (rp_ret r, s))
          | _ \<Rightarrow> (make_sce_errno EBADF, s))
       (\<lambda>ret s. if ret < 0 then (- 1, set_errno (sce_errno_to_errno net ret ERROR_FIOS) s)
               else (0, set_errno 0 s)) s"

section \<open>What the operations leave alone\<close>

lemma fd_ops_more:
  assumes "fd_live s"
  shows "libc.more (snd (isatty os net fd s)) = libc.more s"
    and "libc.more (snd (lseek os net fd ptr dir s)) = libc.more s"
    and "libc.more (snd (fsync os net fd s)) = libc.more s"
    and "libc.more (snd (ftruncate os net fd l s)) = libc.more s"
  unfolding isatty_def lseek_def fsync_def ftruncate_def
  by (rule with_fd_more [OF assms]; simp add: lseek_result_def Let_def case_prod_beta split: DescriptorTypes.splits)+

lemma isatty_eq:
  assumes "fd_live s"
  shows "isatty os net fd s =
    (if is_fd_valid fd s
     then (if dtype (fdmap_pool s (the (fdmap s (nat fd)))) = VITA_DESCRIPTOR_TTY then 1 else 0, s)
     else (0, set_errno EBADF s))"
  by (cases "is_fd_valid fd s")
     (simp_all add: isatty_def with_fd_invalid with_fd_valid [OF assms] table_blind_def)

lemma descriptor_rebuilt:
  "(d :: DescriptorTranslation)\<lparr>ref_count := n, sce_uid := u, dtype := t\<rparr> =
     \<lparr>sce_uid = u, dtype = t, ref_count = n\<rparr>"
  by (cases d) simp

section \<open>Properties\<close>

text \<open>C11 (roundtrip): duplicating an open descriptor while a descriptor from 3 on is free gives
  the lowest free one, bound to the same entry, with \<open>errno\<close> 0; closing it again succeeds without
  a call to the platform and restores the table, so the first descriptor stays open.\<close>

theorem dup_close_roundtrip:
  assumes "fd_live s" "is_fd_valid fd s" "fdmap s i = None" "3 \<le> i" "i < MAX_OPEN_FILES"
  shows "\<exists>fd2. fst (dup fd s) = int fd2 \<and> 3 \<le> fd2 \<and> fd2 \<le> i \<and> fdmap s fd2 = None \<and>
    errno (snd (dup fd s)) = 0 \<and>
    fdmap (snd (dup fd s)) fd2 = fdmap s (nat fd) \<and>
    (\<forall>os net. close_fd os net (int fd2) (snd (dup fd s)) = (0, set_errno 0 s))"
proof -
  from assms(2) obtain p where p: "fdmap s (nat fd) = Some p" by (rule fd_valid_E)
  have live: "1 \<le> ref_count (fdmap_pool s p)" using assms(1) p by (auto simp: fd_live_def)
  obtain k where k: "first_index (\<lambda>i. fdmap s i = None) 3 MAX_OPEN_FILES = Some k"
    using first_index_ex [of "\<lambda>i. fdmap s i = None" i 3] assms(3-5) by auto
  note k' = first_index_Some [OF k]
  have le: "k \<le> i" using k' assms(3,4) by (meson not_le_imp_less)
  let ?d = "(fdmap_pool s p)\<lparr>ref_count := ref_count (fdmap_pool s p) + 1\<rparr>"
  have d: "dup fd s = (int k, set_errno 0 (set_entry p ?d (set_slot k (Some p) s)))"
    using assms(2) p k by (simp add: dup_def duplicate_descriptor_eq)
  have "close_fd os net (int k) (snd (dup fd s)) = (0, set_errno 0 s)" for os net
    using k' live p
    by (simp add: d close_fd_def release_descriptor_eq is_fd_valid_def fd_drop_eq Let_def)
       (simp add: set_errno_def set_entry_def set_slot_def fun_upd_idem)
  then show ?thesis using d k' le p by auto
qed

theorem dup_close_roundtrip_witness:
  "\<exists>fd2. fst (dup 1 (init_fd quiet_os (blank_state ()))) = int fd2 \<and> fd2 = 3"
  using dup_close_roundtrip [where s = "init_fd quiet_os (blank_state ())" and fd = 1 and i = 3, OF init_live]
  by (auto simp: is_fd_valid_def init_fd_table(1) MAX_OPEN_FILES_def)

text \<open>A descriptor bound to an entry, with its reference counted.\<close>

definition bound :: "int \<Rightarrow> nat \<Rightarrow> ('w, 'z) fd_state_scheme \<Rightarrow> ('w, 'z) fd_state_scheme" where
  "bound fd p s = set_entry p ((fdmap_pool s p)\<lparr>ref_count := ref_count (fdmap_pool s p) + 1\<rparr>) (set_slot (nat fd) (Some p) s)"

lemma dup2_rebinds:
  assumes "0 \<le> newfd" "newfd < int MAX_OPEN_FILES" "is_fd_valid oldfd s" "oldfd \<noteq> newfd" "fdmap s (nat oldfd) = Some p"
    and "snd (release_descriptor os net newfd s) = t" "fdmap t = (fdmap s)(nat newfd := None)"
  shows "dup2 os net oldfd newfd s = Some (newfd, set_errno 0 (bound newfd p t))"
proof -
  have "nat oldfd \<noteq> nat newfd" using assms(1,3,4) by (auto simp: is_fd_valid_def)
  then have "fdmap t (nat newfd) = None" "fdmap t (nat oldfd) = Some p" using assms(5,7) by auto
  then show ?thesis using assms by (simp add: dup2_def duplicate_descriptor2_eq bound_def)
qed

lemma dup2_last:
  assumes "0 \<le> newfd" "newfd < int MAX_OPEN_FILES" "is_fd_valid oldfd s" "oldfd \<noteq> newfd" "fdmap s (nat oldfd) = Some p"
    and "fdmap s (nat newfd) = Some q" "d = fdmap_pool s q" "ref_count d = 1"
  shows "dup2 os net oldfd newfd s =
      (if 0 \<le> sys_ret os (close_call d) s then
         Some (newfd, set_errno 0 (bound newfd p (set_slot (nat newfd) None (set_entry q zero_descriptor (snd (sys os (close_call d) s))))))
       else if 0 < sce_errno_to_errno net (sys_ret os (close_call d) s)
                     (if dtype d = VITA_DESCRIPTOR_SOCKET then ERROR_SOCKET else ERROR_GENERIC)
         then Some (- 1, set_errno EBADF (snd (sys os (close_call d) s)))
       else Some (newfd, set_errno 0 (bound newfd p (set_slot (nat newfd) None (snd (sys os (close_call d) s))))))"
proof -
  let ?r = "sys_ret os (close_call d) s"
  let ?e = "sce_errno_to_errno net ?r (if dtype d = VITA_DESCRIPTOR_SOCKET then ERROR_SOCKET else ERROR_GENERIC)"
  have v: "is_fd_valid newfd s" using assms(1,2,6) by (simp add: is_fd_valid_def)
  note rebinds = dup2_rebinds [OF assms(1-5), of os net]
  consider (ok) "0 \<le> ?r" | (error) "?r < 0" "0 < ?e" | (odd) "?r < 0" "\<not> 0 < ?e" by linarith
  then show ?thesis
  proof cases
    case ok
    then have "release_descriptor os net newfd s = (0, set_slot (nat newfd) None (set_entry q zero_descriptor (snd (sys os (close_call d) s))))"
      using v assms(6-8) by (simp add: release_descriptor_eq fd_drop_eq Let_def case_prod_beta)
    then show ?thesis using rebinds ok by simp
  next
    case error
    then have "release_descriptor os net newfd s = (- 1, snd (sys os (close_call d) s))"
      using v assms(6-8) by (auto simp: release_descriptor_eq fd_drop_eq Let_def case_prod_beta)
    then show ?thesis using error assms(1-6) by (auto simp: dup2_def duplicate_descriptor2_eq)
  next
    case odd
    then have "release_descriptor os net newfd s = (0, set_slot (nat newfd) None (snd (sys os (close_call d) s)))"
      using v assms(6-8) by (auto simp: release_descriptor_eq fd_drop_eq Let_def case_prod_beta)
    then show ?thesis using rebinds odd by simp
  qed
qed

text \<open>C12 (functional): \<^verbatim>\<open>dup2\<close> is defined on every input: it never indexes the table out of range
  nor uses a closed descriptor. A descriptor out of range or not open gives \<open>-1\<close> with EBADF and
  no other change. Two equal descriptors are left alone, but the mutex stays locked. For two different descriptors the new one
  is bound to the entry of the first, which counts one reference more, and every other descriptor is as before: the
  old use of the new descriptor is given up first, by counting one reference less where the entry has others and by the one call
  that closes its handle where it has not. When that call fails with an error number, \<open>dup2\<close> fails with EBADF and the table is
  as before; with a code that is no error number the descriptor is rebound and the old entry stays in the pool.\<close>

theorem dup2_behaviour:
  "(newfd < 0 \<or> int MAX_OPEN_FILES \<le> newfd \<or> \<not> is_fd_valid oldfd s \<longrightarrow>
      dup2 os net oldfd newfd s = Some (- 1, set_errno EBADF s)) \<and>
   (0 \<le> newfd \<and> newfd < int MAX_OPEN_FILES \<and> is_fd_valid oldfd s \<and> fdmap s (nat oldfd) = Some p \<longrightarrow>
     (oldfd = newfd \<longrightarrow> dup2 os net oldfd newfd s = Some (newfd, set_errno 0 (s\<lparr>fd_mutex := fd_mutex s + 1\<rparr>))) \<and>
     (oldfd \<noteq> newfd \<and> fdmap s (nat newfd) = None \<longrightarrow>
        dup2 os net oldfd newfd s = Some (newfd, set_errno 0 (bound newfd p s))) \<and>
     (oldfd \<noteq> newfd \<and> fdmap s (nat newfd) = Some q \<and> d = fdmap_pool s q \<longrightarrow>
        (ref_count d \<noteq> 1 \<longrightarrow> dup2 os net oldfd newfd s =
           Some (newfd, set_errno 0 (bound newfd p (set_slot (nat newfd) None (set_entry q (d\<lparr>ref_count := ref_count d - 1\<rparr>) s))))) \<and>
        (ref_count d = 1 \<longrightarrow>
          (\<exists>c e. call_closes c = Some (entry_handle d) \<and>
            e = sce_errno_to_errno net (sys_ret os c s) (if dtype d = VITA_DESCRIPTOR_SOCKET then ERROR_SOCKET else ERROR_GENERIC) \<and>
            dup2 os net oldfd newfd s =
              (if 0 \<le> sys_ret os c s then
                 Some (newfd, set_errno 0 (bound newfd p (set_slot (nat newfd) None (set_entry q zero_descriptor (snd (sys os c s))))))
               else if 0 < e then Some (- 1, set_errno EBADF (snd (sys os c s)))
               else Some (newfd, set_errno 0 (bound newfd p (set_slot (nat newfd) None (snd (sys os c s))))))))))"
proof (intro conjI impI)
  assume "newfd < 0 \<or> int MAX_OPEN_FILES \<le> newfd \<or> \<not> is_fd_valid oldfd s"
  then show "dup2 os net oldfd newfd s = Some (- 1, set_errno EBADF s)" by (auto simp: dup2_def duplicate_descriptor2_eq)
next
  assume a: "0 \<le> newfd \<and> newfd < int MAX_OPEN_FILES \<and> is_fd_valid oldfd s \<and> fdmap s (nat oldfd) = Some p"
  note rebinds = dup2_rebinds [OF _ _ _ _ _ refl, where oldfd = oldfd and newfd = newfd and s = s and p = p and os = os and net = net]
  {
    assume "oldfd = newfd"
    then show "dup2 os net oldfd newfd s = Some (newfd, set_errno 0 (s\<lparr>fd_mutex := fd_mutex s + 1\<rparr>))"
      using a by (simp add: dup2_def duplicate_descriptor2_eq lock_fd_def)
  next
    assume o: "oldfd \<noteq> newfd \<and> fdmap s (nat newfd) = None"
    then have "release_descriptor os net newfd s = (- 1, s)" by (simp add: release_descriptor_eq is_fd_valid_def)
    moreover have "fdmap s = (fdmap s)(nat newfd := None)" using o by (simp add: fun_eq_iff)
    ultimately show "dup2 os net oldfd newfd s = Some (newfd, set_errno 0 (bound newfd p s))" using rebinds a o by simp
  next
    assume o: "oldfd \<noteq> newfd \<and> fdmap s (nat newfd) = Some q \<and> d = fdmap_pool s q"
    have v: "is_fd_valid newfd s" using a o by (simp add: is_fd_valid_def)
    {
      assume "ref_count d \<noteq> 1"
      then have "release_descriptor os net newfd s = (0, set_slot (nat newfd) None (set_entry q (d\<lparr>ref_count := ref_count d - 1\<rparr>) s))"
        using v o by (simp add: release_descriptor_eq fd_drop_eq Let_def)
      then show "dup2 os net oldfd newfd s =
          Some (newfd, set_errno 0 (bound newfd p (set_slot (nat newfd) None (set_entry q (d\<lparr>ref_count := ref_count d - 1\<rparr>) s))))"
        using rebinds a o by simp
    next
      assume "ref_count d = 1"
      then have "dup2 os net oldfd newfd s =
          (if 0 \<le> sys_ret os (close_call d) s then
             Some (newfd, set_errno 0 (bound newfd p (set_slot (nat newfd) None (set_entry q zero_descriptor (snd (sys os (close_call d) s))))))
           else if 0 < sce_errno_to_errno net (sys_ret os (close_call d) s)
                         (if dtype d = VITA_DESCRIPTOR_SOCKET then ERROR_SOCKET else ERROR_GENERIC)
             then Some (- 1, set_errno EBADF (snd (sys os (close_call d) s)))
           else Some (newfd, set_errno 0 (bound newfd p (set_slot (nat newfd) None (snd (sys os (close_call d) s))))))"
        using a o by (intro dup2_last) auto
      then show "\<exists>c e. call_closes c = Some (entry_handle d) \<and>
          e = sce_errno_to_errno net (sys_ret os c s) (if dtype d = VITA_DESCRIPTOR_SOCKET then ERROR_SOCKET else ERROR_GENERIC) \<and>
          dup2 os net oldfd newfd s =
            (if 0 \<le> sys_ret os c s then
               Some (newfd, set_errno 0 (bound newfd p (set_slot (nat newfd) None (set_entry q zero_descriptor (snd (sys os c s))))))
             else if 0 < e then Some (- 1, set_errno EBADF (snd (sys os c s)))
             else Some (newfd, set_errno 0 (bound newfd p (set_slot (nat newfd) None (snd (sys os c s))))))"
        using close_call_closes [of d] by blast
    }
  }
qed

theorem dup2_behaviour_witness:
  "\<exists>s'. dup2 quiet_os (\<lambda>e. e) 1 7 (init_fd quiet_os (blank_state ())) = Some (7, s') \<and>
     fdmap s' 7 = Some 1 \<and> ref_count (fdmap_pool s' 1) = 2"
proof -
  let ?s = "init_fd quiet_os (blank_state ())"
  have "is_fd_valid 1 ?s" "fdmap ?s (nat 1) = Some 1" "fdmap ?s (nat 7) = None" "(7::int) < int MAX_OPEN_FILES"
    by (simp_all add: is_fd_valid_def init_fd_table(1) MAX_OPEN_FILES_def)
  moreover have "ref_count (fdmap_pool ?s 1) = 1" using init_fd_table(2) [of 1 quiet_os "blank_state ()"] by simp
  ultimately show ?thesis
    using dup2_behaviour [where os = quiet_os and net = "\<lambda>e. e" and oldfd = 1 and newfd = 7 and s = ?s and p = 1]
    by (simp add: bound_def)
qed

text \<open>C13 (functional): a pipe is two different descriptors from 3 on that were free, bound to one
  entry, which has the handle of the message pipe, the type pipe and two references.\<close>

theorem pipe_shares_entry:
  assumes "pipe os net s = (Some (r, w), s')"
  shows "\<exists>fd fd2 p. r = int fd \<and> w = int fd2 \<and> 3 \<le> fd \<and> fd < fd2 \<and> fd2 < MAX_OPEN_FILES \<and>
    fdmap s fd = None \<and> fdmap s fd2 = None \<and> fdmap s' = (fdmap s)(fd \<mapsto> p, fd2 \<mapsto> p) \<and>
    ref_count (fdmap_pool s p) = 0 \<and>
    fdmap_pool s' = (fdmap_pool s)(p :=
      \<lparr>sce_uid = sys_ret os (Kernel (sceKernelCreateMsgPipe ''SceLibcExt pipe'' 0x40 0xC PIPE_MAX)) s,
       dtype = VITA_DESCRIPTOR_PIPE, ref_count = 2\<rparr>)"
proof -
  let ?c = "Kernel (sceKernelCreateMsgPipe ''SceLibcExt pipe'' 0x40 0xC PIPE_MAX)"
  define s0 where "s0 = snd (sys os ?c s)"
  have s0: "fdmap s0 = fdmap s" "fdmap_pool s0 = fdmap_pool s" by (simp_all add: s0_def)
  have ret: "\<not> sys_ret os ?c s < 0" using assms by (auto simp: pipe_def Let_def case_prod_beta)
  show ?thesis
  proof (cases s0 rule: acquire_cases)
    case full
    then show ?thesis using assms ret by (simp add: pipe_def Let_def case_prod_beta flip: s0_def)
  next
    case (ok fd i)
    let ?s1 = "publish (int fd) (sys_ret os ?c s) VITA_DESCRIPTOR_PIPE
        (set_entry i ((fdmap_pool s0 i)\<lparr>ref_count := 1\<rparr>) (set_slot fd (Some i) s0))"
    have s1: "fdmap ?s1 = (fdmap s)(fd \<mapsto> i)"
        "fdmap_pool ?s1 = (fdmap_pool s)(i := \<lparr>sce_uid = sys_ret os ?c s, dtype = VITA_DESCRIPTOR_PIPE, ref_count = 1\<rparr>)"
      by (simp_all add: publish_def s0 descriptor_rebuilt)
    have d: "duplicate_descriptor (int fd) 0 ?s1 = (w, s')" "r = int fd" "\<not> w < 0"
      using assms ret ok(7) by (auto simp: pipe_def Let_def case_prod_beta split: if_splits simp flip: s0_def)
    show ?thesis
    proof (rule duplicate_cases [where fd = "int fd" and s = ?s1 and minfd = 0])
      assume "duplicate_descriptor (int fd) 0 ?s1 = (- 1, ?s1)"
      then show ?thesis using d by simp
    next
      assume "duplicate_descriptor (int fd) 0 ?s1 = (- 1, set_errno EMFILE ?s1)"
      then show ?thesis using d by simp
    next
      fix p fd2
      assume o: "is_fd_valid (int fd) ?s1" "fdmap ?s1 (nat (int fd)) = Some p" "nat (max 3 0) \<le> fd2"
        "fd2 < MAX_OPEN_FILES" "fdmap ?s1 fd2 = None"
        "\<forall>j. nat (max 3 0) \<le> j \<and> j < fd2 \<longrightarrow> fdmap ?s1 j \<noteq> None"
        "duplicate_descriptor (int fd) 0 ?s1 =
           (int fd2, set_entry p ((fdmap_pool ?s1 p)\<lparr>ref_count := ref_count (fdmap_pool ?s1 p) + 1\<rparr>)
              (set_slot fd2 (Some p) ?s1))"
      have pi: "p = i" using o(2) s1 by simp
      have free: "fdmap s fd2 = None" "fd2 \<noteq> fd" using o(5) s1 by (auto split: if_splits)
      have "\<not> fd2 < fd" using ok(5) o(3) free(1) s0 by auto
      with free(2) have "fd < fd2" by simp
      moreover have w: "w = int fd2" and s': "s' = set_entry i ((fdmap_pool ?s1 i)\<lparr>ref_count := 2\<rparr>) (set_slot fd2 (Some i) ?s1)"
        using o(7) d(1) s1(2) pi by simp_all
      moreover have "fdmap s' = (fdmap s)(fd \<mapsto> i, fd2 \<mapsto> i)" using s' s1(1) by simp
      moreover have "fdmap_pool s' = (fdmap_pool s)(i := \<lparr>sce_uid = sys_ret os ?c s,
          dtype = VITA_DESCRIPTOR_PIPE, ref_count = 2\<rparr>)" using s' s1(2) by simp
      ultimately show ?thesis using ok(1,4,6) o(4) d(2) free(1) unfolding s0 by blast
    qed
  qed
qed

lemma pipe_init: "\<exists>s'. pipe quiet_os (\<lambda>e. e) (init_fd quiet_os (blank_state ())) = (Some (3, 4), s')"
proof -
  define s where "s = snd (sys quiet_os (Kernel (sceKernelCreateMsgPipe ''SceLibcExt pipe'' 0x40 0xC PIPE_MAX))
      (init_fd quiet_os (blank_state ())))"
  have f: "fdmap s = (\<lambda>_. None)(0 \<mapsto> 0, 1 \<mapsto> 1, 2 \<mapsto> 2)" by (simp add: s_def init_fd_table)
  have p: "ref_count (fdmap_pool s i) = (if i < 3 then 1 else 0)" for i
    using init_fd_table(2,3) [of i quiet_os "blank_state ()"]
    by (cases "i < 3") (simp_all add: s_def zero_descriptor_def)
  have "first_index (\<lambda>i. ref_count (fdmap_pool s i) = 0) 0 MAX_OPEN_FILES = Some 3"
    by (rule first_index_eqI) (auto simp: p MAX_OPEN_FILES_def)
  then have a: "acquire_descriptor s = (3, set_entry 3 ((fdmap_pool s 3)\<lparr>ref_count := 1\<rparr>) (set_slot 3 (Some 3) s))"
    by (simp add: acquire_descriptor_eq acquire_loop.simps [of 3] f MAX_OPEN_FILES_def)
  let ?s1 = "publish 3 0 VITA_DESCRIPTOR_PIPE (snd (acquire_descriptor s))"
  have "first_index (\<lambda>i. fdmap ?s1 i = None) 3 MAX_OPEN_FILES = Some 4"
    by (rule first_index_eqI) (auto simp: a publish_def f MAX_OPEN_FILES_def)
  then have "fst (duplicate_descriptor 3 0 ?s1) = 4"
    by (simp add: duplicate_descriptor_eq is_fd_valid_def a publish_def MAX_OPEN_FILES_def Let_def)
  then show ?thesis
    using a by (simp add: pipe_def Let_def case_prod_beta sys_ret_def quiet_os_def flip: s_def)
qed

theorem pipe_shares_entry_witness:
  "fst (pipe quiet_os (\<lambda>e. e) (init_fd quiet_os (blank_state ()))) = Some (3, 4) \<and>
   fdmap (snd (pipe quiet_os (\<lambda>e. e) (init_fd quiet_os (blank_state ())))) 3 \<noteq> None"
  using pipe_init pipe_shares_entry [where os = quiet_os and net = "\<lambda>e. e" and r = 3 and w = 4
      and s = "init_fd quiet_os (blank_state ())"] by fastforce

text \<open>C14 (error): when only one descriptor is free, \<^verbatim>\<open>pipe\<close> fails with EMFILE and deletes the message
  pipe with its last platform call, but leaves that descriptor open: it is bound to an entry that owns the deleted pipe.\<close>

theorem pipe_failure_leaks:
  assumes "ret = sys_ret os (Kernel (sceKernelCreateMsgPipe ''SceLibcExt pipe'' 0x40 0xC PIPE_MAX)) s" "0 \<le> ret"
    and "fst (acquire_descriptor s) = int fd"
    and "\<forall>j. 3 \<le> j \<and> j < MAX_OPEN_FILES \<and> j \<noteq> fd \<longrightarrow> fdmap s j \<noteq> None"
  shows "fst (pipe os net s) = None \<and> errno (snd (pipe os net s)) = EMFILE \<and> fdmap s fd = None \<and>
    (\<exists>p c. fdmap (snd (pipe os net s)) = (fdmap s)(fd \<mapsto> p) \<and>
       fdmap_pool (snd (pipe os net s)) = (fdmap_pool s)(p := \<lparr>sce_uid = ret, dtype = VITA_DESCRIPTOR_PIPE, ref_count = 1\<rparr>) \<and>
       entry_handle (fdmap_pool (snd (pipe os net s)) p) = Pipe_handle ret \<and> call_closes c = Some (Pipe_handle ret) \<and>
       world (snd (pipe os net s)) =
         snd (os c (snd (os (Kernel (sceKernelCreateMsgPipe ''SceLibcExt pipe'' 0x40 0xC PIPE_MAX)) (world s)))))"
proof -
  let ?c = "Kernel (sceKernelCreateMsgPipe ''SceLibcExt pipe'' 0x40 0xC PIPE_MAX)"
  define s0 where "s0 = snd (sys os ?c s)"
  have s0: "fdmap s0 = fdmap s" "fdmap_pool s0 = fdmap_pool s" by (simp_all add: s0_def)
  have "fst (acquire_descriptor s0) = fst (acquire_descriptor s)"
    by (simp add: acquire_descriptor_eq acquire_loop_eq s0 Let_def split: option.splits)
  then have a: "fst (acquire_descriptor s0) = int fd" using assms(3) by simp
  show ?thesis
  proof (cases s0 rule: acquire_cases)
    case full
    then show ?thesis using a by simp
  next
    case (ok fd' i)
    then have [simp]: "fd' = fd" using a by simp
    let ?s1 = "publish (int fd) ret VITA_DESCRIPTOR_PIPE
        (set_entry i ((fdmap_pool s0 i)\<lparr>ref_count := 1\<rparr>) (set_slot fd (Some i) s0))"
    have s1: "fdmap ?s1 = (fdmap s)(fd \<mapsto> i)"
        "fdmap_pool ?s1 = (fdmap_pool s)(i := \<lparr>sce_uid = ret, dtype = VITA_DESCRIPTOR_PIPE, ref_count = 1\<rparr>)"
        "world ?s1 = snd (os ?c (world s))"
      by (simp_all add: publish_def s0 descriptor_rebuilt s0_def world_sys)
    have "first_index (\<lambda>j. fdmap ?s1 j = None) 3 MAX_OPEN_FILES = None"
      using assms(4) by (auto simp: first_index_None s1(1))
    then have "duplicate_descriptor (int fd) 0 ?s1 = (- 1, set_errno EMFILE ?s1)"
      using ok(2) s1(1) by (simp add: duplicate_descriptor_eq is_fd_valid_def)
    then have e: "pipe os net s = (None, set_errno EMFILE (snd (sys os (Kernel (sceKernelDeleteMsgPipe ret)) (set_errno EMFILE ?s1))))"
      using assms(2) ok(7) by (simp add: pipe_def Let_def case_prod_beta flip: s0_def assms(1))
    show ?thesis
      unfolding e using s1 ok(4) s0
      by (auto simp: call_closes_def entry_handle_def world_sys intro!: exI [of _ i] exI [of _ "Kernel (sceKernelDeleteMsgPipe ret)"])
  qed
qed

text \<open>A table with one free descriptor.\<close>

definition crowded :: "unit fd_state" where
  "crowded = (blank_state ())\<lparr>fdmap := (\<lambda>j. if j < 255 then Some 0 else None),
     fdmap_pool := (\<lambda>_. zero_descriptor)(0 := \<lparr>sce_uid = 5, dtype = VITA_DESCRIPTOR_TTY, ref_count = 255\<rparr>)\<rparr>"

theorem pipe_failure_leaks_witness:
  "fst (pipe quiet_os (\<lambda>e. e) crowded) = None \<and> fdmap (snd (pipe quiet_os (\<lambda>e. e) crowded)) 255 \<noteq> None"
proof -
  have "first_index (\<lambda>fd. fdmap crowded fd = None \<and> (\<exists>i<MAX_OPEN_FILES. ref_count (fdmap_pool crowded i) = 0))
      3 MAX_OPEN_FILES = Some 255"
    by (rule first_index_eqI)
       (auto simp: crowded_def MAX_OPEN_FILES_def zero_descriptor_def intro!: exI [of _ "1 :: nat"])
  then have "fst (acquire_descriptor crowded) = int 255"
    by (simp add: acquire_descriptor_eq acquire_loop_eq Let_def)
  from pipe_failure_leaks [OF refl _ this, where os = quiet_os and net = "\<lambda>e. e"] show ?thesis
    by (auto simp: sys_ret_def quiet_os_def crowded_def MAX_OPEN_FILES_def)
qed

text \<open>\<^verbatim>\<open>lseek\<close> on a terminal, socket or pipe returns \<open>-1\<close>, but \<open>errno\<close> is the packed
  platform code of ESPIPE and not ESPIPE, since the result is translated as a FIOS code; the same
  holds of \<^verbatim>\<open>ftruncate\<close> and EBADF on everything but files.\<close>

lemma lseek_errno_not_translated:
  assumes "fd_live s" "is_fd_valid fd s" "d = fdmap_pool s (the (fdmap s (nat fd)))"
  shows "(dtype d \<in> {VITA_DESCRIPTOR_TTY, VITA_DESCRIPTOR_SOCKET, VITA_DESCRIPTOR_PIPE} \<longrightarrow>
      lseek os net fd ptr dir s = (- 1, set_errno (make_sce_errno ESPIPE) s)) \<and>
    (dtype d \<noteq> VITA_DESCRIPTOR_FILE \<longrightarrow>
      ftruncate os net fd len s = (- 1, set_errno (make_sce_errno EBADF) s)) \<and>
    make_sce_errno ESPIPE \<noteq> ESPIPE \<and> make_sce_errno EBADF \<noteq> EBADF"
proof -
  have blind: "table_blind (\<lambda>d (s :: ('a, 'b) fd_state_scheme). case dtype d of
            VITA_DESCRIPTOR_FILE \<Rightarrow>
              (let (r, s) = sys os (Fios (sceFiosFHSeek (sce_uid d) ptr dir)) s in (cint (rp_ret r), s))
          | VITA_DESCRIPTOR_DIRECTORY \<Rightarrow> (make_sce_errno EBADF, s)
          | _ \<Rightarrow> (make_sce_errno ESPIPE, s))"
    "table_blind (\<lambda>d (s :: ('a, 'b) fd_state_scheme). case dtype d of
            VITA_DESCRIPTOR_FILE \<Rightarrow>
              (let (r, s) = sys os (Fios (sceFiosFHTruncateSync (sce_uid d) len)) s in (rp_ret r, s))
          | _ \<Rightarrow> (make_sce_errno EBADF, s))"
    by (simp_all add: table_blind_def case_prod_beta Let_def sys_set_entry split: DescriptorTypes.splits)
  have raw: "make_sce_errno e < 0 \<and> sce_errno_to_errno net (make_sce_errno e) ERROR_FIOS = make_sce_errno e \<and>
      make_sce_errno e \<noteq> e" if "e = EBADF \<or> e = ESPIPE" for e
    using that fios_raw [of e net] by auto
  show ?thesis
    using assms(3) raw [of EBADF] raw [of ESPIPE]
    by (auto simp: lseek_def ftruncate_def with_fd_valid [OF assms(1,2) blind(1)] lseek_result_def
        with_fd_valid [OF assms(1,2) blind(2)] case_prod_beta split: DescriptorTypes.splits)
qed

lemma lseek_errno_not_translated_witness:
  "lseek quiet_os (\<lambda>e. e) 1 0 0 (init_fd quiet_os (blank_state ())) =
     (- 1, set_errno (make_sce_errno ESPIPE) (init_fd quiet_os (blank_state ())))"
proof -
  let ?s = "init_fd quiet_os (blank_state ())"
  have v: "is_fd_valid 1 ?s" by (simp add: is_fd_valid_def init_fd_table(1) MAX_OPEN_FILES_def)
  have d: "dtype (fdmap_pool ?s (the (fdmap ?s (nat 1)))) = VITA_DESCRIPTOR_TTY"
    using init_fd_table(2) [of 1 quiet_os "blank_state ()"] by (simp add: init_fd_table(1))
  show ?thesis
    using lseek_errno_not_translated [OF init_live v refl, where os = quiet_os and net = "\<lambda>e. e" and ptr = 0 and dir = 0] d
    by simp
qed

end
