(* ===== verification/Posix_Process.thy ===== *)
theory Posix_Process
  imports Unistd_Fd
begin

text \<open>
  Signals (\<^verbatim>\<open>src/signal\<close>), user and group identities, sessions and the other functions of \<^verbatim>\<open>src/unistd\<close>, \<^verbatim>\<open>src/passwd\<close>, \<^verbatim>\<open>src/misc\<close>,
  \<^verbatim>\<open>src/stdio\<close> and \<^verbatim>\<open>src/vita\<close> that the platform has no counterpart for, aligned allocation (\<^verbatim>\<open>src/stdlib\<close>), and the wrappers of stream
  positions. Signal numbers are those of the toolchain's header: fields of \<open>signo\<close>.
\<close>

section \<open>Signals\<close>

record signo =
  SIGINT :: int
  SIGTERM :: int
  SIGCHLD :: int
  SIGCONT :: int
  NSIG :: nat

datatype 'h handler = SIG_DFL | SIG_ERR | Sig_func 'h

text \<open>The table \<open>__global_sig_funcs\<close>: \<open>None\<close> is the null pointer.\<close>

type_synonym 'h sig_table = "'h handler list option"

definition init_signal ::
  "'w services \<Rightarrow> signo \<Rightarrow> 'h sig_table \<Rightarrow> ('w, 'z) libc_scheme \<Rightarrow> (int \<times> 'h sig_table) \<times> ('w, 'z) libc_scheme" where
  "init_signal os k funcs s =
     (case funcs of
        None \<Rightarrow>
          (let (r, s) = sys os (Heap (malloc (word_of_nat (4 * NSIG k)))) s in
           if (word_of_int (rp_ret r) :: addr) = 0 then ((- 1, None), s)
           else ((0, Some (replicate (NSIG k) SIG_DFL)), s))
      | Some _ \<Rightarrow> ((0, funcs), s))"

definition signal ::
  "'w services \<Rightarrow> signo \<Rightarrow> int \<Rightarrow> 'h handler \<Rightarrow> 'h sig_table \<Rightarrow> ('w, 'z) libc_scheme \<Rightarrow>
     ('h handler \<times> 'h sig_table) \<times> ('w, 'z) libc_scheme" where
  "signal os k sig func funcs s =
     (if sig < 0 \<or> sig \<ge> int (NSIG k) then ((SIG_ERR, funcs), set_errno EINVAL s)
      else
        (let ((ret, funcs), s) = (if funcs = None then init_signal os k funcs s else ((0, funcs), s)) in
         if ret \<noteq> 0 then ((SIG_ERR, funcs), s)
         else
           (case funcs of
              None \<Rightarrow> ((SIG_ERR, funcs), s)
            | Some fs \<Rightarrow> ((fs ! nat sig, Some (fs[nat sig := func])), s))))"

text \<open>How a call ends: it returns, it traps, or it asks the platform to end the process.\<close>

datatype kill_result = Kill_returns int | Kill_traps | Kill_exits int

definition kill ::
  "'w services \<Rightarrow> signo \<Rightarrow> int \<Rightarrow> int \<Rightarrow> ('w, 'z) libc_scheme \<Rightarrow> kill_result \<times> ('w, 'z) libc_scheme" where
  "kill os k pid sig s =
     (let (me, s) = sys os (Kernel sceKernelGetProcessId) s in
      if pid \<noteq> rp_ret me then (Kill_returns (- 1), set_errno EPERM s)
      else if sig = SIGINT k \<or> sig = SIGTERM k then (Kill_exits (- sig), snd (sys os (Kernel (sceKernelExitProcess (- sig))) s))
      else if sig = SIGCHLD k \<or> sig = SIGCONT k then (Kill_returns 0, s)
      else (Kill_traps, s))"

definition raise ::
  "'w services \<Rightarrow> signo \<Rightarrow> int \<Rightarrow> ('w, 'z) libc_scheme \<Rightarrow> kill_result \<times> ('w, 'z) libc_scheme" where
  "raise os k sig s = (let (me, s) = sys os (Kernel sceKernelGetProcessId) s in kill os k (rp_ret me) sig s)"

section \<open>Identities, sessions and functions without a counterpart\<close>

definition getuid :: int where "getuid = 1000"
definition geteuid :: int where "geteuid = 1000"
definition getgid :: int where "getgid = 1000"
definition getegid :: int where "getegid = 1000"

definition setuid :: "int \<Rightarrow> ('w, 'z) libc_scheme \<Rightarrow> int \<times> ('w, 'z) libc_scheme" where
  "setuid uid s = (- 1, set_errno ENOSYS s)"
definition seteuid :: "int \<Rightarrow> ('w, 'z) libc_scheme \<Rightarrow> int \<times> ('w, 'z) libc_scheme" where
  "seteuid euid s = (- 1, set_errno ENOSYS s)"
definition setgid :: "int \<Rightarrow> ('w, 'z) libc_scheme \<Rightarrow> int \<times> ('w, 'z) libc_scheme" where
  "setgid gid s = (- 1, set_errno ENOSYS s)"
definition setegid :: "int \<Rightarrow> ('w, 'z) libc_scheme \<Rightarrow> int \<times> ('w, 'z) libc_scheme" where
  "setegid gid s = (- 1, set_errno ENOSYS s)"
definition setreuid :: "int \<Rightarrow> int \<Rightarrow> ('w, 'z) libc_scheme \<Rightarrow> int \<times> ('w, 'z) libc_scheme" where
  "setreuid ruid euid s = (- 1, set_errno ENOSYS s)"
definition setregid :: "int \<Rightarrow> int \<Rightarrow> ('w, 'z) libc_scheme \<Rightarrow> int \<times> ('w, 'z) libc_scheme" where
  "setregid rgid egid s = (- 1, set_errno ENOSYS s)"
definition getgroups :: "int \<Rightarrow> addr \<Rightarrow> ('w, 'z) libc_scheme \<Rightarrow> int \<times> ('w, 'z) libc_scheme" where
  "getgroups n l s = (- 1, set_errno ENOSYS s)"
definition setgroups :: "int \<Rightarrow> addr \<Rightarrow> ('w, 'z) libc_scheme \<Rightarrow> int \<times> ('w, 'z) libc_scheme" where
  "setgroups n l s = (- 1, set_errno ENOSYS s)"
definition initgroups :: "string \<Rightarrow> int \<Rightarrow> ('w, 'z) libc_scheme \<Rightarrow> int \<times> ('w, 'z) libc_scheme" where
  "initgroups user gid s = (- 1, set_errno ENOSYS s)"
definition getsid :: "int \<Rightarrow> ('w, 'z) libc_scheme \<Rightarrow> int \<times> ('w, 'z) libc_scheme" where
  "getsid pid s = (- 1, set_errno ENOSYS s)"
definition setsid :: "('w, 'z) libc_scheme \<Rightarrow> int \<times> ('w, 'z) libc_scheme" where
  "setsid s = (- 1, set_errno ENOSYS s)"
definition setpgid :: "int \<Rightarrow> int \<Rightarrow> ('w, 'z) libc_scheme \<Rightarrow> int \<times> ('w, 'z) libc_scheme" where
  "setpgid pid pgid s = (- 1, set_errno ENOSYS s)"
definition setpgrp :: "('w, 'z) libc_scheme \<Rightarrow> int \<times> ('w, 'z) libc_scheme" where
  "setpgrp s = setpgid 0 0 s"
definition link :: "string \<Rightarrow> string \<Rightarrow> ('w, 'z) libc_scheme \<Rightarrow> int \<times> ('w, 'z) libc_scheme" where
  "link old new s = (- 1, set_errno ENOSYS s)"
definition readlink :: "string \<Rightarrow> addr \<Rightarrow> nat \<Rightarrow> ('w, 'z) libc_scheme \<Rightarrow> int \<times> ('w, 'z) libc_scheme" where
  "readlink path buf n s = (- 1, set_errno ENOSYS s)"
definition chroot :: "string \<Rightarrow> ('w, 'z) libc_scheme \<Rightarrow> int \<times> ('w, 'z) libc_scheme" where
  "chroot path s = (- 1, set_errno ENOSYS s)"
definition sethostname :: "string \<Rightarrow> nat \<Rightarrow> ('w, 'z) libc_scheme \<Rightarrow> int \<times> ('w, 'z) libc_scheme" where
  "sethostname name n s = (- 1, set_errno EPERM s)"

text \<open>The group database: every lookup returns the null pointer; rewinding it does nothing.\<close>

definition setgrent :: "('w, 'z) libc_scheme \<Rightarrow> ('w, 'z) libc_scheme" where "setgrent s = s"
definition endgrent :: "('w, 'z) libc_scheme \<Rightarrow> ('w, 'z) libc_scheme" where "endgrent s = s"
definition getgrent :: "('w, 'z) libc_scheme \<Rightarrow> addr \<times> ('w, 'z) libc_scheme" where
  "getgrent s = (0, set_errno ENOSYS s)"
definition getgrgid :: "int \<Rightarrow> ('w, 'z) libc_scheme \<Rightarrow> addr \<times> ('w, 'z) libc_scheme" where
  "getgrgid gid s = (0, set_errno ENOSYS s)"
definition getgrnam :: "string \<Rightarrow> ('w, 'z) libc_scheme \<Rightarrow> addr \<times> ('w, 'z) libc_scheme" where
  "getgrnam name s = (0, set_errno ENOSYS s)"

definition popen :: "string \<Rightarrow> string \<Rightarrow> ('w, 'z) libc_scheme \<Rightarrow> addr \<times> ('w, 'z) libc_scheme" where
  "popen cmd mode s = (0, set_errno ENOTSUP s)"
definition pclose :: "addr \<Rightarrow> ('w, 'z) libc_scheme \<Rightarrow> int \<times> ('w, 'z) libc_scheme" where
  "pclose f s = (- 1, set_errno ENOTSUP s)"

definition fdatasync ::
  "'w services \<Rightarrow> (int \<Rightarrow> int) \<Rightarrow> int \<Rightarrow> ('w, 'z) fd_state_scheme \<Rightarrow> int \<times> ('w, 'z) fd_state_scheme" where
  "fdatasync os net fd s = fsync os net fd s"

section \<open>Stream positions\<close>

text \<open>A \<open>long\<close> has 32 bits and an \<open>off_t\<close> 64.\<close>

definition fseeko :: "'w services \<Rightarrow> addr \<Rightarrow> 64 word \<Rightarrow> int \<Rightarrow> ('w, 'z) libc_scheme \<Rightarrow> int \<times> ('w, 'z) libc_scheme" where
  "fseeko os f off whence s =
     (let (r, s) = sys os (Stdio (stdio_fseek f (sint (ucast off :: 32 word)) whence)) s in (rp_ret r, s))"

definition ftello :: "'w services \<Rightarrow> addr \<Rightarrow> ('w, 'z) libc_scheme \<Rightarrow> 64 word \<times> ('w, 'z) libc_scheme" where
  "ftello os f s =
     (let (r, s) = sys os (Stdio (stdio_ftell f)) s;
          pos = scast (word_of_int (rp_ret r) :: 32 word) :: 64 word
      in if sint pos > 2 ^ 31 - 1 then (- 1, set_errno EOVERFLOW s) else (pos, s))"

section \<open>Aligned allocation\<close>

definition aligned_alloc ::
  "'w services \<Rightarrow> size_t \<Rightarrow> size_t \<Rightarrow> ('w, 'z) libc_scheme \<Rightarrow> addr \<times> ('w, 'z) libc_scheme" where
  "aligned_alloc os align len s =
     (if align = 0 \<or> align AND (align - 1) \<noteq> 0 then (0, set_errno EINVAL s)
      else
        (let (r, s) = sys os (Heap (memalign align len)) s; p = word_of_int (rp_ret r) in
         if p = 0 then (0, set_errno ENOMEM s) else (p, s)))"

text \<open>The result is the status and what is stored through \<open>res\<close>.\<close>

definition posix_memalign ::
  "'w services \<Rightarrow> size_t \<Rightarrow> size_t \<Rightarrow> ('w, 'z) libc_scheme \<Rightarrow> (int \<times> addr option) \<times> ('w, 'z) libc_scheme" where
  "posix_memalign os align len s =
     (if align < 4 \<or> align AND (align - 1) \<noteq> 0 then ((EINVAL, None), s)
      else
        (let (p, s) = aligned_alloc os align len s in
         if p = 0 then ((ENOMEM, None), s) else ((0, Some p), s)))"

section \<open>What they do\<close>

text \<open>The handler table has an entry for every signal in every state a program can reach by calls of \<open>signal\<close>.\<close>

definition sig_wf :: "signo \<Rightarrow> 'h sig_table \<Rightarrow> bool" where
  "sig_wf k funcs \<longleftrightarrow> (case funcs of None \<Rightarrow> True | Some fs \<Rightarrow> length fs = NSIG k)"

lemma signal_keeps_wf: "sig_wf k funcs \<Longrightarrow> sig_wf k (snd (fst (signal os k sig func funcs s)))"
  by (cases funcs) (auto simp: signal_def init_signal_def sig_wf_def Let_def split: prod.splits)

text \<open>\<open>signal\<close> returns the handler that the last successful call for the same signal installed, and the default at first; a
  call for another signal does not matter.\<close>

definition installed :: "int \<Rightarrow> 'h sig_table \<Rightarrow> 'h handler" where
  "installed sig funcs = (case funcs of None \<Rightarrow> SIG_DFL | Some fs \<Rightarrow> fs ! nat sig)"

lemma signal_success:
  assumes "sig_wf k funcs" "0 \<le> sig" "sig < int (NSIG k)" "signal os k sig func funcs s = ((old, funcs'), s')" "funcs' \<noteq> None"
  shows "old = installed sig funcs" "installed sig funcs' = func"
    "0 \<le> other \<Longrightarrow> other < int (NSIG k) \<Longrightarrow> other \<noteq> sig \<Longrightarrow> installed other funcs' = installed other funcs"
  using assms
  by (cases funcs; auto simp: signal_def init_signal_def sig_wf_def installed_def Let_def nth_list_update split: prod.splits if_splits)+

text \<open>\<open>kill\<close> and \<open>raise\<close> do not consult the table: a handler is never called, and every signal but four ends in a trap.\<close>

lemma raise_ignores_handlers:
  assumes "sig \<notin> {SIGINT k, SIGTERM k, SIGCHLD k, SIGCONT k}" "\<And>w. fst (os (Kernel sceKernelGetProcessId) w) = ret_reply pid"
  shows "fst (raise os k sig s) = Kill_traps"
  using assms(2) [of "world s"] assms(2) [of "snd (os (Kernel sceKernelGetProcessId) (world s))"] assms(1)
  by (simp add: raise_def kill_def sys_def Let_def split: prod.splits) (metis fst_conv ret_reply_simps(1) snd_conv)

text \<open>The comparison with \<open>LONG_MAX\<close> is never true.\<close>

lemma ftello_never_overflows:
  "ftello os f s = (scast (word_of_int (sys_ret os (Stdio (stdio_ftell f)) s) :: 32 word),
     snd (sys os (Stdio (stdio_ftell f)) s))"
proof -
  let ?w = "word_of_int (sys_ret os (Stdio (stdio_ftell f)) s) :: 32 word"
  have "sint (scast ?w :: 64 word) = sint ?w" 
    using sint_lt [of ?w] sint_ge [of ?w] by (simp add: signed_scast_eq signed_take_bit_int_eq_self_iff)
  moreover have "sint ?w < 2 ^ 31" using sint_lt [of ?w] by simp
  ultimately show ?thesis by (auto simp: ftello_def sys_ret_def sys_def Let_def split: prod.splits)
qed

text \<open>The aligned allocators return a block exactly for a power of two and a willing heap, and then what \<open>memalign\<close> gave.\<close>

lemma posix_memalign_refines:
  "posix_memalign os align len s =
     (if 4 \<le> align \<and> align AND (align - 1) = 0 then
        let (r, s) = sys os (Heap (memalign align len)) s in
        if (word_of_int (rp_ret r) :: addr) = 0 then ((ENOMEM, None), set_errno ENOMEM s)
        else ((0, Some (word_of_int (rp_ret r))), s)
      else ((EINVAL, None), s))"
  by (auto simp: posix_memalign_def aligned_alloc_def Let_def not_le not_less split: prod.splits)

end
