(* ===== verification/Path_Resolve.thy ===== *)
theory Path_Resolve
  imports Posix_Prelude "HOL-Library.Char_ord"
begin

text \<open>
  Path resolution, \<open>__get_drive\<close> and \<open>__resolve_path\<close> of \<^verbatim>\<open>src/internal/vitafs.c\<close>. C strings are
  HOL strings without the final zero byte; the array \<open>resolved\<close> is the string it holds, which
  the callers clear first. The source reads \<^verbatim>\<open>resolved[-1]\<close> when \<open>resolved\<close> is empty: that byte of
  the caller's stack is the parameter \<open>below\<close>. The outer \<open>None\<close> is the write through
  \<^verbatim>\<open>strrchr(...) + 1\<close> when there is no slash, which C leaves undefined.

  The theorems show that resolution computes the normal form of a path (\<open>canon\<close>), that it is
  idempotent, and when it fails.
\<close>

definition PATH_MAX :: nat where "PATH_MAX = 1024"

section \<open>Drives\<close>

definition drive_char :: "char \<Rightarrow> bool" where
  "drive_char c \<longleftrightarrow> (CHR ''a'' \<le> c \<and> c \<le> CHR ''z'') \<or> (CHR ''0'' \<le> c \<and> c \<le> CHR ''9'')"

fun drive_scan :: "string \<Rightarrow> nat \<Rightarrow> nat" where
  "drive_scan [] i = 0"
| "drive_scan (c # cs) i =
     (if drive_char c then drive_scan cs (Suc i) else if c = CHR '':'' then Suc i else 0)"

definition get_drive :: "string \<Rightarrow> nat" where
  "get_drive path = drive_scan path 0"

section \<open>Resolution\<close>

text \<open>The state of \<open>resolved\<close> when the function returns, and whether it returned \<open>resolved\<close> or \<open>NULL\<close>.\<close>

datatype resolution = Resolved string | TooLong string

definition ends_in_slash :: "char \<Rightarrow> string \<Rightarrow> bool" where
  "ends_in_slash below r \<longleftrightarrow> (if r = [] then below else last r) = CHR ''/''"

text \<open>\<^verbatim>\<open>q = strrchr(resolved, '/') + 1; *q = '\0'\<close>, after the final slash was cut off.\<close>

fun strrchr_cut :: "string \<Rightarrow> string option" where
  "strrchr_cut r = (if CHR ''/'' \<in> set r then Some (rev (dropWhile (\<lambda>c. c \<noteq> CHR ''/'') (rev r))) else None)"

definition strlcat_path :: "string \<Rightarrow> string \<Rightarrow> string" where
  "strlcat_path r tok = take (PATH_MAX - 1) (r @ tok)"

text \<open>One round of the loop for the component \<open>next_token\<close>: the new \<open>resolved\<close>, or the failing return.\<close>

definition resolve_token :: "char \<Rightarrow> string \<Rightarrow> string \<Rightarrow> resolution option" where
  "resolve_token below next_token resolved =
     (if length next_token \<ge> PATH_MAX then Some (TooLong resolved)
      else if \<not> ends_in_slash below resolved \<and> length resolved + 1 \<ge> PATH_MAX then Some (TooLong resolved)
      else
        (let resolved = (if ends_in_slash below resolved then resolved else resolved @ ''/'') in
         if next_token = [] then Some (Resolved resolved)
         else if next_token = ''.'' then Some (Resolved resolved)
         else if next_token = ''..'' then
           (if length resolved > 1 then map_option Resolved (strrchr_cut (butlast resolved))
            else Some (Resolved resolved))
         else if length resolved + length next_token \<ge> PATH_MAX
           then Some (TooLong (strlcat_path resolved next_token))
         else Some (Resolved (strlcat_path resolved next_token))))"

function resolve_loop :: "char \<Rightarrow> string \<Rightarrow> string \<Rightarrow> resolution option" where
  "resolve_loop below left resolved =
     (let next_token = takeWhile (\<lambda>c. c \<noteq> CHR ''/'') left; rest = dropWhile (\<lambda>c. c \<noteq> CHR ''/'') left in
      case resolve_token below next_token resolved of
        None \<Rightarrow> None
      | Some (TooLong r) \<Rightarrow> Some (TooLong r)
      | Some (Resolved r) \<Rightarrow> if rest = [] then Some (Resolved r) else resolve_loop below (tl rest) r)"
  by pat_completeness auto
termination
proof (relation "measure (\<lambda>(below, left, resolved). length left)")
  fix left rest :: string
  assume r: "rest = dropWhile (\<lambda>c. c \<noteq> CHR ''/'') left" "rest \<noteq> []"
  have "length rest \<le> length left" unfolding r(1) by (rule length_dropWhile_le)
  with r(2) have "length (tl rest) < length left" by (cases rest) auto
  then show "((below, tl rest, r), below, left, resolved) \<in> measure (\<lambda>(below, left, resolved). length left)"
    for below resolved r by simp
qed auto

declare resolve_loop.simps [simp del]

text \<open>The final slash goes, except from the root.\<close>

definition drop_slash :: "string \<Rightarrow> string" where
  "drop_slash r = (if length r > 1 \<and> last r = CHR ''/'' then butlast r else r)"

definition resolve_path :: "char \<Rightarrow> string \<Rightarrow> resolution option" where
  "resolve_path below path =
     (if path = ''/'' then Some (Resolved ''/'')
      else
        (let (resolved, left) =
           (case path of c # cs \<Rightarrow> if c = CHR ''/'' then (''/'', cs) else ([], path) | [] \<Rightarrow> ([], path))
         in if length left \<ge> PATH_MAX then Some (TooLong resolved)
            else if left = [] then Some (Resolved (drop_slash resolved))
            else map_option (\<lambda>r. case r of Resolved r \<Rightarrow> Resolved (drop_slash r) | TooLong r \<Rightarrow> TooLong r)
                   (resolve_loop below left resolved)))"

section \<open>The normal form\<close>

text \<open>Reference: the components of a path and the effect of \<open>.\<close> and \<open>..\<close> on a stack of names.\<close>

fun components :: "string \<Rightarrow> string list" where
  "components [] = [[]]"
| "components (c # cs) =
     (if c = CHR ''/'' then [] # components cs
      else (case components cs of [] \<Rightarrow> [[c]] | t # ts \<Rightarrow> (c # t) # ts))"

definition canon_step :: "string list \<Rightarrow> string \<Rightarrow> string list" where
  "canon_step st t = (if t = [] \<or> t = ''.'' then st else if t = ''..'' then butlast st else st @ [t])"

definition canon :: "string list \<Rightarrow> string list" where
  "canon ts = foldl canon_step [] ts"

text \<open>A stack of names as a path, without and with the final slash.\<close>

definition render :: "string list \<Rightarrow> string" where
  "render st = (if st = [] then ''/'' else concat (map (\<lambda>t. CHR ''/'' # t) st))"

definition name_ok :: "string \<Rightarrow> bool" where
  "name_ok t \<longleftrightarrow> t \<noteq> [] \<and> t \<noteq> ''.'' \<and> t \<noteq> ''..'' \<and> CHR ''/'' \<notin> set t"

definition body :: "string list \<Rightarrow> string" where
  "body st = concat (map (\<lambda>t. CHR ''/'' # t) st)"

lemma body_simps [simp]: "body [] = []" "body (st @ [t]) = body st @ CHR ''/'' # t" "body (t # st) = CHR ''/'' # t @ body st"
  by (simp_all add: body_def)

lemma render_body: "render st = (if st = [] then ''/'' else body st)"
  by (simp add: render_def body_def)

lemma body_last: "st \<noteq> [] \<Longrightarrow> body st = body (butlast st) @ CHR ''/'' # last st"
  by (metis append_butlast_last_id body_simps(2))

text \<open>What \<open>resolved\<close> holds for a stack: the rendered path, with or without a final slash.\<close>

definition holds :: "string list \<Rightarrow> string \<Rightarrow> bool" where
  "holds st r \<longleftrightarrow> (st \<noteq> [] \<and> r = body st) \<or> r = body st @ ''/''"

lemma strrchr_cut_body:
  "CHR ''/'' \<notin> set t \<Longrightarrow> strrchr_cut (r @ CHR ''/'' # t) = Some (r @ ''/'')"
proof -
  assume "CHR ''/'' \<notin> set t"
  then have "dropWhile (\<lambda>c. c \<noteq> CHR ''/'') (rev t @ CHR ''/'' # rev r) = CHR ''/'' # rev r"
    by (subst dropWhile_append2) auto
  then show ?thesis by simp
qed

lemma last_body: "st \<noteq> [] \<Longrightarrow> \<forall>t \<in> set st. name_ok t \<Longrightarrow> last (body st) \<noteq> CHR ''/''"
proof -
  assume a: "st \<noteq> []" "\<forall>t \<in> set st. name_ok t"
  then have "name_ok (last st)" by simp
  then have "last st \<noteq> []" "CHR ''/'' \<notin> set (last st)" by (simp_all add: name_ok_def)
  then have "last (last st) \<noteq> CHR ''/''" using last_in_set by force
  then show ?thesis using \<open>last st \<noteq> []\<close> by (simp add: body_last [OF a(1)])
qed

lemma holds_with_slash:
  assumes "holds st r" "\<forall>t \<in> set st. name_ok t"
  shows "(if ends_in_slash below r then r else r @ ''/'') = body st @ ''/''"
    and "ends_in_slash below r \<or> length r = length (body st)"
proof -
  consider (bare) "st \<noteq> []" "r = body st" | (slash) "r = body st @ ''/''" using assms(1) by (auto simp: holds_def)
  then have "(if ends_in_slash below r then r else r @ ''/'') = body st @ ''/'' \<and>
      (ends_in_slash below r \<or> length r = length (body st))"
  proof cases
    case bare
    moreover have "body st \<noteq> []" using bare(1) by (cases st) auto
    ultimately have "\<not> ends_in_slash below r" using last_body [OF bare(1) assms(2)] by (simp add: ends_in_slash_def)
    then show ?thesis using bare by simp
  qed (simp add: ends_in_slash_def)
  then show "(if ends_in_slash below r then r else r @ ''/'') = body st @ ''/''"
    "ends_in_slash below r \<or> length r = length (body st)" by blast+
qed

lemma resolve_token_step:
  assumes "holds st r" "\<forall>t \<in> set st. name_ok t" "CHR ''/'' \<notin> set tok" "length (body st) + 1 + length tok < PATH_MAX"
  shows "\<exists>r'. resolve_token below tok r = Some (Resolved r') \<and> holds (canon_step st tok) r' \<and>
    (\<forall>t \<in> set (canon_step st tok). name_ok t) \<and> length (body (canon_step st tok)) \<le> length (body st) + 1 + length tok"
proof -
  note sl = holds_with_slash [OF assms(1,2), of below]
  have nt: "resolve_token below tok r =
     (if tok = [] \<or> tok = ''.'' then Some (Resolved (body st @ ''/''))
      else if tok = ''..'' then (if st \<noteq> [] then map_option Resolved (strrchr_cut (body st)) else Some (Resolved ''/''))
      else Some (Resolved (body st @ CHR ''/'' # tok)))"
  proof -
    have "\<not> (\<not> ends_in_slash below r \<and> PATH_MAX \<le> Suc (length r))" using sl(2) assms(4) by auto
    moreover have "strlcat_path (body st @ ''/'') tok = body st @ CHR ''/'' # tok"
      using assms(4) by (simp add: strlcat_path_def)
    moreover have "1 < length (body st @ ''/'') \<longleftrightarrow> st \<noteq> []" by (cases st) auto
    ultimately show ?thesis using assms(4) sl(1) by (auto simp: resolve_token_def Let_def)
  qed
  consider "tok = [] \<or> tok = ''.''" | "tok = ''..''" "st = []" | "tok = ''..''" "st \<noteq> []" | "name_ok tok"
    using assms(3) by (auto simp: name_ok_def)
  then show ?thesis
  proof cases
    case 3
    then have "CHR ''/'' \<notin> set (last st)" using assms(2) by (simp add: name_ok_def)
    then have "strrchr_cut (body st) = Some (body (butlast st) @ ''/'')"
      using strrchr_cut_body [of "last st" "body (butlast st)"] body_last [OF 3(2)] by simp
    then show ?thesis
      using 3 nt assms(2) body_last [OF 3(2)] by (auto simp: canon_step_def holds_def dest: in_set_butlastD)
  next
    case 4
    then show ?thesis using nt assms(2) by (auto simp: canon_step_def holds_def name_ok_def)
  qed (use nt assms(2) in \<open>auto simp: canon_step_def holds_def\<close>)
qed

lemma components_split:
  "components left = takeWhile (\<lambda>c. c \<noteq> CHR ''/'') left #
     (let rest = dropWhile (\<lambda>c. c \<noteq> CHR ''/'') left in if rest = [] then [] else components (tl rest))"
  by (induction left) (auto simp: Let_def)

lemma components_no_slash: "t \<in> set (components s) \<Longrightarrow> CHR ''/'' \<notin> set t"
  by (induction s arbitrary: t) (auto split: if_splits list.splits)

lemma resolve_loop_canon:
  assumes "holds st r" "\<forall>t \<in> set st. name_ok t" "length (body st) + 1 + length left < PATH_MAX"
  shows "\<exists>r'. resolve_loop below left r = Some (Resolved r') \<and> holds (foldl canon_step st (components left)) r' \<and>
    (\<forall>t \<in> set (foldl canon_step st (components left)). name_ok t) \<and>
    length (body (foldl canon_step st (components left))) \<le> length (body st) + 1 + length left"
  using assms
proof (induction below left r arbitrary: st rule: resolve_loop.induct)
  case (1 below left r)
  let ?tok = "takeWhile (\<lambda>c. c \<noteq> CHR ''/'') left" and ?rest = "dropWhile (\<lambda>c. c \<noteq> CHR ''/'') left"
  have len: "length left = length ?tok + length ?rest" by (metis length_append takeWhile_dropWhile_id)
  have ns: "CHR ''/'' \<notin> set ?tok" by (auto dest: set_takeWhileD)
  obtain r1 where t: "resolve_token below ?tok r = Some (Resolved r1)" "holds (canon_step st ?tok) r1"
      "\<forall>t \<in> set (canon_step st ?tok). name_ok t" "length (body (canon_step st ?tok)) \<le> length (body st) + 1 + length ?tok"
    using resolve_token_step [OF 1(2,3) ns, of below] 1(4) len by auto
  show ?case
  proof (cases "?rest = []")
    case True
    then have "resolve_loop below left r = Some (Resolved r1)" using t(1) by (simp add: resolve_loop.simps [of below left])
    moreover have "components left = [?tok]" using True by (simp add: components_split [of left] Let_def)
    ultimately show ?thesis using t len True by simp
  next
    case False
    then have tl: "length ?rest = Suc (length (tl ?rest))" by (cases ?rest) auto
    have "\<exists>r'. resolve_loop below (tl ?rest) r1 = Some (Resolved r') \<and>
        holds (foldl canon_step (canon_step st ?tok) (components (tl ?rest))) r' \<and>
        (\<forall>t \<in> set (foldl canon_step (canon_step st ?tok) (components (tl ?rest))). name_ok t) \<and>
        length (body (foldl canon_step (canon_step st ?tok) (components (tl ?rest)))) \<le>
          length (body (canon_step st ?tok)) + 1 + length (tl ?rest)"
      by (rule 1(1) [OF refl refl t(1) refl False t(2,3)]) (use t(4) 1(4) len tl in linarith)
    then obtain r' where r': "resolve_loop below (tl ?rest) r1 = Some (Resolved r')"
        "holds (foldl canon_step (canon_step st ?tok) (components (tl ?rest))) r'"
        "\<forall>t \<in> set (foldl canon_step (canon_step st ?tok) (components (tl ?rest))). name_ok t"
        "length (body (foldl canon_step (canon_step st ?tok) (components (tl ?rest)))) \<le>
          length (body (canon_step st ?tok)) + 1 + length (tl ?rest)" by blast
    have rl: "resolve_loop below left r = Some (Resolved r')"
      using resolve_loop.simps [of below left r] r'(1) False unfolding Let_def t(1)
      by (simp only: option.case resolution.case if_False)
    have "components left = ?tok # components (tl ?rest)"
      using False by (subst components_split) (simp only: Let_def if_False)
    then have eq: "foldl canon_step st (components left) = foldl canon_step (canon_step st ?tok) (components (tl ?rest))"
      by (simp only: foldl.simps)
    have le: "length (body (canon_step st ?tok)) + 1 + length (tl ?rest) \<le> length (body st) + 1 + length left"
      using t(4) len tl by linarith
    show ?thesis unfolding eq using rl r'(2,3) order_trans [OF r'(4) le] by (intro exI conjI)
  qed
qed

lemma resolve_loop_relative:
  assumes "below \<noteq> CHR ''/''" "length left < PATH_MAX"
  shows "resolve_loop below left [] = resolve_loop below left ''/''"
proof -
  have "length (takeWhile (\<lambda>c. c \<noteq> CHR ''/'') left) < PATH_MAX"
    using assms(2) length_takeWhile_le [of _ left] by (rule order_le_less_trans [rotated])
  then have "resolve_token below (takeWhile (\<lambda>c. c \<noteq> CHR ''/'') left) [] =
      resolve_token below (takeWhile (\<lambda>c. c \<noteq> CHR ''/'') left) ''/''"
    using assms(1) by (simp add: resolve_token_def ends_in_slash_def PATH_MAX_def)
  then show ?thesis by (simp only: resolve_loop.simps [of below left] Let_def)
qed

lemma body_Nil_iff [simp]: "body st = [] \<longleftrightarrow> st = []"
  by (cases st) simp_all

lemma drop_slash_holds: "holds st r \<Longrightarrow> \<forall>t \<in> set st. name_ok t \<Longrightarrow> drop_slash r = render st"
  using last_body [of st] by (cases "st = []") (auto simp: holds_def drop_slash_def render_body)

text \<open>The paths that resolve to their normal form.\<close>

definition resolvable :: "char \<Rightarrow> string \<Rightarrow> bool" where
  "resolvable below path \<longleftrightarrow> path \<noteq> [] \<and>
     (if hd path = CHR ''/'' then length path < PATH_MAX
      else below \<noteq> CHR ''/'' \<and> length path + 1 < PATH_MAX)"

lemma canon_slash: "canon (components (CHR ''/'' # cs)) = canon (components cs)"
  by (simp add: canon_def canon_step_def)

lemma resolve_path_canon:
  assumes "resolvable below path"
  shows "resolve_path below path = Some (Resolved (render (canon (components path))))"
    and "\<forall>t \<in> set (canon (components path)). name_ok t"
    and "length (body (canon (components path))) < PATH_MAX"
proof -
  obtain c cs where p: "path = c # cs" using assms by (cases path) (auto simp: resolvable_def)
  define left where "left = (if c = CHR ''/'' then cs else path)"
  have len: "1 + length left < PATH_MAX" using assms by (auto simp: left_def p resolvable_def split: if_splits)
  have can: "canon (components path) = foldl canon_step [] (components left)"
    using canon_slash by (auto simp: left_def p canon_def)
  obtain r where r: "resolve_loop below left ''/'' = Some (Resolved r)" "holds (canon (components path)) r"
      "\<forall>t \<in> set (canon (components path)). name_ok t" "length (body (canon (components path))) \<le> 1 + length left"
    using resolve_loop_canon [of "[]" "''/''" left below] len unfolding can by (auto simp: holds_def)
  have "resolve_path below path = Some (Resolved (drop_slash r))"
  proof (cases "c = CHR ''/''")
    case True
    show ?thesis
    proof (cases cs)
      case Nil
      with r(1) have "r = ''/''"
        by (simp add: True left_def resolve_loop.simps resolve_token_def ends_in_slash_def PATH_MAX_def)
      with Nil show ?thesis by (simp add: resolve_path_def p True drop_slash_def)
    next
      case (Cons x xs)
      with r(1) len show ?thesis by (simp add: resolve_path_def p True left_def)
    qed
  next
    case False
    then have "below \<noteq> CHR ''/''" using assms by (simp add: resolvable_def p)
    with r(1) len False show ?thesis
      by (simp add: resolve_path_def p left_def resolve_loop_relative)
  qed
  then show "resolve_path below path = Some (Resolved (render (canon (components path))))"
    by (simp add: drop_slash_holds [OF r(2,3)])
  show "\<forall>t \<in> set (canon (components path)). name_ok t" by (rule r(3))
  show "length (body (canon (components path))) < PATH_MAX" using r(4) len by linarith
qed

text \<open>Rendering is a section of splitting, so a normal form is its own normal form.\<close>

lemma components_append: "CHR ''/'' \<notin> set t \<Longrightarrow> components (t @ CHR ''/'' # s) = t # components s"
  by (induction t) auto

lemma components_name: "CHR ''/'' \<notin> set t \<Longrightarrow> components t = [t]"
  by (induction t) auto

lemma components_body: "st \<noteq> [] \<Longrightarrow> \<forall>t \<in> set st. name_ok t \<Longrightarrow> components (body st) = [] # st"
proof (induction st)
  case (Cons t st)
  then have t: "CHR ''/'' \<notin> set t" by (simp add: name_ok_def)
  show ?case
  proof (cases st)
    case Nil
    then show ?thesis using t by (simp add: components_name)
  next
    case (Cons u us)
    then have "components (t @ body st) = t # st"
      using Cons.IH Cons.prems components_append [OF t, of "u @ body us"] by simp
    then show ?thesis by simp
  qed
qed simp

lemma canon_names: "\<forall>t \<in> set st. name_ok t \<Longrightarrow> foldl canon_step acc st = acc @ st"
  by (induction st arbitrary: acc) (simp_all add: canon_step_def name_ok_def)

lemma canon_render: "\<forall>t \<in> set st. name_ok t \<Longrightarrow> canon (components (render st)) = st"
  using components_body [of st] canon_names [of st "[]"]
  by (cases "st = []") (simp_all add: render_body canon_def canon_step_def)

lemma render_resolvable: "length (body st) < PATH_MAX \<Longrightarrow> resolvable below (render st)"
  by (cases st) (simp_all add: render_body resolvable_def PATH_MAX_def)

section \<open>Results\<close>

text \<open>C27 (equivalence): on every absolute path shorter than \<open>PATH_MAX\<close>, and on every relative path that
  leaves room for the slash \<open>__resolve_path\<close> puts in front (when the byte below the array is not a
  slash), the result is the normal form of the path: its components with empty ones and dots dropped
  and each dot-dot removing the name before it, never going above the root. The normal form holds
  only proper names, and resolving it again gives it back.\<close>
theorem resolve_path_normal_form:
  assumes "resolvable below path"
  shows "resolve_path below path = Some (Resolved (render (canon (components path)))) \<and>
    (\<forall>t \<in> set (canon (components path)). name_ok t) \<and>
    resolve_path below' (render (canon (components path))) = Some (Resolved (render (canon (components path))))"
proof -
  note c = resolve_path_canon [OF assms]
  have "resolve_path below' (render (canon (components path))) =
      Some (Resolved (render (canon (components (render (canon (components path)))))))"
    by (rule resolve_path_canon(1) [OF render_resolvable [OF c(3)]])
  then show ?thesis using c by (simp add: canon_render)
qed

theorem resolve_path_normal_form_witness:
  "resolvable (CHR ''x'') ''data/./a/../b//c/'' \<and>
   resolve_path (CHR ''x'') ''data/./a/../b//c/'' = Some (Resolved ''/data/b/c'')"
proof -
  have r: "resolvable (CHR ''x'') ''data/./a/../b//c/''" by (simp add: resolvable_def PATH_MAX_def)
  have "render (canon (components ''data/./a/../b//c/'')) = ''/data/b/c''"
    by (simp add: canon_def canon_step_def render_def)
  then show ?thesis using resolve_path_normal_form [OF r] r by simp
qed

text \<open>The failing cases: a path that does not fit leaves only the leading slash in \<open>resolved\<close>.\<close>

lemma resolve_path_too_long:
  "length (if path \<noteq> [] \<and> hd path = CHR ''/'' then tl path else path) \<ge> PATH_MAX \<Longrightarrow>
   resolve_path below path = Some (TooLong (if path \<noteq> [] \<and> hd path = CHR ''/'' then ''/'' else []))"
  by (cases path) (auto simp: resolve_path_def PATH_MAX_def)

end
