(* ===== verification/Vita_Fs.thy ===== *)
theory Vita_Fs
  imports Path_Resolve Unistd_Fd
begin

text \<open>
  \<^verbatim>\<open>src/internal/vitafs.c\<close>: the working directory, \<open>__realpath\<close> (which every function that takes a
  path calls), \<open>__is_dir\<close>, and the translation of open flags and of stat results. The state adds
  the array \<open>__cwd\<close>. A path is \<open>string option\<close>, \<open>None\<close> for a null pointer; the result of
  \<open>__realpath\<close> is the address of the heap block with the string it holds. The outer \<open>None\<close> of a result is
  behaviour C leaves undefined: the write past \<open>full_path\<close> and the null dereference in resolution.
\<close>

record 'w fs_state = "'w fd_state" +
  cwd :: string

type_synonym 'x may = "'x option"

text \<open>A string with its final zero byte stored at an address (\<open>strcpy\<close>).\<close>

definition cstring :: "string \<Rightarrow> byte list" where
  "cstring t = map of_char t @ [0]"

definition store_string :: "addr \<Rightarrow> string \<Rightarrow> ('w, 'z) libc_scheme \<Rightarrow> ('w, 'z) libc_scheme" where
  "store_string p t s = set_mem (mem_store p (cstring t) (mem s)) s"

definition heap_free :: "'w services \<Rightarrow> addr \<Rightarrow> ('w, 'z) libc_scheme \<Rightarrow> ('w, 'z) libc_scheme" where
  "heap_free os p s = snd (sys os (Heap (free p)) s)"

section \<open>The working directory\<close>

definition init_cwd :: "('w, 'z) fs_state_scheme \<Rightarrow> ('w, 'z) fs_state_scheme" where
  "init_cwd s = (if length (cwd s) = 0 then s\<lparr>cwd := ''app0:''\<rparr> else s)"

section \<open>Full paths\<close>

text \<open>
  The part the three branches of \<open>__realpath\<close> share: resolve \<open>left\<close>, put the first \<open>d\<close> characters of
  \<open>src\<close> in front and store the string in the block \<open>p\<close>. The result of \<open>__resolve_path\<close> is not
  looked at: on failure the branches use what it left in \<open>resolved\<close>.
\<close>

definition left_in_resolved :: "resolution \<Rightarrow> string" where
  "left_in_resolved r = (case r of Resolved x \<Rightarrow> x | TooLong x \<Rightarrow> x)"

definition realpath_place ::
  "'w services \<Rightarrow> char \<Rightarrow> string \<Rightarrow> nat \<Rightarrow> string \<Rightarrow> addr \<Rightarrow> ('w, 'z) fs_state_scheme \<Rightarrow>
     ((addr \<times> string) option \<times> ('w, 'z) fs_state_scheme) may" where
  "realpath_place os below src d left p s =
     (case resolve_path below left of
        None \<Rightarrow> None
      | Some r \<Rightarrow>
          (let s = (case r of Resolved x \<Rightarrow> s | TooLong x \<Rightarrow> set_errno ENAMETOOLONG s);
               resolved = left_in_resolved r;
               result = take d src @ resolved
           in if length resolved + d < PATH_MAX then Some (Some (p, result), store_string p result s)
              else Some (None, heap_free os p (set_errno ENAMETOOLONG s))))"

definition realpath ::
  "'w services \<Rightarrow> char \<Rightarrow> string option \<Rightarrow> ('w, 'z) fs_state_scheme \<Rightarrow>
     ((addr \<times> string) option \<times> ('w, 'z) fs_state_scheme) may" where
  "realpath os below path s =
     (case path of
        None \<Rightarrow> Some (None, set_errno EINVAL s)
      | Some path \<Rightarrow>
          if length path = 0 then Some (None, set_errno ENOENT s)
          else
            (let (r, s) = sys os (Heap (calloc (of_nat PATH_MAX) 1)) s; p = word_of_int (rp_ret r) in
             if p = 0 then Some (None, set_errno ENOMEM s)
             else
               (let d = get_drive path in
                if d \<noteq> 0 then realpath_place os below path d (drop d path) p s
                else if hd path = CHR ''/'' then
                  (let s = init_cwd s in realpath_place os below (cwd s) (get_drive (cwd s)) path p s)
                else
                  (let s = init_cwd s; full_path = cwd s @ ''/'' @ path; d = get_drive full_path in
                   if length (cwd s) + length path < PATH_MAX then
                     if length full_path \<ge> PATH_MAX then None
                     else realpath_place os below full_path d (drop d full_path) p s
                   else Some (None, heap_free os p (set_errno ENAMETOOLONG s))))))"

text \<open>How the functions that take a path use it: \<open>null\<close> when there is no full path.\<close>

definition with_path ::
  "'w services \<Rightarrow> char \<Rightarrow> string option \<Rightarrow> 'r \<Rightarrow>
     (addr \<Rightarrow> string \<Rightarrow> ('w, 'z) fs_state_scheme \<Rightarrow> 'r \<times> ('w, 'z) fs_state_scheme) \<Rightarrow>
     ('w, 'z) fs_state_scheme \<Rightarrow> ('r \<times> ('w, 'z) fs_state_scheme) may" where
  "with_path os below path null work s =
     (case realpath os below path s of
        None \<Rightarrow> None
      | Some (None, s) \<Rightarrow> Some (null, s)
      | Some (Some (p, full_path), s) \<Rightarrow> Some (work p full_path s))"

section \<open>Stat and flags\<close>

definition zero_stat :: SceFiosStat where
  "zero_stat = \<lparr>fios_size = 0, fios_atime = 0, fios_mtime = 0, fios_ctime = 0, fios_statFlags = 0,
     fios_reserved = 0, fios_uid = 0, fios_gid = 0, fios_dev = 0, fios_ino = 0, fios_mode = 0\<rparr>"

text \<open>The structure after the call: the fields the service stored, in order.\<close>

definition stat_out :: "reply \<Rightarrow> SceFiosStat" where
  "stat_out r = \<lparr>fios_size = outp r 0 0, fios_atime = outp r 1 0, fios_mtime = outp r 2 0,
     fios_ctime = outp r 3 0, fios_statFlags = outp r 4 0, fios_reserved = outp r 5 0, fios_uid = outp r 6 0,
     fios_gid = outp r 7 0, fios_dev = outp r 8 0, fios_ino = outp r 9 0, fios_mode = outp r 10 0\<rparr>"

definition is_dir ::
  "'w services \<Rightarrow> sdk \<Rightarrow> string \<Rightarrow> ('w, 'z) libc_scheme \<Rightarrow> int \<times> ('w, 'z) libc_scheme" where
  "is_dir os k path s =
     (let (r, s) = sys os (Fios (sceFiosStatSync path)) s; ret = rp_ret r in
      if ret < 0 then (ret, s)
      else if \<not> SCE_S_ISDIR k (fios_mode (stat_out r)) then (make_sce_errno ENOTDIR, s)
      else (0, s))"

abbreviation (input) O_RDONLY :: int where "O_RDONLY \<equiv> 0"
abbreviation (input) O_WRONLY :: int where "O_WRONLY \<equiv> 1"
abbreviation (input) O_RDWR :: int where "O_RDWR \<equiv> 2"
abbreviation (input) O_APPEND :: int where "O_APPEND \<equiv> 0x0008"
abbreviation (input) O_CREAT :: int where "O_CREAT \<equiv> 0x0200"
abbreviation (input) O_TRUNC :: int where "O_TRUNC \<equiv> 0x0400"
abbreviation (input) O_EXCL :: int where "O_EXCL \<equiv> 0x0800"
abbreviation (input) O_NONBLOCK :: int where "O_NONBLOCK \<equiv> 0x4000"
abbreviation (input) O_DIRECTORY :: int where "O_DIRECTORY \<equiv> 0x200000"

abbreviation (input) SCE_FIOS_O_RDONLY :: int where "SCE_FIOS_O_RDONLY \<equiv> 1"
abbreviation (input) SCE_FIOS_O_WRONLY :: int where "SCE_FIOS_O_WRONLY \<equiv> 2"
abbreviation (input) SCE_FIOS_O_RDWR :: int where "SCE_FIOS_O_RDWR \<equiv> 3"
abbreviation (input) SCE_FIOS_O_APPEND :: int where "SCE_FIOS_O_APPEND \<equiv> 4"
abbreviation (input) SCE_FIOS_O_CREAT :: int where "SCE_FIOS_O_CREAT \<equiv> 8"
abbreviation (input) SCE_FIOS_O_TRUNC :: int where "SCE_FIOS_O_TRUNC \<equiv> 16"

definition flag_if :: "bool \<Rightarrow> int \<Rightarrow> int" where
  "flag_if c b = (if c then b else 0)"

definition fcntl2sony :: "sdk \<Rightarrow> int \<Rightarrow> int" where
  "fcntl2sony k flags =
     (let out = (if flags AND O_RDWR \<noteq> 0 then SCE_FIOS_O_RDWR
                 else if flags AND O_WRONLY \<noteq> 0 then SCE_FIOS_O_WRONLY
                 else SCE_FIOS_O_RDONLY);
          out = out OR flag_if (flags AND O_NONBLOCK \<noteq> 0) (SCE_O_NBLOCK k);
          out = out OR flag_if (flags AND O_APPEND \<noteq> 0) SCE_FIOS_O_APPEND;
          out = out OR flag_if (flags AND O_CREAT \<noteq> 0) SCE_FIOS_O_CREAT;
          out = out OR flag_if (flags AND O_TRUNC \<noteq> 0) SCE_FIOS_O_TRUNC
      in out OR flag_if (flags AND O_EXCL \<noteq> 0) (SCE_O_EXCL k))"

text \<open>The fields of \<^verbatim>\<open>struct stat\<close> that the code sets; the others are cleared.\<close>

record stat =
  st_size :: int
  st_mode :: int
  st_atime :: int
  st_mtime :: int
  st_ctime :: int

abbreviation (input) S_IFREG :: int where "S_IFREG \<equiv> 0x8000"
abbreviation (input) S_IFDIR :: int where "S_IFDIR \<equiv> 0x4000"
abbreviation (input) S_IWRITE :: int where "S_IWRITE \<equiv> 0x80"

text \<open>
  A platform date to a time: two calls. \<open>aux\<close> is the date the previous conversion left, which stays when
  the first call does not store one.
\<close>

definition date_to_time ::
  "'w services \<Rightarrow> int \<Rightarrow> int list \<Rightarrow> ('w, 'z) libc_scheme \<Rightarrow> (int \<times> int list) \<times> ('w, 'z) libc_scheme" where
  "date_to_time os date aux s =
     (let (r, s) = sys os (Fios (sceFiosDateToSceDateTime date)) s;
          aux = map (\<lambda>i. outp r i (aux ! i)) [0..<7];
          (t, s) = sys os (Rtc (sceRtcGetTime_t aux)) s
      in ((outp t 0 0, aux), s))"

definition scestat_to_stat ::
  "'w services \<Rightarrow> sdk \<Rightarrow> SceFiosStat \<Rightarrow> ('w, 'z) libc_scheme \<Rightarrow> stat \<times> ('w, 'z) libc_scheme" where
  "scestat_to_stat os k i s =
     (let mode = flag_if (SCE_S_ISREG k (fios_mode i)) S_IFREG OR flag_if (SCE_S_ISDIR k (fios_mode i)) S_IFDIR;
          ((a, aux), s) = date_to_time os (fios_atime i) (replicate 7 0) s;
          ((m, aux), s) = date_to_time os (fios_mtime i) aux s;
          ((c, aux), s) = date_to_time os (fios_ctime i) aux s
      in (\<lparr>st_size = cint (fios_size i), st_mode = mode, st_atime = a, st_mtime = m, st_ctime = c\<rparr>, s))"

section \<open>Frames\<close>

lemma fs_simps [simp]:
  "cwd (snd (sys os c s)) = cwd s" "cwd (set_errno e s) = cwd s" "cwd (store_string p t s) = cwd s"
  "cwd (heap_free os p s) = cwd s" "cwd (set_mem m s) = cwd s"
  by (simp_all add: sys_def set_errno_def store_string_def heap_free_def set_mem_def split: prod.splits)

lemma more_fs_simps [simp]:
  "libc.more (store_string p t s) = libc.more s" "libc.more (heap_free os p s) = libc.more s"
  "libc.more (snd (is_dir os k path s)) = libc.more s"
  "libc.more (snd (date_to_time os d aux s)) = libc.more s"
  "libc.more (snd (scestat_to_stat os k i s)) = libc.more s"
  by (simp_all add: store_string_def heap_free_def set_mem_def is_dir_def date_to_time_def scestat_to_stat_def
      Let_def case_prod_beta)

lemma errno_heap_free [simp]: "errno (heap_free os p s) = errno s" "errno (store_string p t s) = errno s"
  by (simp_all add: heap_free_def store_string_def set_mem_def)

section \<open>Drives\<close>

lemma drive_scan_Suc: "drive_scan xs (Suc i) = (if drive_scan xs i = 0 then 0 else Suc (drive_scan xs i))"
  by (induction xs arbitrary: i) auto

lemma drive_scan_append:
  "drive_scan xs i \<noteq> 0 \<Longrightarrow> drive_scan (xs @ ys) i = drive_scan xs i"
  by (induction xs arbitrary: i) (auto split: if_splits)

lemma get_drive_append: "get_drive xs \<noteq> 0 \<Longrightarrow> get_drive (xs @ ys) = get_drive xs"
  by (simp add: get_drive_def drive_scan_append)

lemma drive_scan_take: "drive_scan xs 0 = d \<Longrightarrow> d \<noteq> 0 \<Longrightarrow> drive_scan (take d xs) 0 = d \<and> d \<le> length xs"
proof (induction xs arbitrary: d)
  case (Cons c cs)
  show ?case
  proof (cases "drive_char c")
    case True
    then obtain e where e: "drive_scan cs 0 = e" "e \<noteq> 0" "d = Suc e"
      using Cons.prems by (auto simp: drive_scan_Suc split: if_splits)
    then show ?thesis using Cons.IH [OF e(1,2)] True by (simp add: drive_scan_Suc)
  next
    case False
    then show ?thesis using Cons.prems by (auto split: if_splits)
  qed
qed simp

lemma get_drive_take:
  assumes "get_drive p \<noteq> 0"
  shows "get_drive (take (get_drive p) p @ x) = get_drive p" and "get_drive p \<le> length p"
  using drive_scan_take [of p "get_drive p"] assms get_drive_append [of "take (get_drive p) p" x]
  by (simp_all add: get_drive_def)

lemma get_drive_slash [simp]: "get_drive (CHR ''/'' # x) = 0" "get_drive [] = 0"
  by (simp_all add: get_drive_def drive_char_def less_eq_char_def)

section \<open>What \<open>__realpath\<close> computes\<close>

text \<open>The working directory after \<open>__init_cwd\<close>, and the drive and the rest of a path read in it.\<close>

definition effective_cwd :: "string \<Rightarrow> string" where
  "effective_cwd c = (if c = [] then ''app0:'' else c)"

definition path_split :: "string \<Rightarrow> string \<Rightarrow> string \<times> string" where
  "path_split c path =
     (let cut = (\<lambda>p. (take (get_drive p) p, drop (get_drive p) p)) in
      if get_drive path \<noteq> 0 then cut path
      else if hd path = CHR ''/'' then (take (get_drive c) c, path)
      else cut (c @ ''/'' @ path))"

definition normal_left :: "string \<Rightarrow> string" where
  "normal_left left = (if left = [] then [] else render (canon (components left)))"

definition full_name :: "string \<Rightarrow> string \<Rightarrow> string" where
  "full_name c path =
     (let (drive, left) = path_split c path in drive @ normal_left left)"

text \<open>The working directories the code can set: with a drive, and fitting the array.\<close>

definition cwd_wf :: "string \<Rightarrow> bool" where
  "cwd_wf c \<longleftrightarrow> length c < PATH_MAX \<and> (c = [] \<or> get_drive c \<noteq> 0)"

lemma effective_cwd_wf: "cwd_wf c \<Longrightarrow> get_drive (effective_cwd c) \<noteq> 0 \<and> length (effective_cwd c) < PATH_MAX"
  by (auto simp: cwd_wf_def effective_cwd_def PATH_MAX_def get_drive_def drive_char_def less_eq_char_def)

lemma init_cwd_cwd [simp]: "cwd (init_cwd s) = effective_cwd (cwd s)"
  by (simp add: init_cwd_def effective_cwd_def)

lemma init_cwd_frame [simp]:
  "errno (init_cwd s) = errno s" "mem (init_cwd s) = mem s" "world (init_cwd s) = world s"
  "fdmap (init_cwd s) = fdmap s" "fdmap_pool (init_cwd s) = fdmap_pool s" "fd_mutex (init_cwd s) = fd_mutex s"
  by (simp_all add: init_cwd_def)

lemma resolve_path_Nil: "resolve_path below [] = Some (Resolved [])"
  by (simp add: resolve_path_def PATH_MAX_def drop_slash_def)

text \<open>A path short enough to be placed: everything \<open>__realpath\<close> needs of the path.\<close>

definition placeable :: "char \<Rightarrow> string \<Rightarrow> string \<Rightarrow> bool" where
  "placeable below c path \<longleftrightarrow> path \<noteq> [] \<and>
     (let (drive, left) = path_split c path in left = [] \<or> resolvable below left) \<and>
     (get_drive path = 0 \<and> hd path \<noteq> CHR ''/'' \<longrightarrow> length c + length path + 1 < PATH_MAX) \<and>
     length (full_name c path) < PATH_MAX"

lemma place_normal:
  assumes "left = [] \<or> resolvable below left" "length (take d src @ normal_left left) < PATH_MAX" "d \<le> length src"
  shows "realpath_place os below src d left p s =
    Some (Some (p, take d src @ normal_left left), store_string p (take d src @ normal_left left) s)"
proof -
  have "resolve_path below left = Some (Resolved (normal_left left))"
    using assms(1) resolve_path_canon(1) [of below left] resolve_path_Nil by (auto simp: normal_left_def)
  then show ?thesis using assms(2,3)
    by (simp add: realpath_place_def left_in_resolved_def min.absorb2 Let_def)
qed

text \<open>The address the allocator gives for a full path.\<close>

definition path_block :: "'w services \<Rightarrow> ('w, 'z) libc_scheme \<Rightarrow> addr" where
  "path_block os s = word_of_int (sys_ret os (Heap (calloc (of_nat PATH_MAX) 1)) s)"

lemma realpath_normal:
  assumes "cwd_wf (cwd s)" "placeable below (effective_cwd (cwd s)) path" "path_block os s \<noteq> 0"
  shows "\<exists>s'. realpath os below (Some path) s =
      Some (Some (path_block os s, full_name (effective_cwd (cwd s)) path),
        store_string (path_block os s) (full_name (effective_cwd (cwd s)) path) s') \<and>
    errno s' = errno s \<and> cwd s' = (if get_drive path = 0 then effective_cwd (cwd s) else cwd s) \<and>
    fdmap s' = fdmap s \<and> fdmap_pool s' = fdmap_pool s \<and> fd_mutex s' = fd_mutex s"
proof -
  let ?c = "effective_cwd (cwd s)"
  let ?n = "full_name ?c path"
  define s1 where "s1 = snd (sys os (Heap (calloc (of_nat PATH_MAX) 1)) s)"
  have s1: "errno s1 = errno s" "cwd s1 = cwd s" "fdmap s1 = fdmap s" "fdmap_pool s1 = fdmap_pool s" "fd_mutex s1 = fd_mutex s"
    using more_fdmap [of s1 s] by (simp_all add: s1_def)
  note c = effective_cwd_wf [OF assms(1)]
  have ne: "path \<noteq> []" and left: "case path_split (effective_cwd (cwd s)) path of (drive, left) \<Rightarrow> left = [] \<or> resolvable below left"
    and rel: "get_drive path = 0 \<Longrightarrow> hd path \<noteq> CHR ''/'' \<Longrightarrow> length (effective_cwd (cwd s)) + length path + 1 < PATH_MAX"
    and len: "length (full_name (effective_cwd (cwd s)) path) < PATH_MAX"
    using assms(2) by (auto simp: placeable_def Let_def)
  have real: "realpath os below (Some path) s =
     (let p = path_block os s; d = get_drive path in
      if d \<noteq> 0 then realpath_place os below path d (drop d path) p s1
      else if hd path = CHR ''/'' then
        realpath_place os below (effective_cwd (cwd s)) (get_drive (effective_cwd (cwd s))) path p (init_cwd s1)
      else
        (let full_path = effective_cwd (cwd s) @ ''/'' @ path; d = get_drive full_path
         in realpath_place os below full_path d (drop d full_path) p (init_cwd s1)))"
    using ne assms(3) rel
    by (auto simp: realpath_def path_block_def sys_ret_def s1_def Let_def case_prod_beta s1 fst_sys_world)
  consider (drive) "get_drive path \<noteq> 0" | (root) "get_drive path = 0" "hd path = CHR ''/''"
    | (relative) "get_drive path = 0" "hd path \<noteq> CHR ''/''" by blast
  then show ?thesis
  proof cases
    case drive
    have "realpath os below (Some path) s =
        realpath_place os below path (get_drive path) (drop (get_drive path) path) (path_block os s) s1"
      using drive by (simp add: real Let_def)
    also have "\<dots> = Some (Some (path_block os s, ?n), store_string (path_block os s) ?n s1)"
      unfolding full_name_def using drive left len get_drive_take(2) [OF drive]
      by (simp add: path_split_def Let_def full_name_def) (rule place_normal; simp)
    finally show ?thesis using s1 drive by auto
  next
    case root
    have "realpath os below (Some path) s =
        realpath_place os below ?c (get_drive ?c) path (path_block os s) (init_cwd s1)"
      using root by (simp add: real Let_def)
    also have "\<dots> = Some (Some (path_block os s, ?n), store_string (path_block os s) ?n (init_cwd s1))"
      unfolding full_name_def using root left len get_drive_take(2) [of ?c] c
      by (simp add: path_split_def Let_def full_name_def) (rule place_normal; simp)
    finally show ?thesis using s1 root by auto
  next
    case relative
    let ?f = "?c @ ''/'' @ path"
    have d: "get_drive ?f \<noteq> 0" using c get_drive_append by metis
    have "realpath os below (Some path) s =
        realpath_place os below ?f (get_drive ?f) (drop (get_drive ?f) ?f) (path_block os s) (init_cwd s1)"
      using relative by (simp add: real Let_def)
    also have "\<dots> = Some (Some (path_block os s, ?n), store_string (path_block os s) ?n (init_cwd s1))"
      unfolding full_name_def using relative left len get_drive_take(2) [OF d]
      by (simp add: path_split_def Let_def full_name_def del: take_append drop_append) (rule place_normal; simp del: take_append drop_append)
    finally show ?thesis using s1 relative by auto
  qed
qed

section \<open>Full names are fixed points\<close>

lemma canon_step_names:
  "\<forall>t \<in> set st. name_ok t \<Longrightarrow> CHR ''/'' \<notin> set t \<Longrightarrow> \<forall>t \<in> set (canon_step st t). name_ok t"
  by (auto simp: canon_step_def name_ok_def dest: in_set_butlastD)

lemma canon_fold_names:
  "\<forall>t \<in> set st. name_ok t \<Longrightarrow> \<forall>t \<in> set ts. CHR ''/'' \<notin> set t \<Longrightarrow> \<forall>t \<in> set (foldl canon_step st ts). name_ok t"
proof (induction ts arbitrary: st)
  case (Cons t ts)
  then have "\<forall>t \<in> set (canon_step st t). name_ok t" by (intro canon_step_names) simp_all
  then show ?case using Cons by simp
qed simp

lemma canon_names_ok: "\<forall>t \<in> set (canon (components path)). name_ok t"
  unfolding canon_def by (rule canon_fold_names) (auto dest: components_no_slash)

lemma normal_left_idem: "normal_left (normal_left left) = normal_left left"
proof (cases "left = []")
  case False
  moreover have "render st \<noteq> []" for st by (simp add: render_body)
  ultimately show ?thesis by (simp add: normal_left_def canon_render [OF canon_names_ok])
qed (simp add: normal_left_def)

lemma path_split_drive:
  assumes "get_drive c \<noteq> 0" "path_split c path = (drive, left)"
  shows "get_drive (drive @ x) = length drive" "length drive \<noteq> 0"
proof -
  have *: "get_drive (take (get_drive q) q @ x) = length (take (get_drive q) q) \<and> length (take (get_drive q) q) \<noteq> 0"
    if "get_drive q \<noteq> 0" for q
    using get_drive_take(1) [OF that, of x] get_drive_take(2) [OF that] that by (cases q) auto
  have "get_drive (c @ ''/'' @ path) \<noteq> 0" using assms(1) get_drive_append by metis
  then show "get_drive (drive @ x) = length drive" "length drive \<noteq> 0"
    using assms * [of path] * [of c] * [of "c @ ''/'' @ path"] by (auto simp: path_split_def Let_def split: if_splits)
qed

lemma full_name_drive: "get_drive c \<noteq> 0 \<Longrightarrow> get_drive (full_name c path) \<noteq> 0"
  using path_split_drive(1) [of c path _ _ "normal_left (snd (path_split c path))"] path_split_drive(2) [of c path]
  by (cases "path_split c path") (simp add: full_name_def)

lemma full_name_idem:
  assumes "get_drive c \<noteq> 0"
  shows "full_name c' (full_name c path) = full_name c path"
proof -
  obtain drive left where sp: "path_split c path = (drive, left)" by (cases "path_split c path")
  have "get_drive (drive @ normal_left left) = length drive" "length drive \<noteq> 0"
    by (rule path_split_drive [OF assms sp])+
  then have "path_split c' (drive @ normal_left left) = (drive, normal_left left)"
    by (simp add: path_split_def Let_def)
  then show ?thesis by (simp add: full_name_def sp normal_left_idem)
qed

section \<open>What \<open>__realpath\<close> keeps\<close>

text \<open>The parts of the state that no path operation but \<open>chdir\<close> and \<open>open\<close> may change.\<close>

definition fs_frame :: "('w, 'z) fs_state_scheme \<Rightarrow> ('w, 'z) fs_state_scheme \<Rightarrow> bool" where
  "fs_frame s s' \<longleftrightarrow> libc.more s' = libc.more s \<or> libc.more s' = libc.more (init_cwd s)"

lemma more_init_cwd: "libc.more s' = libc.more s \<Longrightarrow> libc.more (init_cwd s') = libc.more (init_cwd s)"
  by (cases s, cases s') (simp add: init_cwd_def)

lemma fs_frame_trans: "fs_frame s s' \<Longrightarrow> libc.more s'' = libc.more s' \<Longrightarrow> fs_frame s s''"
  by (auto simp: fs_frame_def)

lemma more_cwd: "libc.more s' = libc.more s \<Longrightarrow> cwd s' = cwd s"
  by (cases s, cases s') simp

lemma fs_frameD:
  assumes "fs_frame s s'"
  shows "fdmap s' = fdmap s" "fdmap_pool s' = fdmap_pool s" "fd_mutex s' = fd_mutex s"
    "cwd s' = cwd s \<or> cwd s' = effective_cwd (cwd s)"
  using assms more_fdmap [of s' s] more_fdmap [of s' "init_cwd s"] more_cwd [of s' s] more_cwd [of s' "init_cwd s"]
  by (auto simp: fs_frame_def)

lemma effective_cwd_ok: "cwd_wf c \<Longrightarrow> cwd_wf (effective_cwd c)"
  using effective_cwd_wf by (simp add: cwd_wf_def)

lemma fs_frame_cwd_wf: "fs_frame s s' \<Longrightarrow> cwd_wf (cwd s) \<Longrightarrow> cwd_wf (cwd s')"
  using fs_frameD(4) [of s s'] effective_cwd_ok by auto

lemma place_keeps:
  assumes "realpath_place os below src d left p s = Some (r, s')"
  shows "libc.more s' = libc.more s"
    and "r = Some (q, n) \<Longrightarrow> q = p \<and> length n < PATH_MAX \<and> (\<exists>x. n = take d src @ x)"
  using assms
  by (auto simp: realpath_place_def Let_def split: option.splits resolution.splits if_splits)

lemma realpath_keeps:
  assumes "realpath os below path s = Some (r, s')"
  shows "fs_frame s s'"
    and "cwd_wf (cwd s) \<Longrightarrow> r = Some (q, n) \<Longrightarrow> length n < PATH_MAX \<and> get_drive n \<noteq> 0"
proof -
  define s1 where "s1 = snd (sys os (Heap (calloc (of_nat PATH_MAX) 1)) s)"
  have s1: "libc.more s1 = libc.more s" "libc.more (init_cwd s1) = libc.more (init_cwd s)" "cwd s1 = cwd s"
    unfolding s1_def by (simp, rule more_init_cwd, simp_all)
  have "fs_frame s s' \<and> (\<forall>q n. cwd_wf (cwd s) \<longrightarrow> r = Some (q, n) \<longrightarrow> length n < PATH_MAX \<and> get_drive n \<noteq> 0)"
    if "realpath_place os below src d left p s2 = Some (r, s')" "d = get_drive src" "cwd_wf (cwd s) \<longrightarrow> d \<noteq> 0"
      "libc.more s2 = libc.more s \<or> libc.more s2 = libc.more (init_cwd s)" for src d left p s2
  proof -
    note k = place_keeps [OF that(1)]
    have "fs_frame s s'" using k(1) that(4) by (auto simp: fs_frame_def)
    moreover have "length n < PATH_MAX \<and> get_drive n \<noteq> 0" if w: "cwd_wf (cwd s)" "r = Some (q, n)" for q n
    proof -
      obtain x where x: "n = take (get_drive src) src @ x" "length n < PATH_MAX"
        using k(2) [OF w(2)] \<open>d = get_drive src\<close> by auto
      moreover have "get_drive src \<noteq> 0" using w(1) \<open>cwd_wf (cwd s) \<longrightarrow> d \<noteq> 0\<close> \<open>d = get_drive src\<close> by simp
      ultimately show ?thesis using get_drive_take(1) [of src x] by simp
    qed
    ultimately show ?thesis by blast
  qed
  note place = this
  have cd: "cwd_wf (cwd s) \<longrightarrow> get_drive (effective_cwd (cwd s)) \<noteq> 0"
      "cwd_wf (cwd s) \<longrightarrow> get_drive (effective_cwd (cwd s) @ ''/'' @ x) \<noteq> 0" for x
    using effective_cwd_wf [of "cwd s"] get_drive_append [of "effective_cwd (cwd s)"] by auto
  have "fs_frame s s' \<and> (\<forall>q n. cwd_wf (cwd s) \<longrightarrow> r = Some (q, n) \<longrightarrow> length n < PATH_MAX \<and> get_drive n \<noteq> 0)"
  proof (cases path)
    case None
    then show ?thesis using assms by (auto simp: realpath_def fs_frame_def)
  next
    case (Some t)
    have r: "realpath os below (Some t) s = Some (r, s')" using assms Some by simp
    let ?p = "path_block os s" and ?f = "effective_cwd (cwd s) @ ''/'' @ t"
    consider "r = None" "libc.more s' = libc.more s \<or> libc.more s' = libc.more (init_cwd s)"
      | "get_drive t \<noteq> 0" "realpath_place os below t (get_drive t) (drop (get_drive t) t) ?p s1 = Some (r, s')"
      | "realpath_place os below (effective_cwd (cwd s)) (get_drive (effective_cwd (cwd s))) t ?p (init_cwd s1) = Some (r, s')"
      | "realpath_place os below ?f (get_drive ?f) (drop (get_drive ?f) ?f) ?p (init_cwd s1) = Some (r, s')"
      using r
      by (auto simp: realpath_def path_block_def sys_ret_def Let_def case_prod_beta s1 fst_sys_world simp flip: s1_def
          split: if_splits)
    then show ?thesis
    proof cases
      case 1
      then show ?thesis by (simp add: fs_frame_def)
    next
      case 2
      then show ?thesis using s1 by (intro place [OF 2(2)]) simp_all
    next
      case 3
      then show ?thesis using s1 cd(1) by (intro place [OF 3]) simp_all
    next
      case 4
      then show ?thesis using s1 cd(2) by (intro place [OF 4]) simp_all
    qed
  qed
  then show "fs_frame s s'" "cwd_wf (cwd s) \<Longrightarrow> r = Some (q, n) \<Longrightarrow> length n < PATH_MAX \<and> get_drive n \<noteq> 0"
    by blast+
qed

lemma with_path_cases:
  assumes "with_path os below path null work s = Some (r, s')"
  obtains (none) "fs_frame s s'" "r = null"
  | (some) p n s1 where "fs_frame s s1" "r = fst (work p n s1)" "s' = snd (work p n s1)" "realpath os below path s = Some (Some (p, n), s1)"
      "cwd_wf (cwd s) \<Longrightarrow> length n < PATH_MAX \<and> get_drive n \<noteq> 0"
  using assms realpath_keeps [of os below path s]
  by (auto simp: with_path_def prod_eq_iff split: option.splits prod.splits)

section \<open>Properties\<close>

lemma mem_load_cstring: "length t < 2 ^ 31 \<Longrightarrow> mem_load p (Suc (length t)) (mem (store_string p t s)) = cstring t"
  using mem_load_store_same [of "cstring t" p "mem s"] by (simp add: store_string_def set_mem_def cstring_def)

lemma realpath_overlong:
  assumes "cwd_wf (cwd s)" "path_block os s \<noteq> 0" "hd path = CHR ''/''" "PATH_MAX < length path"
    and "get_drive (effective_cwd (cwd s)) + 1 < PATH_MAX"
  shows "\<exists>s'. realpath os below (Some path) s =
      Some (Some (path_block os s, take (get_drive (effective_cwd (cwd s))) (effective_cwd (cwd s)) @ ''/''), s') \<and>
    errno s' = ENAMETOOLONG"
proof -
  obtain cs where p: "path = CHR ''/'' # cs" using assms(3,4) by (cases path) auto
  have "resolve_path below path = Some (TooLong ''/'')"
    using resolve_path_too_long [of path below] assms(4) by (simp add: p)
  then show ?thesis
    using assms(2,5) by (simp add: p realpath_def realpath_place_def left_in_resolved_def path_block_def sys_ret_def
        Let_def case_prod_beta fst_sys_world)
qed

text \<open>A platform with one free block, for the witnesses, and a process that has just started.\<close>

definition fs_os :: "sce_call \<Rightarrow> unit \<Rightarrow> reply \<times> unit" where
  "fs_os c w = (ret_reply (case c of Heap _ \<Rightarrow> 0x1000 | _ \<Rightarrow> 0), w)"

definition fs_start :: "string \<Rightarrow> unit fs_state" where
  "fs_start c = \<lparr>errno = 0, mem = (\<lambda>_. 0), world = (), fdmap = (\<lambda>_. None), fdmap_pool = (\<lambda>_. zero_descriptor),
     fd_mutex = 0, sdidinit = False, stdio_bound = False, cwd = c\<rparr>"

lemma fs_start_simps [simp]: "cwd (fs_start c) = c" "path_block fs_os (fs_start c) = 0x1000" "errno (fs_start c) = 0"
  by (simp_all add: fs_start_def path_block_def sys_ret_def fs_os_def)

lemma app0_drive: "get_drive (''app0:'' @ x) = 5" "get_drive ''app0:'' = 5"
  by (simp_all add: get_drive_def drive_char_def less_eq_char_def)

text \<open>C28 (functional): for a path that fits, \<open>__realpath\<close> gives a heap block with the drive of the path (or of
  the working directory, which is \<open>app0:\<close> at first) followed by the normal form of the rest; a relative
  path is read below the working directory. The string is stored with its final zero, \<open>errno\<close> keeps its
  value, and the full name is its own full name in every working directory.\<close>
theorem realpath_full_name:
  assumes "cwd_wf (cwd s)" "placeable below (effective_cwd (cwd s)) path" "path_block os s \<noteq> 0"
  shows "\<exists>s'. realpath os below (Some path) s =
      Some (Some (path_block os s, full_name (effective_cwd (cwd s)) path), s') \<and>
    mem_load (path_block os s) (length (full_name (effective_cwd (cwd s)) path) + 1) (mem s') =
      cstring (full_name (effective_cwd (cwd s)) path) \<and>
    errno s' = errno s \<and>
    full_name c (full_name (effective_cwd (cwd s)) path) = full_name (effective_cwd (cwd s)) path"
proof -
  obtain s1 where s1: "realpath os below (Some path) s =
      Some (Some (path_block os s, full_name (effective_cwd (cwd s)) path),
        store_string (path_block os s) (full_name (effective_cwd (cwd s)) path) s1)" "errno s1 = errno s"
    using realpath_normal [OF assms] by blast
  have "length (full_name (effective_cwd (cwd s)) path) < 2 ^ 31"
    using assms(2) by (simp add: placeable_def PATH_MAX_def)
  then show ?thesis
    using s1 full_name_idem [OF conjunct1 [OF effective_cwd_wf [OF assms(1)]]] by (simp add: mem_load_cstring)
qed

theorem realpath_full_name_witness:
  "\<exists>s'. realpath fs_os (CHR ''x'') (Some ''data/../save//a'') (fs_start []) = Some (Some (0x1000, ''app0:/save/a''), s') \<and>
     mem_load 0x1000 (length ''app0:/save/a'' + 1) (mem s') = cstring ''app0:/save/a''"
proof -
  have g: "get_drive ''data/../save//a'' = 0" by (simp add: get_drive_def drive_char_def less_eq_char_def)
  have sp: "path_split ''app0:'' ''data/../save//a'' = (''app0:'', ''/data/../save//a'')"
    using app0_drive(1) [of "''/data/../save//a''"] by (simp add: path_split_def g)
  have n: "full_name ''app0:'' ''data/../save//a'' = ''app0:/save/a''"
    by (simp add: full_name_def sp normal_left_def canon_def canon_step_def render_def)
  have w: "cwd_wf []" by (simp add: cwd_wf_def PATH_MAX_def)
  have p: "placeable (CHR ''x'') ''app0:'' ''data/../save//a''"
    by (simp add: placeable_def n g sp resolvable_def PATH_MAX_def)
  show ?thesis
    using realpath_full_name [of "fs_start []" "CHR ''x''" "''data/../save//a''" fs_os "[]"] w p n
    by (auto simp: effective_cwd_def)
qed

end
