(* ===== verification/Posix_Fs.thy ===== *)
theory Posix_Fs
  imports Vita_Fs
begin

text \<open>
  The functions that take a path: open and creat (\<^verbatim>\<open>src/fnctl\<close>), stat, lstat, fstat, mkdir, chmod, fchmod,
  statvfs, fstatvfs (\<^verbatim>\<open>src/stat\<close>), unlink, rmdir, chdir, fchdir, getcwd, chown, access, truncate
  (\<^verbatim>\<open>src/unistd\<close>), utimes (\<^verbatim>\<open>src/vita\<close>), realpath (\<^verbatim>\<open>src/misc\<close>), fopen (\<^verbatim>\<open>src/stdio\<close>), and fcntl.
\<close>

section \<open>Opening\<close>

text \<open>The handle a platform open gives, or its negative result.\<close>

definition open_handle ::
  "'w services \<Rightarrow> fios_call \<Rightarrow> ('w, 'z) libc_scheme \<Rightarrow> int \<times> ('w, 'z) libc_scheme" where
  "open_handle os c s = (let (r, s) = sys os (Fios c) s in (if rp_ret r < 0 then rp_ret r else outp r 0 0, s))"

text \<open>The directory branch of \<open>open\<close>; \<open>Inl\<close> is its early return.\<close>

definition open_dir ::
  "'w services \<Rightarrow> (int \<Rightarrow> int) \<Rightarrow> int \<Rightarrow> addr \<Rightarrow> string \<Rightarrow> ('w, 'z) libc_scheme \<Rightarrow>
     (int + int) \<times> ('w, 'z) libc_scheme" where
  "open_dir os net flags p full_path s =
     (let (r, s) = (if flags AND O_CREAT \<noteq> 0 then sys os (Fios (sceFiosDirectoryCreateSync full_path)) s
                    else (ret_reply 0, s));
          s = (if rp_ret r < 0 then set_errno (sce_errno_to_errno net (rp_ret r) ERROR_FIOS) s else s)
      in if rp_ret r < 0 \<and> errno s \<noteq> EEXIST then (Inl (- 1), heap_free os p s)
         else (let (h, s) = open_handle os (sceFiosDHOpenSync full_path) s in (Inr h, s)))"

definition open_file ::
  "'w services \<Rightarrow> sdk \<Rightarrow> int \<Rightarrow> int \<Rightarrow> string \<Rightarrow> ('w, 'z) libc_scheme \<Rightarrow> int \<times> ('w, 'z) libc_scheme" where
  "open_file os k flags arg full_path s =
     (let sce_flags = take_bit 16 (fcntl2sony k flags) in
      open_handle os
        (if flags AND O_CREAT \<noteq> 0 \<and> arg \<noteq> 0 then sceFiosFHOpenWithModeSync full_path sce_flags arg
         else sceFiosFHOpenSync full_path sce_flags) s)"

text \<open>From the handle to the descriptor.\<close>

definition open_publish ::
  "'w services \<Rightarrow> (int \<Rightarrow> int) \<Rightarrow> bool \<Rightarrow> addr \<Rightarrow> int \<Rightarrow> ('w, 'z) fd_state_scheme \<Rightarrow>
     int \<times> ('w, 'z) fd_state_scheme" where
  "open_publish os net dir p ret s =
     (if ret < 0 then (- 1, set_errno (sce_errno_to_errno net ret ERROR_FIOS) (heap_free os p s))
      else
        (let (fd, s) = acquire_descriptor s in
         if fd < 0 then
           (- 1, set_errno EMFILE (snd (sys os (Fios (if dir then sceFiosDHCloseSync ret else sceFiosFHCloseSync ret))
              (heap_free os p s))))
         else
           (fd, set_errno 0 (heap_free os p
              (publish fd ret (if dir then VITA_DESCRIPTOR_DIRECTORY else VITA_DESCRIPTOR_FILE) s)))))"

definition posix_open ::
  "'w services \<Rightarrow> (int \<Rightarrow> int) \<Rightarrow> sdk \<Rightarrow> char \<Rightarrow> string option \<Rightarrow> int \<Rightarrow> int \<Rightarrow> ('w, 'z) fs_state_scheme \<Rightarrow>
     (int \<times> ('w, 'z) fs_state_scheme) may" where
  "posix_open os net k below filename flags arg =
     with_path os below filename (- 1) (\<lambda>p full_path s.
       let (d, s) = is_dir os k full_path s; dir = (d = 0) in
       if dir \<and> flags AND O_DIRECTORY \<noteq> 0 then
         (case open_dir os net flags p full_path s of
            (Inl e, s) \<Rightarrow> (e, s)
          | (Inr ret, s) \<Rightarrow> open_publish os net dir p ret s)
       else
         (let (ret, s) = open_file os k flags arg full_path s in open_publish os net dir p ret s))"

definition creat where
  "creat os net k below filename mode = posix_open os net k below filename (O_CREAT OR O_WRONLY OR O_TRUNC) mode"

section \<open>One platform call on a full path\<close>

text \<open>\<open>fail\<close> and \<open>done\<close> are the ends of mkdir, unlink and rmdir: the block is freed first.\<close>

definition path_fail ::
  "'w services \<Rightarrow> (int \<Rightarrow> int) \<Rightarrow> addr \<Rightarrow> int \<Rightarrow> ('w, 'z) libc_scheme \<Rightarrow> int \<times> ('w, 'z) libc_scheme" where
  "path_fail os net p ret s = (- 1, set_errno (sce_errno_to_errno net ret ERROR_FIOS) (heap_free os p s))"

definition path_call ::
  "'w services \<Rightarrow> (int \<Rightarrow> int) \<Rightarrow> (string \<Rightarrow> fios_call) \<Rightarrow> addr \<Rightarrow> string \<Rightarrow> ('w, 'z) libc_scheme \<Rightarrow>
     int \<times> ('w, 'z) libc_scheme" where
  "path_call os net c p full_path s =
     (let (r, s) = sys os (Fios (c full_path)) s in
      if rp_ret r < 0 then path_fail os net p (rp_ret r) s
      else (0, set_errno 0 (heap_free os p s)))"

definition mkdir where
  "mkdir os net below path = with_path os below path (- 1) (path_call os net sceFiosDirectoryCreateSync)"

definition unlink where
  "unlink os net below path = with_path os below path (- 1) (path_call os net sceFiosDeleteSync)"

definition rmdir where
  "rmdir os net below path = with_path os below path (- 1) (path_call os net sceFiosDirectoryDeleteSync)"

section \<open>Stat\<close>

definition posix_stat ::
  "'w services \<Rightarrow> (int \<Rightarrow> int) \<Rightarrow> sdk \<Rightarrow> char \<Rightarrow> string option \<Rightarrow> ('w, 'z) fs_state_scheme \<Rightarrow>
     ((int \<times> stat option) \<times> ('w, 'z) fs_state_scheme) may" where
  "posix_stat os net k below path =
     with_path os below path (- 1, None) (\<lambda>p full_path s.
       let (r, s) = sys os (Fios (sceFiosStatSync full_path)) s in
       if rp_ret r < 0 then (let (e, s) = path_fail os net p (rp_ret r) s in ((e, None), s))
       else
         (let (st, s) = scestat_to_stat os k (stat_out r) (heap_free os p s) in ((0, Some st), set_errno 0 s)))"

definition lstat where "lstat os net k below path = posix_stat os net k below path"

definition stat_result ::
  "'w services \<Rightarrow> (int \<Rightarrow> int) \<Rightarrow> sdk \<Rightarrow> int \<times> SceFiosStat \<Rightarrow> ('w, 'z) libc_scheme \<Rightarrow>
     (int \<times> stat option) \<times> ('w, 'z) libc_scheme" where
  "stat_result os net k r s =
     (if fst r < 0 then ((- 1, None), set_errno (sce_errno_to_errno net (fst r) ERROR_FIOS) s)
      else (let (st, s) = scestat_to_stat os k (snd r) s in ((0, Some st), set_errno 0 s)))"

definition fstat ::
  "'w services \<Rightarrow> (int \<Rightarrow> int) \<Rightarrow> sdk \<Rightarrow> int \<Rightarrow> ('w, 'z) fd_state_scheme \<Rightarrow>
     (int \<times> stat option) \<times> ('w, 'z) fd_state_scheme" where
  "fstat os net k fd s =
     with_fd os net fd
       (\<lambda>s. let (t, s) = sys os (Fios (sceFiosFHTell fd)) s in
            if 0 > rp_ret t then ((- 1, None), set_errno EBADF s)
            else (let (r, s) = sys os (Fios (sceFiosFHStatSync fd)) s
                  in stat_result os net k (rp_ret r, stat_out r) s))
       (\<lambda>d s. case dtype d of
            VITA_DESCRIPTOR_DIRECTORY \<Rightarrow>
              (let (q, s) = sys os (Fios (sceFiosDHGetPath (sce_uid d))) s;
                   (r, s) = sys os (Fios (sceFiosStatSync (rp_str q))) s in ((rp_ret r, stat_out r), s))
          | VITA_DESCRIPTOR_FILE \<Rightarrow>
              (let (r, s) = sys os (Fios (sceFiosFHStatSync (sce_uid d))) s in ((rp_ret r, stat_out r), s))
          | _ \<Rightarrow> ((make_sce_errno EBADF, zero_stat), s))
       (stat_result os net k) s"

text \<open>\<open>access\<close> looks at the mode that \<open>stat\<close> gives, in which no permission bit is ever set.\<close>

definition access ::
  "'w services \<Rightarrow> (int \<Rightarrow> int) \<Rightarrow> sdk \<Rightarrow> char \<Rightarrow> string option \<Rightarrow> int \<Rightarrow> ('w, 'z) fs_state_scheme \<Rightarrow>
     (int \<times> ('w, 'z) fs_state_scheme) may" where
  "access os net k below fn flags s =
     (case posix_stat os net k below fn s of
        None \<Rightarrow> None
      | Some ((r, st), s) \<Rightarrow>
          (case st of
             None \<Rightarrow> Some (- 1, s)
           | Some st \<Rightarrow>
               if st_mode st AND S_IFDIR \<noteq> 0 then Some (0, s)
               else if flags AND 2 \<noteq> 0 then Some (if st_mode st AND S_IWRITE \<noteq> 0 then 0 else - 1, s)
               else Some (0, s)))"

section \<open>The working directory\<close>

definition chdir ::
  "'w services \<Rightarrow> (int \<Rightarrow> int) \<Rightarrow> sdk \<Rightarrow> char \<Rightarrow> string option \<Rightarrow> ('w, 'z) fs_state_scheme \<Rightarrow>
     (int \<times> ('w, 'z) fs_state_scheme) may" where
  "chdir os net k below path s =
     (if path = None then Some (- 1, set_errno EFAULT s)
      else
        with_path os below path (- 1) (\<lambda>p fullpath s.
          let (ret, s) = is_dir os k fullpath s in
          if ret < 0 then path_fail os net p ret s
          else (0, heap_free os p (s\<lparr>cwd := fullpath\<rparr>))) s)"

text \<open>
  \<open>fchdir\<close> and \<open>fchmod\<close> call a path function while they hold the entry, so the contract of \<open>with_fd\<close>, which
  is for work that does not fail, is written out here.
\<close>

definition fchdir ::
  "'w services \<Rightarrow> (int \<Rightarrow> int) \<Rightarrow> sdk \<Rightarrow> char \<Rightarrow> int \<Rightarrow> ('w, 'z) fs_state_scheme \<Rightarrow>
     (int \<times> ('w, 'z) fs_state_scheme) may" where
  "fchdir os net k below fd s =
     (case fd_grab fd s of
        (None, s) \<Rightarrow> Some (- 1, set_errno EBADF s)
      | (Some e, s) \<Rightarrow>
          (let d = fdmap_pool s e in
           if dtype d = VITA_DESCRIPTOR_DIRECTORY then
             (let (q, s) = sys os (Fios (sceFiosDHGetPath (sce_uid d))) s in
              case chdir os net k below (Some (rp_str q)) s of
                None \<Rightarrow> None
              | Some (ret, s) \<Rightarrow> Some (ret, snd (fd_drop os net e s)))
           else Some (- 1, set_errno ENOTDIR (snd (fd_drop os net e s)))))"

text \<open>\<open>buf\<close> is 0 for a null pointer, and so is the result of a failing call.\<close>

definition getcwd ::
  "'w services \<Rightarrow> addr \<Rightarrow> size_t \<Rightarrow> ('w, 'z) fs_state_scheme \<Rightarrow> addr \<times> ('w, 'z) fs_state_scheme" where
  "getcwd os buf n s =
     (let s = init_cwd s in
      if buf \<noteq> 0 \<and> n = 0 then (0, set_errno EINVAL s)
      else if buf \<noteq> 0 \<and> length (cwd s) \<ge> unat n then (0, set_errno ERANGE s)
      else if buf = 0 then
        (let (r, s) = sys os (Heap (calloc (of_nat PATH_MAX) 1)) s; buf = word_of_int (rp_ret r) in
         if buf = 0 then (0, set_errno ENOMEM s) else (buf, store_string buf (cwd s) s))
      else (buf, store_string buf (cwd s) s))"

section \<open>Attributes\<close>

definition chown where
  "chown os net below path =
     with_path os below path (- 1) (\<lambda>p full_path s.
       let (r, s) = sys os (Fios (sceFiosStatSync full_path)) s in
       if rp_ret r < 0 then path_fail os net p (rp_ret r) s else (0, heap_free os p s))"

definition chmod ::
  "'w services \<Rightarrow> (int \<Rightarrow> int) \<Rightarrow> sdk \<Rightarrow> char \<Rightarrow> string option \<Rightarrow> int \<Rightarrow> ('w, 'z) fs_state_scheme \<Rightarrow>
     (int \<times> ('w, 'z) fs_state_scheme) may" where
  "chmod os net k below pathname mode =
     with_path os below pathname (- 1) (\<lambda>p full_path s.
       let (r, s) = sys os (Fios (sceFiosStatSync full_path)) s in
       if rp_ret r < 0 then path_fail os net p (rp_ret r) s
       else
         (let (r, s) = sys os (Fios (sceFiosChangeStatSync full_path ((stat_out r)\<lparr>fios_mode := mode\<rparr>) (SCE_CST_MODE k))) s in
          if rp_ret r < 0 then path_fail os net p (rp_ret r) s else (0, heap_free os p s)))"

text \<open>The path of an entry, as \<open>fchmod\<close> asks for it.\<close>

definition entry_path ::
  "'w services \<Rightarrow> DescriptorTranslation \<Rightarrow> ('w, 'z) libc_scheme \<Rightarrow> string \<times> ('w, 'z) libc_scheme" where
  "entry_path os d s =
     (let (q, s) = sys os (Fios (if dtype d = VITA_DESCRIPTOR_DIRECTORY then sceFiosDHGetPath (sce_uid d)
                                 else sceFiosFHGetPath (sce_uid d))) s in (rp_str q, s))"

definition fchmod ::
  "'w services \<Rightarrow> (int \<Rightarrow> int) \<Rightarrow> sdk \<Rightarrow> char \<Rightarrow> int \<Rightarrow> int \<Rightarrow> ('w, 'z) fs_state_scheme \<Rightarrow>
     (int \<times> ('w, 'z) fs_state_scheme) may" where
  "fchmod os net k below fd mode s =
     (case fd_grab fd s of
        (None, s) \<Rightarrow> Some (- 1, set_errno EBADF s)
      | (Some e, s) \<Rightarrow>
          (let d = fdmap_pool s e; closed = (dtype d = VITA_DESCRIPTOR_SOCKET \<or> dtype d = VITA_DESCRIPTOR_PIPE) in
           case (if closed then Some (make_sce_errno EBADF, s)
                 else (let (path, s) = entry_path os d s in chmod os net k below (Some path) mode s)) of
             None \<Rightarrow> None
           | Some (ret, s) \<Rightarrow>
               if ret < 0 then
                 Some (- 1, set_errno (sce_errno_to_errno net ret ERROR_FIOS) (snd (fd_drop os net e s)))
               else
                 (let (ret, s) =
                    (let (path, s) = entry_path os d s;
                         (r, s) = sys os (Fios (sceFiosChangeStatSync path (zero_stat\<lparr>fios_mode := mode\<rparr>) (SCE_CST_MODE k))) s
                     in (rp_ret r, s));
                      s = snd (fd_drop os net e s)
                  in if ret < 0 then Some (- 1, set_errno (sce_errno_to_errno net ret ERROR_FIOS) s) else Some (0, s))))"

section \<open>More attributes\<close>

text \<open>A date with the microsecond field replaced.\<close>

definition with_microsecond :: "reply \<Rightarrow> int \<Rightarrow> int list" where
  "with_microsecond r usec = map (\<lambda>i. if i = 6 then usec else outp r i 0) [0..<7]"

text \<open>
  \<open>utimes\<close> from the conversion of the times on. The two times are the seconds and microseconds of
  the argument \<open>times\<close>; \<open>None\<close> in the result is a jump to \<open>end\<close>. The code stores the first date as the
  modification time too.
\<close>

definition utimes_convert ::
  "'w services \<Rightarrow> ((int \<times> int) \<times> (int \<times> int)) option \<Rightarrow> SceFiosStat \<Rightarrow> ('w, 'z) libc_scheme \<Rightarrow>
     SceFiosStat option \<times> ('w, 'z) libc_scheme" where
  "utimes_convert os tv st s =
     (case tv of
        Some ((sec0, usec0), (sec1, usec1)) \<Rightarrow>
          (let (r0, s) = sys os (Rtc (sceRtcConvertTime_tToDateTime sec0)) s in
           if rp_ret r0 < 0 then (None, s)
           else
             (let dt0 = with_microsecond r0 usec0;
                  (a, s) = sys os (Fios (sceFiosDateFromSceDateTime dt0)) s;
                  (r1, s) = sys os (Rtc (sceRtcConvertTime_tToDateTime sec1)) s
              in if rp_ret r1 < 0 then (None, s)
                 else (let (m, s) = sys os (Fios (sceFiosDateFromSceDateTime dt0)) s
                       in (Some (st\<lparr>fios_atime := rp_ret a, fios_mtime := rp_ret m\<rparr>), s))))
      | None \<Rightarrow>
          (let (r, s) = sys os (Rtc sceRtcGetCurrentClockUtc) s in
           if rp_ret r < 0 then (None, s)
           else (let (a, s) = sys os (Fios (sceFiosDateFromSceDateTime (map (\<lambda>i. outp r i 0) [0..<7]))) s
                 in (Some (st\<lparr>fios_atime := rp_ret a, fios_mtime := rp_ret a\<rparr>), s))))"

text \<open>\<open>ret\<close> is never assigned; the value the stack holds there is the parameter \<open>junk\<close>.\<close>

definition utimes ::
  "'w services \<Rightarrow> (int \<Rightarrow> int) \<Rightarrow> sdk \<Rightarrow> char \<Rightarrow> int \<Rightarrow> string option \<Rightarrow> ((int \<times> int) \<times> (int \<times> int)) option \<Rightarrow>
     ('w, 'z) fs_state_scheme \<Rightarrow> (int \<times> ('w, 'z) fs_state_scheme) may" where
  "utimes os net k below junk filename tv =
     with_path os below filename (- 1) (\<lambda>p full_path s.
       let (r, s) = sys os (Fios (sceFiosStatSync full_path)) s in
       if rp_ret r < 0 then path_fail os net p junk s
       else
         (case utimes_convert os tv (stat_out r) s of
            (None, s) \<Rightarrow> path_fail os net p junk s
          | (Some st, s) \<Rightarrow>
              (let (c, s) = sys os (Fios (sceFiosChangeStatSync full_path st (SCE_CST_AT_MT k))) s in
               if rp_ret c < 0 then path_fail os net p junk s else (0, heap_free os p s))))"

text \<open>The public \<open>realpath\<close>: the address of the string, 0 on failure. A caller's buffer receives a copy.\<close>

definition posix_realpath ::
  "'w services \<Rightarrow> (int \<Rightarrow> int) \<Rightarrow> char \<Rightarrow> string option \<Rightarrow> addr \<Rightarrow> ('w, 'z) fs_state_scheme \<Rightarrow>
     (addr \<times> ('w, 'z) fs_state_scheme) may" where
  "posix_realpath os net below path resolved_path =
     with_path os below path 0 (\<lambda>p fullpath s.
       let (r, s) = sys os (Fios (sceFiosStatSync fullpath)) s in
       if rp_ret r < 0 then (0, set_errno (sce_errno_to_errno net (rp_ret r) ERROR_GENERIC) (heap_free os p s))
       else if resolved_path = 0 then (p, s)
       else (resolved_path, heap_free os p (store_string resolved_path fullpath s)))"

definition fopen ::
  "'w services \<Rightarrow> char \<Rightarrow> string option \<Rightarrow> string \<Rightarrow> ('w, 'z) fs_state_scheme \<Rightarrow>
     (addr \<times> ('w, 'z) fs_state_scheme) may" where
  "fopen os below filename mode =
     with_path os below filename 0 (\<lambda>p full_path s.
       let (f, s) = sys os (Stdio (sceLibcFopen full_path mode)) s in (word_of_int (rp_ret f), heap_free os p s))"

text \<open>\<open>truncate\<close> passes the path on as it is, without \<open>__realpath\<close>.\<close>

definition posix_truncate ::
  "'w services \<Rightarrow> (int \<Rightarrow> int) \<Rightarrow> string \<Rightarrow> int \<Rightarrow> ('w, 'z) libc_scheme \<Rightarrow> int \<times> ('w, 'z) libc_scheme" where
  "posix_truncate os net path len s =
     (let (r, s) = sys os (Fios (sceFiosFileTruncateSync path len)) s in
      if rp_ret r < 0 then (- 1, set_errno (sce_errno_to_errno net (rp_ret r) ERROR_GENERIC) s)
      else (0, set_errno 0 s))"

section \<open>File systems\<close>

record statvfs_buf =
  f_bsize :: int
  f_frsize :: int
  f_blocks :: int
  f_bfree :: int
  f_bavail :: int
  f_files :: int
  f_ffree :: int
  f_favail :: int
  f_fsid :: int
  f_flag :: int
  f_namemax :: int

definition ULONG_MAX :: int where "ULONG_MAX = 2 ^ 32 - 1"

text \<open>
  The first result of \<open>statvfs\<close> is \<open>None\<close> when the function ends without a \<open>return\<close>, so its value is
  not determined. The reply of the device gives the total and free bytes and the cluster size; a division by
  a cluster size of 0 is undefined. The full path is not freed.
\<close>

definition statvfs_drive :: "string \<Rightarrow> string" where
  "statvfs_drive path = take (let d = get_drive path in if d > 15 then 15 else d) path"

definition statvfs ::
  "'w services \<Rightarrow> char \<Rightarrow> string option \<Rightarrow> bool \<Rightarrow> ('w, 'z) fs_state_scheme \<Rightarrow>
     ((int option \<times> statvfs_buf option) \<times> ('w, 'z) fs_state_scheme) may" where
  "statvfs os below path buf s =
     (if \<not> buf \<or> path = None then Some ((Some (- 1), None), set_errno EFAULT s)
      else
        (case realpath os below path s of
           None \<Rightarrow> None
         | Some (None, s) \<Rightarrow> Some ((Some (- 1), None), s)
         | Some (Some (p, full), s) \<Rightarrow>
             (let (r, s) = sys os (Fios (sceFiosDevctlSync (statvfs_drive full) 0x3001)) s;
                  max_size = outp r 0 0; free_size = outp r 1 0; cluster_size = outp r 2 0
              in if rp_ret r < 0 then Some ((Some (- 1), None), set_errno EIO s)
                 else if cluster_size = 0 then None
                 else
                   Some ((None, Some
                     \<lparr>f_bsize = cluster_size, f_frsize = cluster_size,
                      f_blocks = take_bit 32 (max_size div cluster_size),
                      f_bfree = take_bit 32 (free_size div cluster_size),
                      f_bavail = take_bit 32 (free_size div cluster_size),
                      f_files = ULONG_MAX, f_ffree = ULONG_MAX, f_favail = ULONG_MAX,
                      f_fsid = 0, f_flag = 2, f_namemax = 256\<rparr>), s))))"

text \<open>\<open>fstatvfs\<close> asks for the path of a directory handle for files too.\<close>

definition fstatvfs ::
  "'w services \<Rightarrow> (int \<Rightarrow> int) \<Rightarrow> char \<Rightarrow> int \<Rightarrow> ('w, 'z) fs_state_scheme \<Rightarrow>
     ((int option \<times> statvfs_buf option) \<times> ('w, 'z) fs_state_scheme) may" where
  "fstatvfs os net below fd s =
     (case fd_grab fd s of
        (None, s) \<Rightarrow> Some ((Some (- 1), None), set_errno EBADF s)
      | (Some e, s) \<Rightarrow>
          (let d = fdmap_pool s e in
           if dtype d = VITA_DESCRIPTOR_FILE \<or> dtype d = VITA_DESCRIPTOR_DIRECTORY then
             (let (q, s) = sys os (Fios (sceFiosDHGetPath (sce_uid d))) s in
              case statvfs os below (Some (rp_str q)) True s of
                None \<Rightarrow> None
              | Some (ret, s) \<Rightarrow> Some (ret, snd (fd_drop os net e s)))
           else
             Some ((Some 0, Some \<lparr>f_bsize = 4096, f_frsize = 4096, f_blocks = 0, f_bfree = 0, f_bavail = 0,
                f_files = 0, f_ffree = 0, f_favail = 0, f_fsid = 0, f_flag = 0, f_namemax = 256\<rparr>),
               snd (fd_drop os net e s))))"

section \<open>fcntl\<close>

text \<open>
  \<open>arg\<close> is an unsigned long. \<open>sceNetSetsockopt\<close> receives the address of \<open>sce_optlen\<close>, a location on the
  stack, where it takes the length: that address is the parameter \<open>stk\<close>.
\<close>

abbreviation (input) F_DUPFD :: int where "F_DUPFD \<equiv> 0"
abbreviation (input) F_GETFD :: int where "F_GETFD \<equiv> 1"
abbreviation (input) F_GETFL :: int where "F_GETFL \<equiv> 3"
abbreviation (input) F_SETFL :: int where "F_SETFL \<equiv> 4"
abbreviation (input) SOL_SOCKET :: int where "SOL_SOCKET \<equiv> 0xffff"
abbreviation (input) SO_NONBLOCK :: int where "SO_NONBLOCK \<equiv> 0x1100"

definition fcntl_finish ::
  "(int \<Rightarrow> int) \<Rightarrow> int \<Rightarrow> int \<Rightarrow> ('w, 'z) libc_scheme \<Rightarrow> int \<times> ('w, 'z) libc_scheme" where
  "fcntl_finish net res val s = (if res < 0 then (- 1, set_errno (scenet_errno_to_errno net res) s) else (val, s))"

definition fcntl ::
  "'w services \<Rightarrow> (int \<Rightarrow> int) \<Rightarrow> addr \<Rightarrow> int \<Rightarrow> int \<Rightarrow> 32 word \<Rightarrow> ('w, 'z) fd_state_scheme \<Rightarrow>
     int \<times> ('w, 'z) fd_state_scheme" where
  "fcntl os net stk fd cmd arg s =
     (if cmd = F_DUPFD then
        (if arg \<ge> of_nat MAX_OPEN_FILES then (- 1, set_errno EINVAL s)
         else
           (let (dupfd, s) = duplicate_descriptor fd (uint arg) s in
            if dupfd < 0 then (- 1, set_errno EBADF s) else (dupfd, set_errno 0 s)))
      else
        with_fd os net fd
          (\<lambda>s. (- 1, set_errno EBADF s))
          (\<lambda>d s.
             if cmd = F_GETFD then (Inl (0 :: int), s)
             else if dtype d = VITA_DESCRIPTOR_SOCKET \<and> cmd = F_GETFL then
               (let (r, s) = sys os (Net (sceNetGetsockoptInt (sce_uid d) SOL_SOCKET SO_NONBLOCK)) s
                in (Inr (rp_ret r, if outp r 0 0 \<noteq> 0 then O_NONBLOCK else 0), s))
             else if dtype d = VITA_DESCRIPTOR_SOCKET \<and> cmd = F_SETFL then
               (let (r, s) = sys os (Net (sceNetSetsockoptInt (sce_uid d) SOL_SOCKET SO_NONBLOCK
                                (if uint arg AND O_NONBLOCK \<noteq> 0 then 1 else 0) stk)) s
                in (Inr (rp_ret r, 0), s))
             else (Inl (- 1), s))
          (\<lambda>r s. case r of
               Inl v \<Rightarrow> if v = 0 then (0, s) else (- 1, set_errno ENOTSUP s)
             | Inr (res, val) \<Rightarrow> fcntl_finish net res val s) s)"

section \<open>What the operations keep\<close>

text \<open>
  The invariant of the file layer: the working directory fits its array and names a drive, and no entry
  of the descriptor table is referred to more often than its count says.
\<close>

definition fs_wf :: "(nat \<Rightarrow> nat) \<Rightarrow> ('w, 'z) fs_state_scheme \<Rightarrow> bool" where
  "fs_wf k s \<longleftrightarrow> cwd_wf (cwd s) \<and> fd_safe k s"

lemma fd_safe_frame: "fdmap s' = fdmap s \<Longrightarrow> fdmap_pool s' = fdmap_pool s \<Longrightarrow> fd_safe k s' = fd_safe k s"
  by (simp add: fd_safe_def slack_frame [of s' s] fd_wf_frame [of s' s])

lemma fs_frame_wf: "fs_frame s s' \<Longrightarrow> fs_wf k s \<Longrightarrow> fs_wf k s'"
  using fs_frameD(1,2) [of s s'] fs_frame_cwd_wf [of s s'] by (simp add: fs_wf_def fd_safe_frame [of s' s])

lemma fs_wf_more: "libc.more s' = libc.more s \<Longrightarrow> fs_wf k s' = fs_wf k s"
  using more_fdmap [of s' s] more_cwd [of s' s] by (simp add: fs_wf_def fd_safe_frame [of s' s])

lemma more_frame: "libc.more s' = libc.more s \<Longrightarrow> fs_frame s s'"
  by (simp add: fs_frame_def)

lemma fs_frame_pre: "libc.more s' = libc.more s \<Longrightarrow> fs_frame s' t \<Longrightarrow> fs_frame s t"
  using more_init_cwd [of s' s] by (auto simp: fs_frame_def)

lemma with_path_frame:
  assumes "with_path os below path null work s = Some (r, s')"
    and "\<And>p n s. libc.more (snd (work p n s)) = libc.more s"
  shows "fs_frame s s'"
  using assms(1)
proof (cases rule: with_path_cases)
  case (some p n s1)
  then show ?thesis using fs_frame_trans [of s s1 s'] assms(2) [of p n s1] by simp
qed

lemma path_ops_more [simp]:
  "libc.more (snd (path_fail os net p ret s)) = libc.more s"
  "libc.more (snd (path_call os net c p n s)) = libc.more s"
  "libc.more (snd (open_handle os call s)) = libc.more s"
  "libc.more (snd (open_dir os net flags p n s)) = libc.more s"
  "libc.more (snd (open_file os k flags arg n s)) = libc.more s"
  "libc.more (snd (stat_result os net k q s)) = libc.more s"
  "libc.more (snd (utimes_convert os tv st s)) = libc.more s"
  "libc.more (snd (entry_path os d s)) = libc.more s"
  "libc.more (snd (fcntl_finish net res v s)) = libc.more s"
  by (simp_all add: path_fail_def path_call_def open_handle_def open_dir_def open_file_def stat_result_def
      utimes_convert_def entry_path_def fcntl_finish_def Let_def case_prod_beta split: option.splits prod.splits)

text \<open>Everything that only looks at the path or changes a file behind it.\<close>

lemma path_ops_frame:
  "mkdir os net b path s = Some (i, s') \<Longrightarrow> fs_frame s s'"
  "unlink os net b path s = Some (i, s') \<Longrightarrow> fs_frame s s'"
  "rmdir os net b path s = Some (i, s') \<Longrightarrow> fs_frame s s'"
  "chown os net b path s = Some (i, s') \<Longrightarrow> fs_frame s s'"
  "chmod os net k b path mode s = Some (i, s') \<Longrightarrow> fs_frame s s'"
  "posix_stat os net k b path s = Some (st, s') \<Longrightarrow> fs_frame s s'"
  "posix_realpath os net b path q s = Some (a, s') \<Longrightarrow> fs_frame s s'"
  "fopen os b path fm s = Some (a, s') \<Longrightarrow> fs_frame s s'"
  unfolding mkdir_def unlink_def rmdir_def chown_def chmod_def posix_stat_def posix_realpath_def fopen_def
  by (erule with_path_frame; simp add: Let_def case_prod_beta)+

lemma utimes_frame: "utimes os net k b junk path tv s = Some (i, s') \<Longrightarrow> fs_frame s s'"
  unfolding utimes_def by (erule with_path_frame) (simp add: Let_def case_prod_beta split: option.split)

lemma access_frame: "access os net k b path flags s = Some (i, s') \<Longrightarrow> fs_frame s s'"
  by (auto simp: access_def split: option.splits if_splits dest: path_ops_frame(6))

lemma statvfs_frame: "statvfs os b path buf s = Some (i, s') \<Longrightarrow> fs_frame s s'"
  unfolding statvfs_def
  by (auto simp: Let_def case_prod_beta more_frame split: if_splits option.splits prod.splits
      dest: realpath_keeps(1) intro: fs_frame_trans)

lemma getcwd_frame: "fs_frame s (snd (getcwd os buf n s))"
  by (simp add: getcwd_def Let_def case_prod_beta fs_frame_def)

text \<open>\<open>chdir\<close> stores a full name, which fits the array and has a drive.\<close>

lemma chdir_wf:
  assumes "chdir os net k b path s = Some (i, s')" "fs_wf c s"
  shows "fs_wf c s'"
proof (cases "path = None")
  case True
  then show ?thesis using assms fs_wf_more [of "set_errno EFAULT s" s c] by (auto simp: chdir_def)
next
  case False
  then have "with_path os b path (- 1) (\<lambda>p fullpath s.
          let (ret, s) = is_dir os k fullpath s in
          if ret < 0 then path_fail os net p ret s
          else (0, heap_free os p (s\<lparr>cwd := fullpath\<rparr>))) s = Some (i, s')"
    using assms(1) False by (simp only: chdir_def if_False)
  then show ?thesis
  proof (cases rule: with_path_cases)
    case none
    then show ?thesis using assms(2) fs_frame_wf by blast
  next
    case (some p n s1)
    define s2 where "s2 = snd (is_dir os k n s1)"
    have s2: "fs_wf c s2" using fs_frame_wf [OF fs_frame_trans [OF some(1)] assms(2)] by (simp add: s2_def)
    consider "libc.more s' = libc.more s2" | "libc.more s' = libc.more (s2\<lparr>cwd := n\<rparr>)"
      using some(3) by (simp add: Let_def case_prod_beta s2_def split: if_splits)
    then show ?thesis
    proof cases
      case 1
      then show ?thesis using s2 by (simp add: fs_wf_more [OF 1])
    next
      case 2
      then have e: "fdmap s' = fdmap s2" "fdmap_pool s' = fdmap_pool s2" "cwd s' = n"
        using more_fdmap [OF 2] more_cwd [OF 2] by simp_all
      have "cwd_wf n" using some(5) assms(2) by (simp add: fs_wf_def cwd_wf_def)
      then show ?thesis using s2 e by (simp add: fs_wf_def fd_safe_frame [of s' s2])
    qed
  qed
qed

text \<open>Work done between a grab and a drop keeps the invariant when it does with the entry pinned.\<close>

lemma pinned_wf:
  assumes "fd_grab fd s = (Some e, s1)" "fs_wf c s" "\<And>c. fs_wf c s1 \<Longrightarrow> fs_wf c s2"
  shows "fs_wf c (snd (fd_drop os net e s2))"
proof -
  let ?c = "c(e := c e + 1)"
  have cw: "cwd s1 = cwd s" using assms(1)
    by (auto simp: fd_grab_def is_fd_valid_def lock_fd_def unlock_fd_def set_entry_def Let_def split: if_splits option.splits)
  have "fd_wf s1" "slack ?c s1 = slack c s"
    using grab_keeps [OF assms(1)] assms(2) by (simp_all add: fs_wf_def fd_safe_def)
  then have "fs_wf ?c s1" using assms(2) cw by (simp add: fs_wf_def fd_safe_def)
  then have s2: "fs_wf ?c s2" by (rule assms(3))
  have "fd_safe (?c(e := ?c e - 1)) (snd (fd_drop os net e s2))"
    using drop_slack(1) [of ?c e s2 _ os net] s2 order_trans
    by (fastforce simp: fs_wf_def fd_safe_def drop_wf)
  moreover have "cwd (snd (fd_drop os net e s2)) = cwd s2"
    by (simp add: fd_drop_eq Let_def case_prod_beta set_entry_def)
  ultimately show ?thesis using s2 by (simp add: fs_wf_def fun_upd_idem)
qed

lemma grab_None_same: "fd_grab fd s = (None, s1) \<Longrightarrow> s1 = s"
  by (auto simp: fd_grab_eq Let_def split: if_splits)

lemma fs_wf_frame_acquire:
  assumes "fs_wf c s" "acquire_descriptor s = (fd, s1)"
  shows "fs_wf c s1"
proof -
  have "cwd s1 = cwd s" using assms(2) by (cases s rule: acquire_cases) (auto simp: set_entry_def set_slot_def)
  then show ?thesis using acquire_keeps [of s c] assms by (simp add: fs_wf_def fd_safe_def)
qed

lemma publish_wf: "fs_wf c s \<Longrightarrow> fs_wf c (publish fd u t s)"
  by (auto simp: fs_wf_def fd_safe_def publish_keeps) (simp add: publish_def set_entry_def split: option.splits)

lemma open_publish_wf: "fs_wf c s \<Longrightarrow> fs_wf c (snd (open_publish os net dir p ret s))"
proof -
  assume w: "fs_wf c s"
  obtain fd s1 where a: "acquire_descriptor s = (fd, s1)" by (cases "acquire_descriptor s")
  have w1: "fs_wf c s1" by (rule fs_wf_frame_acquire [OF w a])
  let ?t = "publish fd ret (if dir then VITA_DESCRIPTOR_DIRECTORY else VITA_DESCRIPTOR_FILE) s1"
  have "libc.more (snd (open_publish os net dir p ret s)) \<in> {libc.more s, libc.more s1, libc.more ?t}"
    by (simp add: open_publish_def a)
  then show ?thesis
    using w w1 publish_wf [OF w1] fs_wf_more [of "snd (open_publish os net dir p ret s)" s c]
      fs_wf_more [of "snd (open_publish os net dir p ret s)" s1 c] fs_wf_more [of "snd (open_publish os net dir p ret s)" ?t c]
    by (elim insertE) simp_all
qed

lemma posix_open_wf:
  assumes "posix_open os net k b path flags arg s = Some (i, s')" "fs_wf c s"
  shows "fs_wf c s'"
  using assms(1) unfolding posix_open_def
proof (cases rule: with_path_cases)
  case none
  then show ?thesis using assms(2) fs_frame_wf by blast
next
  case (some p n s1)
  let ?s2 = "snd (is_dir os k n s1)"
  have s2: "fs_wf c ?s2" using fs_frame_wf [OF fs_frame_trans [OF some(1)] assms(2)] by simp
  have keep: "fs_wf c t" if "libc.more t = libc.more ?s2" for t :: "('a, 'b) fs_state_scheme"
    using s2 fs_wf_more [OF that] by simp
  show ?thesis
  proof (cases "fst (is_dir os k n s1) = 0 \<and> flags AND O_DIRECTORY \<noteq> 0")
    case True
    have w: "fs_wf c (snd (open_dir os net flags p n ?s2))" by (rule keep) simp
    show ?thesis using some(3) True w open_publish_wf [OF w]
      by (simp add: Let_def case_prod_beta split: sum.splits)
  next
    case False
    have "fs_wf c (snd (open_file os k flags arg n ?s2))" by (rule keep) simp
    then show ?thesis using some(3) False open_publish_wf by (simp add: Let_def case_prod_beta split: if_splits)
  qed
qed

lemma grab_cases:
  obtains (bad) "fd_grab fd s = (None, s)" | (good) e s1 where "fd_grab fd s = (Some e, s1)"
  using grab_None_same [of fd s] by (cases "fd_grab fd s"; cases "fst (fd_grab fd s)") auto

lemma fchdir_wf:
  assumes "fchdir os net k b fd s = Some (i, s')" "fs_wf c s"
  shows "fs_wf c s'"
proof (cases fd s rule: grab_cases)
  case bad
  then show ?thesis using assms fs_wf_more [of "set_errno EBADF s" s c] by (auto simp: fchdir_def)
next
  case (good e s1)
  let ?q = "sys os (Fios (sceFiosDHGetPath (sce_uid (fdmap_pool s1 e)))) s1"
  consider t where "chdir os net k b (Some (rp_str (fst ?q))) (snd ?q) = Some (i, t)" "s' = snd (fd_drop os net e t)"
    | "s' = set_errno ENOTDIR (snd (fd_drop os net e s1))"
    using assms(1) by (auto simp: fchdir_def good Let_def case_prod_beta split: if_splits option.splits)
  then show ?thesis
  proof cases
    case 1
    have "fs_wf c t" if "fs_wf c s1" for c
      using chdir_wf [OF 1(1)] that by (simp add: fs_wf_more [of "snd ?q" s1])
    then show ?thesis unfolding 1(2) by (rule pinned_wf [OF good assms(2)])
  next
    case 2
    have "fs_wf c (snd (fd_drop os net e s1))" by (rule pinned_wf [OF good assms(2)])
    then show ?thesis using 2 fs_wf_more [of s' "snd (fd_drop os net e s1)"] by simp
  qed
qed

lemma fchmod_wf:
  assumes "fchmod os net k b fd mode s = Some (i, s')" "fs_wf c s"
  shows "fs_wf c s'"
proof (cases fd s rule: grab_cases)
  case bad
  then show ?thesis using assms fs_wf_more [of "set_errno EBADF s" s c] by (auto simp: fchmod_def)
next
  case (good e s1)
  let ?d = "fdmap_pool s1 e"
  let ?q = "entry_path os ?d s1"
  obtain ret t where t: "fs_frame s1 t" and s': "\<exists>t'. libc.more t' = libc.more t \<and> libc.more s' = libc.more (snd (fd_drop os net e t'))"
  proof (cases "dtype ?d = VITA_DESCRIPTOR_SOCKET \<or> dtype ?d = VITA_DESCRIPTOR_PIPE")
    case True
    have "\<exists>t'. libc.more t' = libc.more s1 \<and> libc.more s' = libc.more (snd (fd_drop os net e t'))"
      using assms(1) True make_sce_errno_neg [of EBADF]
      by (simp add: fchmod_def good Let_def case_prod_beta split: if_splits) (rule exI [of _ s1], auto)
    then show thesis using that more_frame by blast
  next
    case False
    then obtain r u where u: "chmod os net k b (Some (fst ?q)) mode (snd ?q) = Some (r, u)"
      using assms(1) by (auto simp: fchmod_def good Let_def case_prod_beta split: if_splits option.splits)
    have "\<exists>t'. libc.more t' = libc.more u \<and> libc.more s' = libc.more (snd (fd_drop os net e t'))"
    proof (cases "r < 0")
      case True
      then show ?thesis using assms(1) False u by (auto simp: fchmod_def good Let_def case_prod_beta split: if_splits)
    next
      case pos: False
      let ?t = "snd (sys os (Fios (sceFiosChangeStatSync (fst (entry_path os ?d u)) (zero_stat\<lparr>fios_mode := mode\<rparr>)
                  (SCE_CST_MODE k))) (snd (entry_path os ?d u)))"
      have "libc.more ?t = libc.more u \<and> libc.more s' = libc.more (snd (fd_drop os net e ?t))"
        using assms(1) False pos u by (auto simp: fchmod_def good Let_def case_prod_beta split: if_splits)
      then show ?thesis by blast
    qed
    moreover have "fs_frame s1 u" by (rule fs_frame_pre [OF _ path_ops_frame(5) [OF u]]) simp
    ultimately show thesis using that by blast
  qed
  obtain t' where t': "libc.more t' = libc.more t" "libc.more s' = libc.more (snd (fd_drop os net e t'))" using s' by blast
  have "fs_wf c (snd (fd_drop os net e t'))"
    by (rule pinned_wf [OF good assms(2)]) (use t fs_frame_wf fs_wf_more [OF t'(1)] in blast)
  then show ?thesis by (simp add: fs_wf_more [OF t'(2)])
qed

lemma fstatvfs_wf:
  assumes "fstatvfs os net b fd s = Some (i, s')" "fs_wf c s"
  shows "fs_wf c s'"
proof (cases fd s rule: grab_cases)
  case bad
  then show ?thesis using assms fs_wf_more [of "set_errno EBADF s" s c] by (auto simp: fstatvfs_def)
next
  case (good e s1)
  let ?q = "sys os (Fios (sceFiosDHGetPath (sce_uid (fdmap_pool s1 e)))) s1"
  consider t where "statvfs os b (Some (rp_str (fst ?q))) True (snd ?q) = Some (i, t)" "s' = snd (fd_drop os net e t)"
    | "s' = snd (fd_drop os net e s1)"
    using assms(1) by (auto simp: fstatvfs_def good Let_def case_prod_beta split: if_splits option.splits)
  then show ?thesis
  proof cases
    case 1
    have fr: "fs_frame s1 t" by (rule fs_frame_pre [OF _ statvfs_frame [OF 1(1)]]) simp
    show ?thesis unfolding 1(2) by (rule pinned_wf [OF good assms(2)]) (rule fs_frame_wf [OF fr])
  next
    case 2
    then show ?thesis using pinned_wf [OF good assms(2)] by simp
  qed
qed

section \<open>Reachable states\<close>

text \<open>
  A process on platform \<open>os\<close>: it starts with the descriptor table of \<open>_init_fd\<close> and an empty \<open>__cwd\<close>,
  and calls the functions of this theory and \<open>close\<close> in any order. The bytes \<open>b\<close> and \<open>junk\<close> of
  the stack may be different in every call.
\<close>

inductive fs_step ::
  "'w services \<Rightarrow> (int \<Rightarrow> int) \<Rightarrow> sdk \<Rightarrow> ('w, 'z) fs_state_scheme \<Rightarrow> ('w, 'z) fs_state_scheme \<Rightarrow> bool"
  for os net k where
  opens: "posix_open os net k b path flags arg s = Some (i, s') \<Longrightarrow> fs_step os net k s s'"
| closes: "close_fd os net fd s = (i, s') \<Longrightarrow> fs_step os net k s s'"
| mkdirs: "mkdir os net b path s = Some (i, s') \<Longrightarrow> fs_step os net k s s'"
| unlinks: "unlink os net b path s = Some (i, s') \<Longrightarrow> fs_step os net k s s'"
| rmdirs: "rmdir os net b path s = Some (i, s') \<Longrightarrow> fs_step os net k s s'"
| stats: "posix_stat os net k b path s = Some (st, s') \<Longrightarrow> fs_step os net k s s'"
| fstats: "fstat os net k fd s = (st, s') \<Longrightarrow> fs_step os net k s s'"
| accesses: "access os net k b path flags s = Some (i, s') \<Longrightarrow> fs_step os net k s s'"
| chdirs: "chdir os net k b path s = Some (i, s') \<Longrightarrow> fs_step os net k s s'"
| fchdirs: "fchdir os net k b fd s = Some (i, s') \<Longrightarrow> fs_step os net k s s'"
| getcwds: "getcwd os buf n s = (a, s') \<Longrightarrow> fs_step os net k s s'"
| chowns: "chown os net b path s = Some (i, s') \<Longrightarrow> fs_step os net k s s'"
| chmods: "chmod os net k b path mode s = Some (i, s') \<Longrightarrow> fs_step os net k s s'"
| fchmods: "fchmod os net k b fd mode s = Some (i, s') \<Longrightarrow> fs_step os net k s s'"
| utimess: "utimes os net k b junk path tv s = Some (i, s') \<Longrightarrow> fs_step os net k s s'"
| realpaths: "posix_realpath os net b path q s = Some (a, s') \<Longrightarrow> fs_step os net k s s'"
| fopens: "fopen os b path fm s = Some (a, s') \<Longrightarrow> fs_step os net k s s'"
| truncates: "posix_truncate os net name len s = (i, s') \<Longrightarrow> fs_step os net k s s'"
| statvfss: "statvfs os b path buf s = Some (v, s') \<Longrightarrow> fs_step os net k s s'"
| fstatvfss: "fstatvfs os net b fd s = Some (v, s') \<Longrightarrow> fs_step os net k s s'"
| fcntls: "fcntl os net stk fd cmd arg s = (i, s') \<Longrightarrow> fs_step os net k s s'"

inductive fs_reachable :: "'w services \<Rightarrow> (int \<Rightarrow> int) \<Rightarrow> sdk \<Rightarrow> ('w, 'z) fs_state_scheme \<Rightarrow> bool" for os net k where
  start: "cwd s = [] \<Longrightarrow> fs_reachable os net k (init_fd os s)"
| step: "fs_reachable os net k s \<Longrightarrow> fs_step os net k s s' \<Longrightarrow> fs_reachable os net k s'"

lemma close_fd_wf: "fs_wf c s \<Longrightarrow> fs_wf c (snd (close_fd os net fd s))"
proof -
  assume w: "fs_wf c s"
  have m: "libc.more (snd (close_fd os net fd s)) = libc.more (snd (release_descriptor os net fd s))"
    by (simp add: close_fd_def Let_def case_prod_beta)
  have "cwd (snd (release_descriptor os net fd s)) = cwd s"
    by (simp add: release_descriptor_eq fd_drop_eq Let_def case_prod_beta set_entry_def set_slot_def)
  moreover have "fd_safe c (snd (release_descriptor os net fd s))"
    using w release_keeps(1) [of s os net fd] release_keeps(2) [of s c _ os net fd]
    by (simp add: fs_wf_def fd_safe_def) (meson order_trans)
  ultimately show ?thesis using w unfolding fs_wf_more [OF m] by (simp add: fs_wf_def)
qed

lemma fstat_more: "fd_live s \<Longrightarrow> libc.more (snd (fstat os net k fd s)) = libc.more s"
  unfolding fstat_def by (rule with_fd_more) (simp_all add: Let_def case_prod_beta split: DescriptorTypes.splits)

lemma fcntl_wf:
  assumes "fs_wf c s"
  shows "fs_wf c (snd (fcntl os net stk fd cmd arg s))"
proof (cases "cmd = F_DUPFD")
  case True
  let ?s = "snd (duplicate_descriptor fd (uint arg) s)"
  have "cwd ?s = cwd s" by (cases rule: duplicate_cases [where fd = fd and s = s and minfd = "uint arg"]) (auto simp: set_entry_def set_slot_def)
  then have "fs_wf c ?s"
    using assms duplicate_keeps [of s fd "uint arg" c] by (simp add: fs_wf_def fd_safe_def)
  moreover have "libc.more (snd (fcntl os net stk fd cmd arg s)) \<in> {libc.more s, libc.more ?s}"
    using True by (simp add: fcntl_def Let_def case_prod_beta)
  ultimately show ?thesis using assms fs_wf_more by blast
next
  case False
  have "fd_live s" using assms fd_safe_fd_live by (auto simp: fs_wf_def)
  then have "libc.more (snd (fcntl os net stk fd cmd arg s)) = libc.more s"
    using False unfolding fcntl_def
    by (simp only: if_False) (rule with_fd_more; simp add: Let_def case_prod_beta split: sum.splits)
  then show ?thesis using assms fs_wf_more by blast
qed

lemma truncate_more: "libc.more (snd (posix_truncate os net name len s)) = libc.more s"
  by (simp add: posix_truncate_def Let_def case_prod_beta)

lemma fs_step_wf: "fs_step os net k s s' \<Longrightarrow> fs_wf c s \<Longrightarrow> fs_wf c s'"
proof (induction rule: fs_step.induct)
  case (closes fd s i s')
  then show ?case using close_fd_wf [of c s os net fd] by simp
next
  case (fstats fd s st s')
  then show ?case using fstat_more [of s os net k fd] fs_wf_more [of s' s c] fd_safe_fd_live [of c s] by (simp add: fs_wf_def)
next
  case (getcwds buf n s a s')
  then show ?case using getcwd_frame [of s os buf n] fs_frame_wf by simp
next
  case (truncates name len s i s')
  then show ?case using truncate_more [of os net name len s] fs_wf_more [of s' s c] by simp
next
  case (fcntls stk fd cmd arg s i s')
  then show ?case using fcntl_wf [of c s os net stk fd cmd arg] by simp
qed (blast intro: posix_open_wf chdir_wf fchdir_wf fchmod_wf fstatvfs_wf fs_frame_wf path_ops_frame utimes_frame
       access_frame statvfs_frame)+

lemma fs_reachable_wf: "fs_reachable os net k s \<Longrightarrow> fs_wf (\<lambda>_. 0) s"
proof (induction rule: fs_reachable.induct)
  case (start s)
  have "cwd (init_fd os s) = cwd s"
    by (simp add: init_fd_def init_std_def Let_def case_prod_beta set_entry_def set_slot_def unlock_fd_def sys_def split: prod.splits)
  then show ?case using start fd_exact_safe [OF init_exact [of os s]] by (simp add: fs_wf_def cwd_wf_def PATH_MAX_def)
qed (rule fs_step_wf)

section \<open>Properties\<close>

text \<open>A platform where everything is a directory, and one where everything is a file.\<close>

definition dir_sdk :: "bool \<Rightarrow> sdk" where
  "dir_sdk d = \<lparr>SCE_S_ISDIR = (\<lambda>_. d), SCE_S_ISREG = (\<lambda>_. \<not> d), SCE_O_NBLOCK = 4, SCE_O_EXCL = 0x800,
     SCE_CST_MODE = 1, SCE_CST_AT_MT = 6\<rparr>"

text \<open>C29 (type): in every state a process reaches by calls of the file functions in any order, on any
  platform and with any bytes below the stack arrays, the working directory is empty or names a drive, and
  is shorter than the array \<open>__cwd\<close>, so no later copy of it overflows; every open descriptor is in range
  and its entry is counted at least as often as descriptors refer to it.\<close>
theorem fs_reachable_typed:
  assumes "fs_reachable os net k s"
  shows "length (cwd s) < PATH_MAX \<and> (cwd s = [] \<or> get_drive (cwd s) \<noteq> 0) \<and>
    (\<forall>fd p. fdmap s fd = Some p \<longrightarrow> fd < MAX_OPEN_FILES \<and> p < MAX_OPEN_FILES \<and>
       int (card {fd'. fdmap s fd' = Some p}) \<le> ref_count (fdmap_pool s p))"
proof -
  have w: "cwd_wf (cwd s)" "fd_wf s" "\<And>p. 0 \<le> slack (\<lambda>_. 0) s p"
    using fs_reachable_wf [OF assms] by (simp_all add: fs_wf_def fd_safe_def)
  then show ?thesis by (auto simp: cwd_wf_def fd_wf_def slack_def occ_def)
qed

theorem fs_reachable_typed_witness:
  "fs_reachable fs_os (\<lambda>e. e) (dir_sdk True) (init_fd fs_os (fs_start [])) \<and>
   length (cwd (init_fd fs_os (fs_start []))) < PATH_MAX"
  using fs_reachable_typed [OF fs_reachable.start [of "fs_start []" fs_os "\<lambda>e. e" "dir_sdk True"]]
    fs_reachable.start [of "fs_start []" fs_os "\<lambda>e. e" "dir_sdk True"] by simp

lemma chdir_stores:
  assumes "cwd_wf (cwd s)" "placeable b (effective_cwd (cwd s)) path" "path_block os s \<noteq> 0"
    and "chdir os net k b (Some path) s = Some (0, s1)"
  shows "cwd s1 = full_name (effective_cwd (cwd s)) path"
proof -
  obtain t where t: "realpath os b (Some path) s =
      Some (Some (path_block os s, full_name (effective_cwd (cwd s)) path),
        store_string (path_block os s) (full_name (effective_cwd (cwd s)) path) t)"
    using realpath_normal [OF assms(1-3)] by blast
  show ?thesis using assms(4) by (auto simp: chdir_def with_path_def t path_fail_def Let_def case_prod_beta split: if_splits)
qed

text \<open>C30 (roundtrip): after a successful \<open>chdir\<close>, \<open>getcwd\<close> into a buffer that is long enough gives the full
  name of the directory with its final zero, and into a shorter one it fails with ERANGE and writes
  nothing.\<close>
theorem chdir_getcwd_roundtrip:
  assumes "cwd_wf (cwd s)" "placeable b (effective_cwd (cwd s)) path" "path_block os s \<noteq> 0"
    and "chdir os net k b (Some path) s = Some (0, s1)" "buf \<noteq> 0" "n \<noteq> 0"
  shows "(length (full_name (effective_cwd (cwd s)) path) < unat n \<longrightarrow>
      fst (getcwd os' buf n s1) = buf \<and>
      mem_load buf (length (full_name (effective_cwd (cwd s)) path) + 1) (mem (snd (getcwd os' buf n s1))) =
        cstring (full_name (effective_cwd (cwd s)) path)) \<and>
    (unat n \<le> length (full_name (effective_cwd (cwd s)) path) \<longrightarrow>
      fst (getcwd os' buf n s1) = 0 \<and> errno (snd (getcwd os' buf n s1)) = ERANGE \<and>
      mem (snd (getcwd os' buf n s1)) = mem s1)"
proof -
  let ?n = "full_name (effective_cwd (cwd s)) path"
  have c: "cwd s1 = ?n" by (rule chdir_stores [OF assms(1-4)])
  have "get_drive ?n \<noteq> 0" by (rule full_name_drive [OF conjunct1 [OF effective_cwd_wf [OF assms(1)]]])
  then have "?n \<noteq> []" by auto
  then have e: "effective_cwd ?n = ?n" by (simp add: effective_cwd_def)
  have "length ?n < 2 ^ 31" using assms(2) by (simp add: placeable_def PATH_MAX_def)
  then show ?thesis using assms(5,6) c e mem_load_cstring [of ?n buf "init_cwd s1"] by (simp add: getcwd_def Let_def)
qed

lemma demo_path:
  "full_name ''app0:'' ''/data/./x'' = ''app0:/data/x''" "placeable b ''app0:'' ''/data/./x''" "cwd_wf []"
proof -
  have g: "get_drive ''/data/./x'' = 0" by simp
  have sp: "path_split ''app0:'' ''/data/./x'' = (''app0:'', ''/data/./x'')" by (simp add: path_split_def app0_drive)
  show n: "full_name ''app0:'' ''/data/./x'' = ''app0:/data/x''"
    by (simp add: full_name_def sp normal_left_def canon_def canon_step_def render_def)
  show "placeable b ''app0:'' ''/data/./x''" by (simp add: placeable_def n sp resolvable_def PATH_MAX_def)
  show "cwd_wf []" by (simp add: cwd_wf_def PATH_MAX_def)
qed

lemma demo_realpath:
  obtains t where "realpath fs_os b (Some ''/data/./x'') (fs_start []) = Some (Some (0x1000, ''app0:/data/x''), t)" "errno t = 0"
  using realpath_normal [of "fs_start []" b "''/data/./x''" fs_os] demo_path(1,3) demo_path(2) [of b] by (auto simp: effective_cwd_def)

lemma demo_chdir: "\<exists>s1. chdir fs_os net (dir_sdk True) b (Some ''/data/./x'') (fs_start []) = Some (0, s1)"
proof -
  obtain t where t: "realpath fs_os b (Some ''/data/./x'') (fs_start []) = Some (Some (0x1000, ''app0:/data/x''), t)"
    by (rule demo_realpath)
  show ?thesis
    by (simp add: chdir_def with_path_def t is_dir_def dir_sdk_def Let_def case_prod_beta sys_ret_def fs_os_def)
qed

theorem chdir_getcwd_roundtrip_witness:
  "\<exists>s1. chdir fs_os (\<lambda>e. e) (dir_sdk True) (CHR ''x'') (Some ''/data/./x'') (fs_start []) = Some (0, s1) \<and>
     fst (getcwd fs_os 0x2000 0x100 s1) = 0x2000 \<and>
     mem_load 0x2000 (length ''app0:/data/x'' + 1) (mem (snd (getcwd fs_os 0x2000 0x100 s1))) = cstring ''app0:/data/x''"
proof -
  obtain s1 where s1: "chdir fs_os (\<lambda>e. e) (dir_sdk True) (CHR ''x'') (Some ''/data/./x'') (fs_start []) = Some (0, s1)"
    using demo_chdir by blast
  show ?thesis
    using chdir_getcwd_roundtrip [OF _ _ _ s1, of "0x2000" "0x100" fs_os] s1 demo_path(1,3) demo_path(2) [of "CHR ''x''"]
    by (auto simp: effective_cwd_def)
qed

text \<open>C31 (error): a path that starts with a slash and is longer than \<open>PATH_MAX\<close> is not refused: the failure of
  \<open>__resolve_path\<close> is not looked at, and \<open>unlink\<close>, \<open>rmdir\<close> and \<open>mkdir\<close> run on the root of the drive of the
  working directory.\<close>
theorem overlong_path_acts_on_root:
  assumes "cwd_wf (cwd s)" "path_block os s \<noteq> 0" "hd path = CHR ''/''" "PATH_MAX < length path"
    and "get_drive (effective_cwd (cwd s)) + 1 < PATH_MAX"
  shows "\<exists>s'. unlink os net b (Some path) s =
      Some (path_call os net sceFiosDeleteSync (path_block os s)
        (take (get_drive (effective_cwd (cwd s))) (effective_cwd (cwd s)) @ ''/'') s') \<and>
    rmdir os net b (Some path) s =
      Some (path_call os net sceFiosDirectoryDeleteSync (path_block os s)
        (take (get_drive (effective_cwd (cwd s))) (effective_cwd (cwd s)) @ ''/'') s') \<and>
    mkdir os net b (Some path) s =
      Some (path_call os net sceFiosDirectoryCreateSync (path_block os s)
        (take (get_drive (effective_cwd (cwd s))) (effective_cwd (cwd s)) @ ''/'') s')"
  using realpath_overlong [OF assms, of b] by (auto simp: unlink_def rmdir_def mkdir_def with_path_def)

theorem overlong_path_acts_on_root_witness:
  "\<exists>s'. unlink fs_os (\<lambda>e. e) (CHR ''x'') (Some (CHR ''/'' # replicate 2000 (CHR ''a''))) (fs_start []) =
     Some (path_call fs_os (\<lambda>e. e) sceFiosDeleteSync 0x1000 ''app0:/'' s')"
  using overlong_path_acts_on_root [of "fs_start []" fs_os "CHR ''/'' # replicate 2000 (CHR ''a'')" "\<lambda>e. e" "CHR ''x''"]
    demo_path(3) by (auto simp: effective_cwd_def app0_drive PATH_MAX_def)

lemma scestat_mode_bits: "st_mode (fst (scestat_to_stat os k i s)) AND S_IWRITE = 0"
proof -
  have "st_mode (fst (scestat_to_stat os k i s)) \<in> {0, 0x8000, 0x4000, 0xC000}"
    by (simp add: scestat_to_stat_def flag_if_def Let_def case_prod_beta)
  then show ?thesis by (elim insertE) simp_all
qed

lemma stat_mode_bits:
  assumes "posix_stat os net k b path s = Some ((r, Some st), s1)"
  shows "st_mode st AND S_IWRITE = 0" and "errno s1 = 0"
  using assms
  by (auto simp: posix_stat_def with_path_def path_fail_def Let_def case_prod_beta scestat_mode_bits
      split: option.splits if_splits prod.splits)

text \<open>The mode that \<open>stat\<close> gives never has a permission bit, so \<open>access\<close> with \<open>W_OK\<close> says no for
  every path that exists and is not a directory, with \<open>errno\<close> 0 from the successful \<open>stat\<close>.\<close>
lemma access_denies_write:
  assumes "posix_stat os net k b path s = Some ((r, Some st), s1)" "st_mode st AND S_IFDIR = 0" "flags AND 2 \<noteq> 0"
  shows "access os net k b path flags s = Some (- 1, s1) \<and> errno s1 = 0"
  using assms stat_mode_bits [OF assms(1)] by (simp add: access_def)

lemma access_denies_write_witness:
  "\<exists>s1. access fs_os (\<lambda>e. e) (dir_sdk False) (CHR ''x'') (Some ''/data/./x'') 2 (fs_start []) = Some (- 1, s1) \<and> errno s1 = 0"
proof -
  obtain t where t: "realpath fs_os (CHR ''x'') (Some ''/data/./x'') (fs_start []) = Some (Some (0x1000, ''app0:/data/x''), t)"
    by (rule demo_realpath)
  obtain r st s1 where s1: "posix_stat fs_os (\<lambda>e. e) (dir_sdk False) (CHR ''x'') (Some ''/data/./x'') (fs_start []) =
      Some ((r, Some st), s1)" "st_mode st AND S_IFDIR = 0"
    by (simp add: posix_stat_def with_path_def t Let_def case_prod_beta sys_ret_def fs_os_def scestat_to_stat_def dir_sdk_def flag_if_def)
  then show ?thesis using access_denies_write [OF s1, of 2] by auto
qed

end
