(* ===== verification/Posix_Dirent.thy ===== *)
theory Posix_Dirent
  imports Posix_Fs
begin

text \<open>
  Directory streams, \<^verbatim>\<open>src/dirent\<close> and \<open>__opendir_common\<close> of \<^verbatim>\<open>src/internal/vitafs.c\<close>. A \<open>DIR\<close> object is a
  record that the functions take and return; a stream is its heap address with the record, \<open>None\<close> a
  null pointer. The name in the object is the whole array \<open>d_name\<close> of 256 bytes, because \<open>readdir\<close> writes a
  part of it and leaves the rest. The outer \<open>None\<close> of a result is a write past that array.
\<close>

definition NAME_SIZE :: nat where "NAME_SIZE = 256"

record DIR =
  dir_fd :: int
  d_ino :: int
  d_name :: string
  dir_index :: int

type_synonym stream = "addr \<times> DIR"

text \<open>\<^verbatim>\<open>strncpy(buf, src, n)\<close>: at most \<open>n\<close> characters, padded with zeros up to \<open>n\<close>.\<close>

abbreviation (input) NUL :: char where "NUL \<equiv> CHR 0x00"

definition strncpy :: "string \<Rightarrow> string \<Rightarrow> nat \<Rightarrow> string" where
  "strncpy buf src n =
     (let t = take n (takeWhile (\<lambda>c. c \<noteq> NUL) src) in t @ replicate (n - length t) NUL @ drop n buf)"

text \<open>The C string an array holds.\<close>

definition array_string :: "string \<Rightarrow> string" where
  "array_string buf = takeWhile (\<lambda>c. c \<noteq> NUL) buf"

section \<open>Opening and closing\<close>

definition opendir_common ::
  "'w services \<Rightarrow> int \<Rightarrow> ('w, 'z) libc_scheme \<Rightarrow> stream option \<times> ('w, 'z) libc_scheme" where
  "opendir_common os fd s =
     (let (r, s) = sys os (Heap (calloc 1 (of_nat (12 + NAME_SIZE)))) s; p = word_of_int (rp_ret r) in
      if p = 0 then (None, set_errno ENOMEM s)
      else (Some (p, \<lparr>dir_fd = fd, d_ino = 0, d_name = replicate NAME_SIZE NUL, dir_index = 0\<rparr>), set_errno 0 s))"

definition opendir ::
  "'w services \<Rightarrow> (int \<Rightarrow> int) \<Rightarrow> sdk \<Rightarrow> char \<Rightarrow> int \<Rightarrow> string option \<Rightarrow> ('w, 'z) fs_state_scheme \<Rightarrow>
     (stream option \<times> ('w, 'z) fs_state_scheme) may" where
  "opendir os net k below junk dirname s =
     (case posix_open os net k below dirname (O_RDONLY OR O_DIRECTORY) junk s of
        None \<Rightarrow> None
      | Some (fd, s) \<Rightarrow>
          if fd = - 1 then Some (None, s)
          else
            (case opendir_common os fd s of
               (None, s) \<Rightarrow> Some (None, snd (close_fd os net fd s))
             | (Some d, s) \<Rightarrow> Some (Some d, s)))"

definition fdopendir ::
  "'w services \<Rightarrow> (int \<Rightarrow> int) \<Rightarrow> int \<Rightarrow> ('w, 'z) fd_state_scheme \<Rightarrow> stream option \<times> ('w, 'z) fd_state_scheme" where
  "fdopendir os net fd s =
     with_fd os net fd
       (\<lambda>s. (None, set_errno EBADF s))
       (\<lambda>d s. (dtype d, s))
       (\<lambda>t s. if t \<noteq> VITA_DESCRIPTOR_DIRECTORY then (None, set_errno ENOTDIR s) else opendir_common os fd s) s"

definition closedir ::
  "'w services \<Rightarrow> (int \<Rightarrow> int) \<Rightarrow> stream option \<Rightarrow> ('w, 'z) fd_state_scheme \<Rightarrow> int \<times> ('w, 'z) fd_state_scheme" where
  "closedir os net dirp s =
     (case dirp of
        None \<Rightarrow> (- 1, set_errno EBADF s)
      | Some (p, d) \<Rightarrow>
          if dir_fd d = 0 then (- 1, set_errno EBADF s)
          else
            (let (res, s) = close_fd os net (dir_fd d) s; s = heap_free os p s in
             if res < 0 then (- 1, s) else (0, set_errno 0 s)))"

definition dirfd :: "stream option \<Rightarrow> ('w, 'z) libc_scheme \<Rightarrow> int \<times> ('w, 'z) libc_scheme" where
  "dirfd dirp s = (case dirp of None \<Rightarrow> (- 1, set_errno EINVAL s) | Some (p, d) \<Rightarrow> (dir_fd d, s))"

definition telldir :: "stream option \<Rightarrow> ('w, 'z) libc_scheme \<Rightarrow> int \<times> ('w, 'z) libc_scheme" where
  "telldir dirp s = (case dirp of None \<Rightarrow> (- 1, set_errno EBADF s) | Some (p, d) \<Rightarrow> (dir_index d, s))"

section \<open>Reading\<close>

text \<open>
  The directory entry \<open>tempdir\<close> after the platform call is the reply: the length of the name, the
  offset of the name, and the characters of \<open>fullPath\<close>. The first result is whether an entry was
  returned; the copy runs before the test for the end of the listing.
\<close>

definition copy_name :: "reply \<Rightarrow> string \<Rightarrow> string may" where
  "copy_name r buf =
     (let n = nat (take_bit 16 (outp r 0 0)); off = nat (take_bit 16 (outp r 1 0)) in
      if n > NAME_SIZE then None else Some (strncpy buf (drop off (rp_str r)) n))"

definition readdir ::
  "'w services \<Rightarrow> (int \<Rightarrow> int) \<Rightarrow> stream option \<Rightarrow> ('w, 'z) fd_state_scheme \<Rightarrow>
     ((bool \<times> stream option) \<times> ('w, 'z) fd_state_scheme) may" where
  "readdir os net dirp s =
     (case dirp of
        None \<Rightarrow> Some ((False, None), set_errno EBADF s)
      | Some (p, d) \<Rightarrow>
          (let (x, s) =
             with_fd os net (dir_fd d)
               (\<lambda>s. (None, set_errno EBADF s))
               (\<lambda>e. sys os (Fios (sceFiosDHReadSync (sce_uid e))))
               (\<lambda>r s. if rp_ret r < 0 then (None, set_errno (sce_errno_to_errno net (rp_ret r) ERROR_FIOS) s)
                      else (Some r, s)) s
           in case x of
                None \<Rightarrow> Some ((False, dirp), s)
              | Some r \<Rightarrow>
                  (case copy_name r (d_name d) of
                     None \<Rightarrow> None
                   | Some name \<Rightarrow>
                       (let d = d\<lparr>d_ino := 0, d_name := name\<rparr> in
                        if rp_ret r = 0 then Some ((False, Some (p, d)), s)
                        else Some ((True, Some (p, d\<lparr>dir_index := cint (dir_index d + 1)\<rparr>)), s)))))"

text \<open>The reentrant form: the result, the entry copied out, and the stream.\<close>

definition readdir_r ::
  "'w services \<Rightarrow> (int \<Rightarrow> int) \<Rightarrow> stream option \<Rightarrow> ('w, 'z) fd_state_scheme \<Rightarrow>
     ((int \<times> string option \<times> stream option) \<times> ('w, 'z) fd_state_scheme) may" where
  "readdir_r os net dirp s =
     (case readdir os net dirp (set_errno 0 s) of
        None \<Rightarrow> None
      | Some ((got, dirp), s) \<Rightarrow>
          if errno s \<noteq> 0 \<and> \<not> got then Some ((errno s, None, dirp), s)
          else Some ((0, if got then map_option (\<lambda>(p, d). d_name d) dirp else None, dirp), s))"

section \<open>Positions\<close>

text \<open>
  \<open>rewinddir\<close> opens the directory of the entry again and puts the new handle into the entry, which all
  duplicates of the descriptor share.
\<close>

definition rewinddir ::
  "'w services \<Rightarrow> (int \<Rightarrow> int) \<Rightarrow> stream option \<Rightarrow> ('w, 'z) fd_state_scheme \<Rightarrow>
     stream option \<times> ('w, 'z) fd_state_scheme" where
  "rewinddir os net dirp s =
     (case dirp of
        None \<Rightarrow> (None, set_errno EBADF s)
      | Some (p, d) \<Rightarrow>
          (case fd_grab (dir_fd d) s of
             (None, s) \<Rightarrow> (dirp, set_errno EBADF s)
           | (Some e, s) \<Rightarrow>
               (let old = sce_uid (fdmap_pool s e);
                    (q, s) = sys os (Fios (sceFiosDHGetPath old)) s;
                    (h, s) = open_handle os (sceFiosDHOpenSync (rp_str q)) s
                in if h < 0 then
                     (dirp, set_errno (sce_errno_to_errno net h ERROR_FIOS) (snd (fd_drop os net e s)))
                   else
                     (let (c, s) = sys os (Fios (sceFiosDHCloseSync old)) s;
                          s = set_entry e ((fdmap_pool s e)\<lparr>sce_uid := h\<rparr>) s;
                          s = snd (fd_drop os net e s)
                      in (Some (p, d\<lparr>dir_index := 0\<rparr>), set_errno 0 s)))))"

text \<open>The loop of \<open>seekdir\<close> reads forward until the index matches or the listing ends.\<close>

partial_function (option) seek_loop ::
  "'w services \<Rightarrow> (int \<Rightarrow> int) \<Rightarrow> int \<Rightarrow> stream \<Rightarrow> ('w, 'z) fd_state_scheme \<Rightarrow>
     (stream \<times> ('w, 'z) fd_state_scheme) option" where
  "seek_loop os net index dirp s =
     (if index = dir_index (snd dirp) then Some (dirp, s)
      else
        (case readdir os net (Some dirp) s of
           None \<Rightarrow> None
         | Some ((got, d), s) \<Rightarrow>
             if got then seek_loop os net index (case d of Some d \<Rightarrow> d | None \<Rightarrow> dirp) s
             else Some (case d of Some d \<Rightarrow> d | None \<Rightarrow> dirp, set_errno ENOENT s)))"

declare seek_loop.simps [code]

definition seekdir ::
  "'w services \<Rightarrow> (int \<Rightarrow> int) \<Rightarrow> stream option \<Rightarrow> int \<Rightarrow> ('w, 'z) fd_state_scheme \<Rightarrow>
     (stream option \<times> ('w, 'z) fd_state_scheme) option" where
  "seekdir os net dirp index s =
     (case dirp of
        None \<Rightarrow> Some (None, set_errno EBADF s)
      | Some (p, d) \<Rightarrow>
          (let (dirp, s) = (if index < dir_index d then rewinddir os net dirp s else (dirp, s)) in
           case dirp of
             None \<Rightarrow> None
           | Some (p, d) \<Rightarrow>
               if index < dir_index d then Some (Some (p, d), s)
               else map_option (\<lambda>(d, s). (Some d, s)) (seek_loop os net index (p, d) s)))"

section \<open>Scanning\<close>

text \<open>
  The loop of \<open>scandir\<close>. \<open>names\<close> are the copies made so far, each a heap block with the array \<open>d_name\<close>;
  \<open>arr\<close> and \<open>cap\<close> are the block that holds the pointers and its capacity. The selection function is a
  predicate on the name array, \<open>None\<close> when it is null.
\<close>

definition grow_names ::
  "'w services \<Rightarrow> nat \<Rightarrow> addr \<Rightarrow> nat \<Rightarrow> ('w, 'z) libc_scheme \<Rightarrow> (addr \<times> nat) option \<times> ('w, 'z) libc_scheme" where
  "grow_names os cnt arr cap s =
     (if cnt \<ge> cap then
        (let cap = 2 * cap + 1 in
         if cap > (2 ^ 32 - 1) div 4 then (None, s)
         else
           (let (r, s) = sys os (Heap (realloc arr (of_nat (cap * 4)))) s; tmp = word_of_int (rp_ret r) in
            if tmp = 0 then (None, s) else (Some (tmp, cap), s)))
      else (Some (arr, cap), s))"

partial_function (option) scan_loop ::
  "'w services \<Rightarrow> (int \<Rightarrow> int) \<Rightarrow> (string \<Rightarrow> bool) option \<Rightarrow> stream \<Rightarrow> (addr \<times> string) list \<Rightarrow> addr \<Rightarrow> nat \<Rightarrow>
     ('w, 'z) fd_state_scheme \<Rightarrow> (((addr \<times> string) list \<times> addr \<times> stream) \<times> ('w, 'z) fd_state_scheme) option" where
  "scan_loop os net sel dirp names arr cap s =
     (case readdir os net (Some dirp) (set_errno 0 s) of
        None \<Rightarrow> None
      | Some ((got, d), s) \<Rightarrow>
          (let dirp = (case d of Some d \<Rightarrow> d | None \<Rightarrow> dirp); de = d_name (snd dirp) in
           if \<not> got then Some ((names, arr, dirp), s)
           else if (case sel of None \<Rightarrow> False | Some f \<Rightarrow> \<not> f de) then scan_loop os net sel dirp names arr cap s
           else
             (case grow_names os (length names) arr cap s of
                (None, s) \<Rightarrow> Some ((names, arr, dirp), s)
              | (Some (arr, cap), s) \<Rightarrow>
                  (let (r, s) = sys os (Heap (malloc (of_nat (4 + NAME_SIZE)))) s; p = word_of_int (rp_ret r) in
                   if p = 0 then Some ((names, arr, dirp), s)
                   else scan_loop os net sel dirp (names @ [(p, de)]) arr cap s))))"

declare scan_loop.simps [code]

text \<open>\<open>qsort\<close> with the caller's comparison is the parameter \<open>srt\<close>, the identity when the comparison is null.\<close>

definition scandir ::
  "'w services \<Rightarrow> (int \<Rightarrow> int) \<Rightarrow> sdk \<Rightarrow> char \<Rightarrow> int \<Rightarrow> string option \<Rightarrow> (string \<Rightarrow> bool) option \<Rightarrow>
     ((addr \<times> string) list \<Rightarrow> (addr \<times> string) list) \<Rightarrow> ('w, 'z) fs_state_scheme \<Rightarrow>
     ((int \<times> (addr \<times> string) list option) \<times> ('w, 'z) fs_state_scheme) option" where
  "scandir os net k below junk path sel srt s =
     (case opendir os net k below junk path s of
        None \<Rightarrow> None
      | Some (None, s) \<Rightarrow> Some ((- 1, None), s)
      | Some (Some d, s) \<Rightarrow>
          (let old_errno = errno s in
           case scan_loop os net sel d [] 0 0 s of
             None \<Rightarrow> None
           | Some ((names, arr, d), s) \<Rightarrow>
               (let s = snd (closedir os net (Some d) s) in
                if errno s \<noteq> 0 then
                  Some ((- 1, None), heap_free os arr (fold (\<lambda>(p, n) s. heap_free os p s) (rev names) s))
                else Some ((int (length names), Some (srt names)), set_errno old_errno s))))"

text \<open>
  The error test comes after \<open>closedir\<close>, which clears \<open>errno\<close>: a read error ends the scan and the entries
  read before it are returned as if the listing were complete.
\<close>

lemma scandir_hides_read_error:
  assumes "opendir os net k b junk path s = Some (Some (p, d), s1)"
    and "readdir os net (Some (p, d)) (set_errno 0 s1) = Some ((False, Some (p, d)), s2)" "errno s2 \<noteq> 0"
    and "dir_fd d \<noteq> 0" "fst (close_fd os net (dir_fd d) s2) = 0"
  shows "\<exists>s'. scandir os net k b junk path sel srt s = Some ((0, Some (srt [])), s') \<and> errno s' = errno s1"
  using assms
  by (simp add: scandir_def scan_loop.simps closedir_def Let_def case_prod_beta)

section \<open>Reading an open stream\<close>

text \<open>The entry behind an open descriptor, and the platform call that reads from it.\<close>

definition dir_call :: "DIR \<Rightarrow> ('w, 'z) fd_state_scheme \<Rightarrow> sce_call" where
  "dir_call d s = Fios (sceFiosDHReadSync (sce_uid (fdmap_pool s (the (fdmap s (nat (dir_fd d)))))))"

lemma dir_call_more: "libc.more s' = libc.more s \<Longrightarrow> dir_call d s' = dir_call d s"
  using more_fdmap [of s' s] by (simp add: dir_call_def)

lemma valid_more: "libc.more s' = libc.more s \<Longrightarrow> is_fd_valid fd s' = is_fd_valid fd s"
  using more_fdmap [of s' s] by (simp add: is_fd_valid_def)

lemma readdir_open:
  assumes "fd_live s" "is_fd_valid (dir_fd d) s"
  shows "readdir os net (Some (p, d)) s =
    (let (r, s') = sys os (dir_call d s) s in
     if rp_ret r < 0 then Some ((False, Some (p, d)), set_errno (sce_errno_to_errno net (rp_ret r) ERROR_FIOS) s')
     else case copy_name r (d_name d) of
       None \<Rightarrow> None
     | Some name \<Rightarrow>
         if rp_ret r = 0 then Some ((False, Some (p, d\<lparr>d_ino := 0, d_name := name\<rparr>)), s')
         else Some ((True, Some (p, d\<lparr>d_ino := 0, d_name := name, dir_index := cint (dir_index d + 1)\<rparr>)), s'))"
proof -
  have blind: "table_blind (\<lambda>e. sys os (Fios (sceFiosDHReadSync (sce_uid e))) ::
      ('a, 'b) fd_state_scheme \<Rightarrow> reply \<times> ('a, 'b) fd_state_scheme)"
    by (simp add: table_blind_def sys_set_entry)
  show ?thesis
    by (simp add: readdir_def with_fd_valid [OF assms blind] Let_def case_prod_beta dir_call_def split: option.split)
qed

lemma strncpy_short:
  assumes "NUL \<notin> set src" "n \<le> length src"
  shows "strncpy buf src n = take n src @ drop n buf"
proof -
  have "takeWhile (\<lambda>c. c \<noteq> NUL) src = src" using assms(1) by (intro takeWhile_eq_all_conv [THEN iffD2]) auto
  then show ?thesis using assms(2) by (simp only: strncpy_def Let_def) simp
qed

text \<open>An entry as the platform gives it: \<open>name\<close> at the end of the full path.\<close>

definition entry_reply :: "string \<Rightarrow> string \<Rightarrow> reply" where
  "entry_reply dir name =
     \<lparr>rp_ret = 1, rp_out = [int (length name), int (length dir)], rp_str = dir @ name, rp_writes = []\<rparr>"

lemma copy_entry:
  assumes "NUL \<notin> set name" "length name \<le> NAME_SIZE" "length dir < 2 ^ 16"
  shows "copy_name (entry_reply dir name) buf = Some (name @ drop (length name) buf)"
  using assms strncpy_short [of name "length name" buf]
  by (simp add: copy_name_def entry_reply_def outp_def NAME_SIZE_def take_bit_int_eq_self)

section \<open>Properties\<close>

text \<open>\<open>readdir\<close> copies the name without its final zero into the array of the stream, so after a longer
  name the caller reads the new name followed by the tail of the old one.\<close>
lemma readdir_keeps_old_tail:
  assumes "fd_live s" "is_fd_valid (dir_fd d) s"
    and "fst (os (dir_call d s) (world s)) = entry_reply dir name"
    and "NUL \<notin> set name" "length name \<le> NAME_SIZE" "length dir < 2 ^ 16"
  shows "\<exists>d' s'. readdir os net (Some (p, d)) s = Some ((True, Some (p, d')), s') \<and>
    d_name d' = name @ drop (length name) (d_name d) \<and>
    array_string (d_name d') = name @ array_string (drop (length name) (d_name d))"
proof -
  have "fst (sys os (dir_call d s) s) = entry_reply dir name" using assms(3) by (simp add: fst_sys_world)
  moreover have "rp_ret (entry_reply dir name) = 1" by (simp add: entry_reply_def)
  moreover have "array_string (name @ x) = name @ array_string x" for x
    using assms(4) unfolding array_string_def by (subst takeWhile_append2) auto
  ultimately show ?thesis
    using assms(4-6) by (simp add: readdir_open [OF assms(1,2)] copy_entry Let_def case_prod_beta)
qed

text \<open>A platform that lists one entry, and a process whose descriptor 3 is a directory.\<close>

definition one_entry_os :: "sce_call \<Rightarrow> nat \<Rightarrow> reply \<times> nat" where
  "one_entry_os c w = (if w = 0 then (ret_reply 0, 0) else (entry_reply ''ux0:/'' ''ab'', w - 1))"

definition dir_state :: "nat \<Rightarrow> nat fd_state" where
  "dir_state w = \<lparr>errno = 0, mem = (\<lambda>_. 0), world = w, fdmap = [3 \<mapsto> 0],
     fdmap_pool = (\<lambda>_. \<lparr>sce_uid = 7, dtype = VITA_DESCRIPTOR_DIRECTORY, ref_count = 1\<rparr>),
     fd_mutex = 0, sdidinit = True, stdio_bound = True\<rparr>"

definition demo_dir :: "string \<Rightarrow> DIR" where
  "demo_dir name = \<lparr>dir_fd = 3, d_ino = 0, d_name = name @ replicate (NAME_SIZE - length name) NUL, dir_index = 1\<rparr>"

lemma dir_state_ok: "fd_live (dir_state w)" "is_fd_valid 3 (dir_state w)"
  by (simp_all add: fd_live_def dir_state_def is_fd_valid_def MAX_OPEN_FILES_def)

lemma dir_demo_simps [simp]:
  "world (dir_state w) = w" "dir_fd (demo_dir n) = 3" "dir_index (demo_dir n) = 1"
  "fst (one_entry_os c (Suc w)) = entry_reply ''ux0:/'' ''ab''"
  by (simp_all add: dir_state_def demo_dir_def one_entry_os_def)

lemma readdir_keeps_old_tail_witness:
  "\<exists>d' s'. readdir one_entry_os (\<lambda>e. e) (Some (0x1000, demo_dir ''longname'')) (dir_state 1) = Some ((True, Some (0x1000, d')), s') \<and>
     array_string (d_name d') = ''abngname''"
proof -
  have "drop (length ''ab'') (d_name (demo_dir ''longname'')) = ''ngname'' @ replicate 248 NUL"
    by (simp add: demo_dir_def NAME_SIZE_def)
  then have a: "''ab'' @ array_string (drop (length ''ab'') (d_name (demo_dir ''longname''))) = ''abngname''"
    by (simp add: array_string_def)
  have "is_fd_valid (dir_fd (demo_dir ''longname'')) (dir_state 1)" by (simp add: dir_state_ok)
  from readdir_keeps_old_tail [OF dir_state_ok(1) this, of one_entry_os "''ux0:/''" "''ab''" "\<lambda>e. e" "0x1000"]
  show ?thesis unfolding a by (auto simp: NAME_SIZE_def)
qed

text \<open>What the platform promises for a listing with \<open>remaining w\<close> entries to come.\<close>

definition lists :: "'w services \<Rightarrow> sce_call \<Rightarrow> ('w \<Rightarrow> nat) \<Rightarrow> bool" where
  "lists os c remaining \<longleftrightarrow>
     (\<forall>w. (if remaining w = 0 then rp_ret (fst (os c w)) = 0
           else 0 < rp_ret (fst (os c w)) \<and> Suc (remaining (snd (os c w))) = remaining w) \<and>
          nat (take_bit 16 (outp (fst (os c w)) 0 0)) \<le> NAME_SIZE)"

lemma seek_loop_reaches:
  assumes "fd_live s" "is_fd_valid (dir_fd d) s" "lists os (dir_call d s) remaining"
    and "- (2 ^ 31) \<le> dir_index d" "dir_index d \<le> index" "index < 2 ^ 31"
  shows "\<exists>d' s'. seek_loop os net index (p, d) s = Some ((p, d'), s') \<and>
    (if index - dir_index d \<le> int (remaining (world s)) then dir_index d' = index
     else dir_index d' = dir_index d + int (remaining (world s)) \<and> errno s' = ENOENT)"
  using assms
proof (induction "nat (index - dir_index d)" arbitrary: d s)
  case 0
  then show ?case by (simp add: seek_loop.simps)
next
  case (Suc k)
  then have ne: "index \<noteq> dir_index d" "dir_index d < index" by auto
  let ?c = "dir_call d s" and ?s = "snd (sys os (dir_call d s) s)"
  let ?r = "fst (os ?c (world s))"
  obtain name where name: "copy_name ?r (d_name d) = Some name"
    using Suc.prems(3) by (auto simp: lists_def copy_name_def Let_def not_less)
  have rd: "readdir os net (Some (p, d)) s =
      (if rp_ret ?r = 0 then Some ((False, Some (p, d\<lparr>d_ino := 0, d_name := name\<rparr>)), ?s)
       else Some ((True, Some (p, d\<lparr>d_ino := 0, d_name := name, dir_index := cint (dir_index d + 1)\<rparr>)), ?s))"
  proof -
    have "\<not> rp_ret ?r < 0" using Suc.prems(3) by (auto simp: lists_def dest: spec [of _ "world s"] split: if_splits)
    then show ?thesis
      using name by (simp add: readdir_open [OF Suc.prems(1,2)] Let_def case_prod_beta fst_sys_world sys_ret_def)
  qed
  show ?case
  proof (cases "remaining (world s) = 0")
    case True
    then have "rp_ret ?r = 0" using Suc.prems(3) by (simp add: lists_def)
    then show ?thesis using ne True by (simp add: seek_loop.simps [of os net index "(p, d)"] rd)
  next
    case False
    then have r: "rp_ret ?r \<noteq> 0" "Suc (remaining (world ?s)) = remaining (world s)"
      using Suc.prems(3) by (auto simp: lists_def dest: spec [of _ "world s"])
    let ?d = "d\<lparr>d_ino := 0, d_name := name, dir_index := dir_index d + 1\<rparr>"
    have c: "cint (dir_index d + 1) = dir_index d + 1" using ne Suc.prems(4,6) by (intro cint_id) auto
    have more: "libc.more ?s = libc.more s" by simp
    obtain d' s' where ih: "seek_loop os net index (p, ?d) ?s = Some ((p, d'), s')"
      and pos: "if index - (dir_index d + 1) \<le> int (remaining (world ?s)) then dir_index d' = index
         else dir_index d' = dir_index d + 1 + int (remaining (world ?s)) \<and> errno s' = ENOENT"
    proof -
      have "\<exists>d' s'. seek_loop os net index (p, ?d) ?s = Some ((p, d'), s') \<and>
        (if index - dir_index ?d \<le> int (remaining (world ?s)) then dir_index d' = index
         else dir_index d' = dir_index ?d + int (remaining (world ?s)) \<and> errno s' = ENOENT)"
    proof (rule Suc.hyps(1))
      show "k = nat (index - dir_index ?d)" using Suc.hyps(2) by simp
      show "fd_live ?s" by (rule fd_live_more [OF more Suc.prems(1)])
      show "is_fd_valid (dir_fd ?d) ?s" using Suc.prems(2) valid_more [OF more] by simp
      show "lists os (dir_call ?d ?s) remaining"
        using Suc.prems(3) dir_call_more [OF more, of d] by (simp add: dir_call_def)
    qed (use ne Suc.prems in auto)
      then show thesis using that by auto
    qed
    have "seek_loop os net index (p, d) s = Some ((p, d'), s')"
      using ne r(1) ih by (simp add: seek_loop.simps [of os net index "(p, d)"] rd c)
    moreover have "int (remaining (world s)) = int (remaining (world ?s)) + 1" using r(2) by simp
    then have "if index - dir_index d \<le> int (remaining (world s)) then dir_index d' = index
         else dir_index d' = dir_index d + int (remaining (world s)) \<and> errno s' = ENOENT"
      using pos by (auto split: if_splits)
    ultimately show ?thesis by blast
  qed
qed

text \<open>C32 (liveness): on a directory with finitely many entries to come, \<open>seekdir\<close> to a position at or after the
  current one returns: at that position when enough entries are left, otherwise at the end of the
  listing with ENOENT.\<close>
theorem seekdir_arrives:
  assumes "fd_live s" "is_fd_valid (dir_fd d) s" "lists os (dir_call d s) remaining"
    and "0 \<le> dir_index d" "dir_index d \<le> index" "index < 2 ^ 31"
  shows "\<exists>d' s'. seekdir os net (Some (p, d)) index s = Some (Some (p, d'), s') \<and>
    (if index - dir_index d \<le> int (remaining (world s)) then dir_index d' = index
     else dir_index d' = dir_index d + int (remaining (world s)) \<and> errno s' = ENOENT)"
  using seek_loop_reaches [OF assms(1-3) _ assms(5,6), of net p] assms(4,5)
  by (auto simp: seekdir_def)

lemma one_entry_lists: "lists one_entry_os c (\<lambda>w. w)"
  by (simp add: lists_def one_entry_os_def entry_reply_def outp_def NAME_SIZE_def ret_reply_def)

theorem seekdir_arrives_witness:
  "\<exists>d' s'. seekdir one_entry_os (\<lambda>e. e) (Some (0x1000, demo_dir [])) 4 (dir_state 5) = Some (Some (0x1000, d'), s') \<and>
     dir_index d' = 4"
  using seekdir_arrives [of "dir_state 5" "demo_dir []" one_entry_os "\<lambda>w. w" 4 "\<lambda>e. e" "0x1000"]
    dir_state_ok [of 5] one_entry_lists by simp

end
