(* ===== verification/Net_Socket.thy ===== *)
theory Net_Socket
  imports Unistd_Fd
begin

text \<open>
  Sockets, \<^verbatim>\<open>src/network\<close>, and the start of the network service, \<^verbatim>\<open>src/internal/vitanet.c\<close>. The functions
  grab the entry of the descriptor, make one call of SceNet on its handle, whatever the type of the entry, and
  translate the result. The codes of the SDK that \<open>_net_init\<close> compares with are the parameter \<open>nk\<close>.
\<close>

record net_sdk =
  SCE_SYSMODULE_LOADED :: int
  SCE_NET_ENOMEM :: int
  SCE_NET_ERROR_EBUSY :: int
  SCE_NET_EPOLLIN :: int
  SCE_NET_EPOLLOUT :: int
  SCE_NET_EPOLLERR :: int
  SCE_NET_EPOLLHUP :: int

record 'w net_state = "'w fd_state" +
  net_memory :: addr
  net_initialized :: bool

section \<open>The network service\<close>

text \<open>The macro is not in parentheses, but is only used as an argument and in an assignment.\<close>

definition NET_MEM_SIZE :: size_t where
  "NET_MEM_SIZE = 128 * 1024 + (4 + 3 + 4) * 1024 + 1300"

definition SCE_NET_CTL_ERROR_NOT_TERMINATED :: int where
  "SCE_NET_CTL_ERROR_NOT_TERMINATED = cint 0x80412102"

definition net_ctl_init ::
  "'w services \<Rightarrow> ('w, 'z) net_state_scheme \<Rightarrow> int \<times> ('w, 'z) net_state_scheme" where
  "net_ctl_init os s =
     (let (r, s) = sys os (Net sceNetCtlInit) s; ret = rp_ret r in
      if ret < 0 \<and> ret \<noteq> SCE_NET_CTL_ERROR_NOT_TERMINATED then
        (ret, if net_memory s \<noteq> 0
              then snd (sys os (Heap (free (net_memory s))) (snd (sys os (Net sceNetTerm) s)))
              else s)
      else (0, s))"

definition net_init ::
  "'w services \<Rightarrow> net_sdk \<Rightarrow> ('w, 'z) net_state_scheme \<Rightarrow> int \<times> ('w, 'z) net_state_scheme" where
  "net_init os nk s =
     (if net_initialized s then (0, s)
      else
        (let s = s\<lparr>net_initialized := True\<rparr>;
             (l, s) = sys os (Net sceSysmoduleIsLoadedNet) s;
             (m, s) = (if rp_ret l \<noteq> SCE_SYSMODULE_LOADED nk then sys os (Net sceSysmoduleLoadModuleNet) s
                       else (ret_reply 0, s))
         in if rp_ret m < 0 then (rp_ret m, s)
            else
              (let (b, s) = sys os (Heap (malloc NET_MEM_SIZE)) s;
                   s = s\<lparr>net_memory := word_of_int (rp_ret b)\<rparr>
               in if net_memory s = 0 then (SCE_NET_ENOMEM nk, s)
                  else
                    (let (r, s) = sys os (Net (sceNetInit (net_memory s) NET_MEM_SIZE)) s; ret = rp_ret r in
                     if ret < 0 then
                       (let s = (snd (sys os (Heap (free (net_memory s))) s))\<lparr>net_memory := 0\<rparr> in
                        if ret \<noteq> SCE_NET_ERROR_EBUSY nk then (ret, s) else net_ctl_init os s)
                     else net_ctl_init os s))))"

section \<open>One call on a socket\<close>

definition sock_result ::
  "(int \<Rightarrow> int) \<Rightarrow> (int \<Rightarrow> int) \<Rightarrow> reply \<Rightarrow> ('w, 'z) libc_scheme \<Rightarrow> int \<times> ('w, 'z) libc_scheme" where
  "sock_result net f r s =
     (if rp_ret r < 0 then (- 1, set_errno (scenet_errno_to_errno net (rp_ret r)) s) else (f (rp_ret r), s))"

definition sock_call ::
  "'w services \<Rightarrow> (int \<Rightarrow> int) \<Rightarrow> int \<Rightarrow> (int \<Rightarrow> net_call) \<Rightarrow> (int \<Rightarrow> int) \<Rightarrow> ('w, 'z) fd_state_scheme \<Rightarrow>
     int \<times> ('w, 'z) fd_state_scheme" where
  "sock_call os net fd c f s =
     with_fd os net fd
       (\<lambda>s. (- 1, set_errno EBADF s))
       (\<lambda>d. sys os (Net (c (sce_uid d))))
       (sock_result net f) s"

definition bind where
  "bind os net fd a n s = sock_call os net fd (\<lambda>u. sceNetBind u (mem_load a n (mem s))) (\<lambda>_. 0) s"

definition connect where
  "connect os net fd a n s = sock_call os net fd (\<lambda>u. sceNetConnect u (mem_load a n (mem s))) (\<lambda>_. 0) s"

definition listen where
  "listen os net fd backlog s =
     sock_call os net fd (\<lambda>u. sceNetListen u (if backlog < 1 then 1 else backlog)) (\<lambda>_. 0) s"

definition shutdown where
  "shutdown os net fd how s = sock_call os net fd (\<lambda>u. sceNetShutdown u how) (\<lambda>_. 0) s"

definition getsockname where
  "getsockname os net fd a alen s = sock_call os net fd (\<lambda>u. sceNetGetsockname u a alen) (\<lambda>_. 0) s"

definition getpeername where
  "getpeername os net fd a alen s = sock_call os net fd (\<lambda>u. sceNetGetpeername u a alen) (\<lambda>_. 0) s"

definition send where
  "send os net fd buf n flags s = sock_call os net fd (\<lambda>u. sceNetSend u (mem_load buf (unat n) (mem s)) flags) (\<lambda>r. r) s"

definition recv where
  "recv os net fd buf n flags s = sock_call os net fd (\<lambda>u. sceNetRecv u buf n flags) (\<lambda>r. r) s"

definition sendto where
  "sendto os net fd buf n flags a alen s =
     sock_call os net fd (\<lambda>u. sceNetSendto u (mem_load buf (unat n) (mem s)) flags (mem_load a alen (mem s))) (\<lambda>r. r) s"

definition recvfrom where
  "recvfrom os net fd buf n flags a alen s = sock_call os net fd (\<lambda>u. sceNetRecvfrom u buf n flags a alen) (\<lambda>r. r) s"

definition sendmsg where
  "sendmsg os net fd msg flags s = sock_call os net fd (\<lambda>u. sceNetSendmsg u msg flags) (\<lambda>r. r) s"

definition recvmsg where
  "recvmsg os net fd msg flags s = sock_call os net fd (\<lambda>u. sceNetRecvmsg u msg flags) (\<lambda>r. r) s"

section \<open>New descriptors\<close>

text \<open>The end of \<open>socket\<close> and \<open>accept\<close>: when no descriptor is free the platform socket stays open.\<close>

definition publish_socket ::
  "int \<Rightarrow> ('w, 'z) fd_state_scheme \<Rightarrow> int \<times> ('w, 'z) fd_state_scheme" where
  "publish_socket res s =
     (let (fd, s) = acquire_descriptor s in
      if fd < 0 then (- 1, set_errno EMFILE s) else (fd, publish fd res VITA_DESCRIPTOR_SOCKET s))"

definition socket ::
  "'w services \<Rightarrow> (int \<Rightarrow> int) \<Rightarrow> net_sdk \<Rightarrow> int \<Rightarrow> int \<Rightarrow> int \<Rightarrow> ('w, 'z) net_state_scheme \<Rightarrow>
     int \<times> ('w, 'z) net_state_scheme" where
  "socket os net nk domain ty protocol s =
     (let (_, s) = net_init os nk s;
          (r, s) = sys os (Net (sceNetSocket [] domain ty protocol)) s; res = rp_ret r
      in if res < 0 then (- 1, set_errno (scenet_errno_to_errno net res) s) else publish_socket res s)"

definition accept ::
  "'w services \<Rightarrow> (int \<Rightarrow> int) \<Rightarrow> int \<Rightarrow> addr \<Rightarrow> addr \<Rightarrow> ('w, 'z) fd_state_scheme \<Rightarrow> int \<times> ('w, 'z) fd_state_scheme" where
  "accept os net fd a alen s =
     with_fd os net fd
       (\<lambda>s. (- 1, set_errno EBADF s))
       (\<lambda>d. sys os (Net (sceNetAccept (sce_uid d) a alen)))
       (\<lambda>r s. if rp_ret r < 0 then (- 1, set_errno (scenet_errno_to_errno net (rp_ret r)) s)
              else publish_socket (rp_ret r) s) s"

section \<open>Options\<close>

text \<open>
  A timeout option is a \<^verbatim>\<open>struct timeval\<close> for the caller, of \<open>tvsz\<close> bytes, and an int of microseconds for the
  platform. The structure is passed and returned as a pair of seconds and microseconds.
\<close>

abbreviation (input) SO_SNDTIMEO :: int where "SO_SNDTIMEO \<equiv> 0x1005"
abbreviation (input) SO_RCVTIMEO :: int where "SO_RCVTIMEO \<equiv> 0x1006"

definition timeval_wait :: "int \<times> int \<Rightarrow> int" where
  "timeval_wait tv = cint (fst tv * 1000000 + snd tv)"

definition wait_timeval :: "int \<Rightarrow> int \<times> int" where
  "wait_timeval w = (sgn w * (\<bar>w\<bar> div 1000000), sgn w * (\<bar>w\<bar> mod 1000000))"

definition is_timeout :: "int \<Rightarrow> bool" where
  "is_timeout optname \<longleftrightarrow> optname = SO_RCVTIMEO \<or> optname = SO_SNDTIMEO"

definition setsockopt ::
  "'w services \<Rightarrow> (int \<Rightarrow> int) \<Rightarrow> nat \<Rightarrow> int \<Rightarrow> int \<Rightarrow> int \<Rightarrow> int \<times> int \<Rightarrow> addr \<Rightarrow> nat \<Rightarrow> ('w, 'z) fd_state_scheme \<Rightarrow>
     int \<times> ('w, 'z) fd_state_scheme" where
  "setsockopt os net tvsz fd level optname timeout optval optlen s =
     with_fd os net fd
       (\<lambda>s. (- 1, set_errno EBADF s))
       (\<lambda>d s.
          if is_timeout optname then
            if optlen < tvsz then (None, s)
            else (let (r, s) = sys os (Net (sceNetSetsockoptInt (sce_uid d) level optname (timeval_wait timeout) 4)) s in (Some r, s))
          else (let (r, s) = sys os (Net (sceNetSetsockopt (sce_uid d) level optname (mem_load optval optlen (mem s)))) s in (Some r, s)))
       (\<lambda>r s. case r of None \<Rightarrow> (- 1, set_errno EINVAL s) | Some r \<Rightarrow> sock_result net (\<lambda>_. 0) r s) s"

text \<open>The results of \<open>getsockopt\<close>: the return value, and for a timeout the new length and the structure.\<close>

definition getsockopt ::
  "'w services \<Rightarrow> (int \<Rightarrow> int) \<Rightarrow> nat \<Rightarrow> int \<Rightarrow> int \<Rightarrow> int \<Rightarrow> addr \<Rightarrow> addr \<Rightarrow> nat \<Rightarrow> ('w, 'z) fd_state_scheme \<Rightarrow>
     (int \<times> (nat \<times> int \<times> int) option) \<times> ('w, 'z) fd_state_scheme" where
  "getsockopt os net tvsz fd level optname optval optlenp optlen s =
     with_fd os net fd
       (\<lambda>s. ((- 1, None), set_errno EBADF s))
       (\<lambda>d s.
          if is_timeout optname then
            if optlen < tvsz then (None, s)
            else (let (r, s) = sys os (Net (sceNetGetsockoptInt (sce_uid d) level optname)) s
                  in (Some (r, Some (tvsz, wait_timeval (outp r 0 0))), s))
          else (let (r, s) = sys os (Net (sceNetGetsockopt (sce_uid d) level optname optval optlenp)) s in (Some (r, None), s)))
       (\<lambda>r s. case r of
            None \<Rightarrow> ((- 1, None), set_errno EINVAL s)
          | Some (r, tv) \<Rightarrow> (let (i, s) = sock_result net (\<lambda>_. 0) r s in ((i, tv), s))) s"

section \<open>What the calls keep\<close>

lemma sock_result_more [simp]: "libc.more (snd (sock_result net f r s)) = libc.more s"
  by (simp add: sock_result_def)

lemma sock_call_more: "fd_live s \<Longrightarrow> libc.more (snd (sock_call os net fd c f s)) = libc.more s"
  unfolding sock_call_def by (rule with_fd_more) simp_all

lemmas sock_wrappers = bind_def connect_def listen_def shutdown_def getsockname_def getpeername_def
  send_def recv_def sendto_def recvfrom_def sendmsg_def recvmsg_def

lemma sockopt_more:
  assumes "fd_live s"
  shows "libc.more (snd (setsockopt os net tvsz fd level optname tv a n s)) = libc.more s"
    and "libc.more (snd (getsockopt os net tvsz fd level optname a b n s)) = libc.more s"
  unfolding setsockopt_def getsockopt_def
  by (rule with_fd_more [OF assms]; simp add: Let_def case_prod_beta split: option.split)+

text \<open>A call on an open descriptor is the platform call on the handle of its entry, of whatever type.\<close>

lemma sock_call_open:
  assumes "fd_live s" "is_fd_valid fd s"
  shows "sock_call os net fd c f s =
    (let (r, s') = sys os (Net (c (sce_uid (fdmap_pool s (the (fdmap s (nat fd))))))) s in sock_result net f r s')"
proof -
  have "table_blind (\<lambda>d. sys os (Net (c (sce_uid d))) :: ('a, 'b) fd_state_scheme \<Rightarrow> reply \<times> ('a, 'b) fd_state_scheme)"
    by (simp add: table_blind_def sys_set_entry)
  then show ?thesis by (simp add: sock_call_def with_fd_valid [OF assms])
qed

lemma timeout_roundtrip:
  assumes "0 \<le> usec" "usec < 1000000" "0 \<le> sec" "sec * 1000000 + usec < 2 ^ 31"
  shows "wait_timeval (timeval_wait (sec, usec)) = (sec, usec)"
proof -
  have w: "timeval_wait (sec, usec) = sec * 1000000 + usec"
    using assms by (simp add: timeval_wait_def cint_id)
  have n: "0 \<le> sec * 1000000 + usec" using assms by simp
  show ?thesis
  proof (cases "sec * 1000000 + usec = 0")
    case True
    then have "sec = 0" "usec = 0" using assms by auto
    then show ?thesis by (simp add: wait_timeval_def timeval_wait_def cint_def)
  next
    case False
    then show ?thesis using n assms unfolding w wait_timeval_def
      by (simp add: sgn_if abs_if)
  qed
qed

section \<open>A failed start\<close>

text \<open>
  The comment in \<open>_net_init\<close> says that after a failure everything is torn down so that the service can be started
  again. The flag is set before the first step and never cleared, so every later call reports success
  without doing anything.
\<close>

lemma net_ctl_init_flag [simp]: "net_initialized (snd (net_ctl_init os s)) = net_initialized s"
  by (simp add: net_ctl_init_def Let_def case_prod_beta sys_def split: prod.splits)

lemma net_initialized_sys [simp]: "net_initialized (snd (sys os c s)) = net_initialized s"
  by (simp add: sys_def split: prod.splits)

lemma net_init_never_retries: "net_init os nk (snd (net_init os nk s)) = (0, snd (net_init os nk s))"
proof -
  have "net_initialized (snd (net_init os nk s))"
    by (simp add: net_init_def Let_def case_prod_beta)
  then show ?thesis by (simp add: net_init_def)
qed

end
