(* ===== verification/Net_Poll.thy ===== *)
theory Net_Poll
  imports Net_Socket
begin

text \<open>
  \<open>select\<close> and \<open>poll\<close>, \<^verbatim>\<open>src/select\<close>. Both register the sockets of the caller with an epoll object, keep
  their entries grabbed while they wait, and drop them at the end. An \<open>fd_set\<close> is a predicate on
  descriptors, \<open>None\<close> a null pointer. The reply of the wait gives the number of events and, in turn, the bits
  and the registered number of each. The outer \<open>None\<close> of a result is undefined: a bit for a set that
  is null, or an event number outside the arrays.
\<close>

section \<open>Entries held while waiting\<close>

definition drop_all ::
  "'w services \<Rightarrow> (int \<Rightarrow> int) \<Rightarrow> nat list \<Rightarrow> ('w, 'z) fd_state_scheme \<Rightarrow> ('w, 'z) fd_state_scheme" where
  "drop_all os net locks s = fold (\<lambda>p s. snd (fd_drop os net p s)) locks s"

definition events_of :: "reply \<Rightarrow> (int \<times> int) list" where
  "events_of r = map (\<lambda>i. (outp r (2 * i) 0, outp r (2 * i + 1) 0)) [0..<nat (rp_ret r)]"

section \<open>select\<close>

type_synonym fd_set = "nat \<Rightarrow> bool"

definition FD_ISSET :: "nat \<Rightarrow> fd_set option \<Rightarrow> bool" where
  "FD_ISSET i fs = (case fs of None \<Rightarrow> False | Some f \<Rightarrow> f i)"

definition select_events :: "net_sdk \<Rightarrow> fd_set option \<Rightarrow> fd_set option \<Rightarrow> fd_set option \<Rightarrow> nat \<Rightarrow> int" where
  "select_events nk rs ws es i =
     (if FD_ISSET i rs then SCE_NET_EPOLLIN nk else 0) OR
     (if FD_ISSET i ws then SCE_NET_EPOLLOUT nk else 0) OR
     (if FD_ISSET i es then SCE_NET_EPOLLERR nk else 0)"

text \<open>The registration loop over the descriptors in a list, with the entries it has grabbed.\<close>

fun select_add ::
  "'w services \<Rightarrow> (int \<Rightarrow> int) \<Rightarrow> (nat \<Rightarrow> int) \<Rightarrow> int \<Rightarrow> nat list \<Rightarrow> nat list \<Rightarrow> ('w, 'z) fd_state_scheme \<Rightarrow>
     nat list \<times> ('w, 'z) fd_state_scheme" where
  "select_add os net want eid [] locks s = (locks, s)"
| "select_add os net want eid (i # is) locks s =
     (if want i = 0 then select_add os net want eid is locks s
      else
        (case fd_grab (int i) s of
           (None, s) \<Rightarrow> select_add os net want eid is locks s
         | (Some p, s) \<Rightarrow>
             if dtype (fdmap_pool s p) \<noteq> VITA_DESCRIPTOR_SOCKET
             then select_add os net want eid is locks (snd (fd_drop os net p s))
             else select_add os net want eid is (locks @ [p])
                    (snd (sys os (Net (sceNetEpollAdd eid (sce_uid (fdmap_pool s p)) (want i) (int i))) s))))"

text \<open>One bit of an event: the set with the descriptor added and the count.\<close>

definition FD_SET :: "int \<Rightarrow> fd_set option \<Rightarrow> fd_set option option" where
  "FD_SET i fs = (case fs of None \<Rightarrow> None
                  | Some f \<Rightarrow> if 0 \<le> i \<and> i < int MAX_OPEN_FILES then Some (Some (f(nat i := True))) else None)"

definition select_bit :: "bool \<Rightarrow> int \<Rightarrow> fd_set option \<times> int \<Rightarrow> (fd_set option \<times> int) option" where
  "select_bit b i x = (if b then map_option (\<lambda>f. (f, snd x + 1)) (FD_SET i (fst x)) else Some x)"

fun select_collect ::
  "net_sdk \<Rightarrow> (int \<times> int) list \<Rightarrow> fd_set option \<times> fd_set option \<times> fd_set option \<Rightarrow> int \<Rightarrow>
     ((fd_set option \<times> fd_set option \<times> fd_set option) \<times> int) option" where
  "select_collect nk [] fs res = Some (fs, res)"
| "select_collect nk ((ev, i) # evs) (rs, ws, es) res =
     (case select_bit (ev AND SCE_NET_EPOLLIN nk \<noteq> 0) i (rs, res) of None \<Rightarrow> None
      | Some (rs, res) \<Rightarrow>
          (case select_bit (ev AND SCE_NET_EPOLLOUT nk \<noteq> 0) i (ws, res) of None \<Rightarrow> None
           | Some (ws, res) \<Rightarrow>
               (case select_bit (ev AND SCE_NET_EPOLLERR nk \<noteq> 0) i (es, res) of None \<Rightarrow> None
                | Some (es, res) \<Rightarrow> select_collect nk evs (rs, ws, es) res)))"

definition FD_ZERO :: "fd_set option \<Rightarrow> fd_set option" where
  "FD_ZERO = map_option (\<lambda>_ _. False)"

definition select ::
  "'w services \<Rightarrow> (int \<Rightarrow> int) \<Rightarrow> net_sdk \<Rightarrow> int \<Rightarrow> fd_set option \<Rightarrow> fd_set option \<Rightarrow> fd_set option \<Rightarrow> (int \<times> int) option \<Rightarrow>
     ('w, 'z) fd_state_scheme \<Rightarrow>
     ((int \<times> fd_set option \<times> fd_set option \<times> fd_set option) \<times> ('w, 'z) fd_state_scheme) option" where
  "select os net nk nfds rs ws es timeout s =
     (let wait = (case timeout of None \<Rightarrow> - 1 | Some tv \<Rightarrow> timeval_wait tv) in
      if nfds < 0 \<or> nfds \<ge> int MAX_OPEN_FILES then Some ((- 1, rs, ws, es), set_errno EINVAL s)
      else if nfds = 0 then
        Some ((0, rs, ws, es), if wait > 0 then snd (sys os (Kernel (sceKernelDelayThread wait)) s) else s)
      else
        (let (e, s) = sys os (Net (sceNetEpollCreate [])) s; eid = rp_ret e in
         if eid < 0 then Some ((- 1, rs, ws, es), set_errno (scenet_errno_to_errno net eid) s)
         else
           (let (locks, s) = select_add os net (select_events nk rs ws es) eid [0..<nat nfds] [] s;
                (r, s) = sys os (Net (sceNetEpollWait eid 255 wait)) s;
                out = (if rp_ret r < 0 then Some ((rs, ws, es), - 1)
                       else if rp_ret r > 255 then None
                       else select_collect nk (events_of r) (FD_ZERO rs, FD_ZERO ws, FD_ZERO es) 0);
                s = (if rp_ret r < 0 then set_errno (scenet_errno_to_errno net (rp_ret r)) s else s)
            in case out of
                 None \<Rightarrow> None
               | Some ((rs, ws, es), res) \<Rightarrow>
                   Some ((res, rs, ws, es), drop_all os net locks (snd (sys os (Net (sceNetEpollDestroy eid)) s))))))"

section \<open>poll\<close>

record pollfd =
  pfd_fd :: int
  pfd_events :: int
  pfd_revents :: int

abbreviation (input) POLLIN :: int where "POLLIN \<equiv> 1"
abbreviation (input) POLLOUT :: int where "POLLOUT \<equiv> 4"
abbreviation (input) POLLERR :: int where "POLLERR \<equiv> 8"
abbreviation (input) POLLHUP :: int where "POLLHUP \<equiv> 16"

definition poll_events :: "net_sdk \<Rightarrow> int \<Rightarrow> int" where
  "poll_events nk ev =
     (if ev AND POLLIN \<noteq> 0 then SCE_NET_EPOLLIN nk else 0) OR (if ev AND POLLOUT \<noteq> 0 then SCE_NET_EPOLLOUT nk else 0)"

text \<open>Regular files are ready for what was asked.\<close>

definition file_ready :: "pollfd \<Rightarrow> pollfd" where
  "file_ready f = f\<lparr>pfd_revents := pfd_revents f OR (if pfd_events f AND POLLIN \<noteq> 0 then POLLIN else 0)
                                 OR (if pfd_events f AND POLLOUT \<noteq> 0 then POLLOUT else 0)\<rparr>"

definition ready_count :: "pollfd \<Rightarrow> int" where
  "ready_count f = (if pfd_events f AND POLLIN \<noteq> 0 \<or> pfd_events f AND POLLOUT \<noteq> 0 then 1 else 0)"

text \<open>One round of the registration loop: the entry, what it adds to \<open>res\<close>, and the entry grabbed.\<close>

definition poll_round ::
  "'w services \<Rightarrow> (int \<Rightarrow> int) \<Rightarrow> net_sdk \<Rightarrow> int \<Rightarrow> nat \<Rightarrow> pollfd \<Rightarrow> ('w, 'z) fd_state_scheme \<Rightarrow>
     (pollfd \<times> int \<times> nat list) \<times> ('w, 'z) fd_state_scheme" where
  "poll_round os net nk eid i f s =
     (let f = f\<lparr>pfd_revents := 0\<rparr>; want = poll_events nk (pfd_events f) in
      if pfd_fd f < 0 \<or> want = 0 then ((f, 0, []), s)
      else
        (case fd_grab (pfd_fd f) s of
           (None, s) \<Rightarrow>
             (let (t, s) = sys os (Fios (sceFiosFHTell (pfd_fd f))) s in
              if 0 > rp_ret t then ((f, 0, []), s) else ((file_ready f, ready_count f, []), s))
         | (Some p, s) \<Rightarrow>
             if dtype (fdmap_pool s p) \<noteq> VITA_DESCRIPTOR_SOCKET then
               (if dtype (fdmap_pool s p) = VITA_DESCRIPTOR_FILE then (file_ready f, ready_count f, []) else (f, 0, []),
                snd (fd_drop os net p s))
             else
               ((f, 0, [p]),
                snd (sys os (Net (sceNetEpollAdd eid (sce_uid (fdmap_pool s p)) want (int i))) s))))"

fun poll_add ::
  "'w services \<Rightarrow> (int \<Rightarrow> int) \<Rightarrow> net_sdk \<Rightarrow> int \<Rightarrow> nat \<Rightarrow> pollfd list \<Rightarrow> ('w, 'z) fd_state_scheme \<Rightarrow>
     (pollfd list \<times> int \<times> nat list) \<times> ('w, 'z) fd_state_scheme" where
  "poll_add os net nk eid i [] s = (([], 0, []), s)"
| "poll_add os net nk eid i (f # fs) s =
     (let ((f, n, l), s) = poll_round os net nk eid i f s;
          ((fs, res, locks), s) = poll_add os net nk eid (Suc i) fs s
      in ((f # fs, n + res, l @ locks), s))"

definition revents_bits :: "net_sdk \<Rightarrow> int \<Rightarrow> int" where
  "revents_bits nk ev =
     (if ev AND SCE_NET_EPOLLIN nk \<noteq> 0 then POLLIN else 0) OR (if ev AND SCE_NET_EPOLLOUT nk \<noteq> 0 then POLLOUT else 0) OR
     (if ev AND SCE_NET_EPOLLERR nk \<noteq> 0 then POLLERR else 0) OR (if ev AND SCE_NET_EPOLLHUP nk \<noteq> 0 then POLLHUP else 0)"

fun poll_collect :: "net_sdk \<Rightarrow> (int \<times> int) list \<Rightarrow> pollfd list \<Rightarrow> pollfd list option" where
  "poll_collect nk [] fs = Some fs"
| "poll_collect nk ((ev, i) # evs) fs =
     (if ev = 0 then poll_collect nk evs fs
      else if 0 \<le> i \<and> i < int (length fs)
        then poll_collect nk evs
               (fs[nat i := (fs ! nat i)\<lparr>pfd_revents := pfd_revents (fs ! nat i) OR revents_bits nk ev\<rparr>])
      else None)"

definition poll ::
  "'w services \<Rightarrow> (int \<Rightarrow> int) \<Rightarrow> net_sdk \<Rightarrow> pollfd list \<Rightarrow> int \<Rightarrow> ('w, 'z) fd_state_scheme \<Rightarrow>
     ((int \<times> pollfd list) \<times> ('w, 'z) fd_state_scheme) option" where
  "poll os net nk fs timeout s =
     (if length fs \<ge> MAX_OPEN_FILES then Some ((- 1, fs), set_errno EINVAL s)
      else if fs = [] then Some ((0, fs), snd (sys os (Kernel (sceKernelDelayThread (cint (timeout * 1000)))) s))
      else
        (let (e, s) = sys os (Net (sceNetEpollCreate ''poll'')) s; eid = rp_ret e in
         if eid < 0 then Some ((- 1, fs), set_errno (scenet_errno_to_errno net eid) s)
         else
           (let ((fs, res, locks), s) = poll_add os net nk eid 0 fs s;
                (r, s) = sys os (Net (sceNetEpollWait eid MAX_OPEN_FILES (cint (timeout * 1000)))) s;
                out = (if rp_ret r < 0 then Some (fs, - 1)
                       else if rp_ret r > int MAX_OPEN_FILES then None
                       else map_option (\<lambda>fs. (fs, res + rp_ret r)) (poll_collect nk (events_of r) fs));
                s = (if rp_ret r < 0 then set_errno (scenet_errno_to_errno net (rp_ret r)) s else s)
            in case out of
                 None \<Rightarrow> None
               | Some (fs, res) \<Rightarrow>
                   Some ((res, fs), drop_all os net locks (snd (sys os (Net (sceNetEpollDestroy eid)) s))))))"

section \<open>The entries come back\<close>

text \<open>One more reference to an entry.\<close>

definition bump :: "nat \<Rightarrow> ('w, 'z) fd_state_scheme \<Rightarrow> ('w, 'z) fd_state_scheme" where
  "bump p s = set_entry p ((fdmap_pool s p)\<lparr>ref_count := ref_count (fdmap_pool s p) + 1\<rparr>) s"

definition bumps :: "nat list \<Rightarrow> ('w, 'z) fd_state_scheme \<Rightarrow> ('w, 'z) fd_state_scheme" where
  "bumps = fold bump"

lemma bump_commute: "bump p (bump q s) = bump q (bump p s)"
  by (cases s, cases "p = q") (auto simp: bump_def set_entry_def fun_upd_twist)

lemma more_bump: "libc.more s = libc.more t \<Longrightarrow> libc.more (bump p s) = libc.more (bump p t)"
  using more_fdmap [of s t] more_set_entry [of s t p] by (simp add: bump_def)

lemma bumps_simps: "bumps [] s = s" "bumps (ps @ [p]) s = bump p (bumps ps s)"
  by (simp_all add: bumps_def)

lemma bumps_Cons: "bumps (p # ps) s = bump p (bumps ps s)"
proof -
  have "fold bump ps (bump p s) = bump p (fold bump ps s)" for s
  proof (induction ps arbitrary: s)
    case (Cons a ps)
    show ?case using Cons.IH [of "bump a s"] by (simp add: bump_commute [of a p s])
  qed simp
  then show ?thesis by (simp add: bumps_def)
qed

lemma bumps_fields [simp]:
  "fdmap (bump p s) = fdmap s" "fdmap (bumps ps s) = fdmap s"
proof -
  show *: "fdmap (bump p s) = fdmap s" for p s by (simp add: bump_def set_entry_def)
  show "fdmap (bumps ps s) = fdmap s" by (induction ps arbitrary: s) (simp_all add: bumps_Cons bumps_simps *)
qed

lemma bumps_ref: "ref_count (fdmap_pool s q) \<le> ref_count (fdmap_pool (bumps ps s) q)"
proof (induction ps)
  case (Cons p ps)
  then show ?case by (auto simp: bumps_Cons bump_def set_entry_def)
qed (simp add: bumps_simps)

lemma bumps_live: "fd_live s \<Longrightarrow> fd_live (bumps ps s)"
  using bumps_ref [of s _ ps] by (simp add: fd_live_def) (meson order_trans)

lemma grab_bump:
  assumes "fd_grab fd s = (Some p, s1)"
  shows "s1 = bump p s" "fdmap s (nat fd) = Some p"
  using assms by (auto simp: fd_grab_eq bump_def Let_def is_fd_valid_def split: if_splits)

lemma drop_bump:
  assumes "libc.more s = libc.more (bump p t)" "1 \<le> ref_count (fdmap_pool t p)"
  shows "libc.more (snd (fd_drop os net p s)) = libc.more t"
proof -
  have pool: "fdmap_pool s = fdmap_pool (bump p t)" using more_fdmap [OF assms(1)] by simp
  have "snd (fd_drop os net p s) = set_entry p (fdmap_pool t p) s"
    using assms(2) by (simp add: fd_drop_eq pool bump_def set_entry_def Let_def)
  moreover have "set_entry p (fdmap_pool t p) (bump p t) = t" by (simp add: bump_def)
  ultimately show ?thesis using more_set_entry [OF assms(1), of p "fdmap_pool t p"] by simp
qed

text \<open>Dropping every grabbed entry once gives the table back, in whatever order they were grabbed.\<close>

lemma drop_all_bumps:
  assumes "fd_live t" "\<forall>p \<in> set ps. \<exists>fd. fdmap t fd = Some p" "libc.more s = libc.more (bumps ps t)"
  shows "libc.more (drop_all os net ps s) = libc.more t"
  using assms(2,3)
proof (induction ps arbitrary: s)
  case (Cons p ps)
  obtain fd where "fdmap t fd = Some p" using Cons.prems(1) by auto
  then have "1 \<le> ref_count (fdmap_pool (bumps ps t) p)"
    using assms(1) bumps_ref [of t p ps] by (fastforce simp: fd_live_def)
  then have "libc.more (snd (fd_drop os net p s)) = libc.more (bumps ps t)"
    using Cons.prems(2) by (intro drop_bump) (simp_all add: bumps_Cons)
  then show ?case using Cons.IH [of "snd (fd_drop os net p s)"] Cons.prems(1) by (simp add: drop_all_def)
qed (simp add: drop_all_def bumps_simps)

lemma more_bumps: "libc.more s = libc.more t \<Longrightarrow> libc.more (bumps ps s) = libc.more (bumps ps t)"
proof (induction ps)
  case (Cons p ps)
  show ?case unfolding bumps_Cons by (rule more_bump [OF Cons.IH [OF Cons.prems]])
qed (simp add: bumps_simps)

lemma bumps_append: "bumps (ps @ qs) s = bumps qs (bumps ps s)"
  by (simp add: bumps_def)

text \<open>A grab that is dropped at once.\<close>

lemma grab_drop_more:
  assumes "fd_live s" "fd_grab fd s = (Some p, s1)"
  shows "libc.more (snd (fd_drop os net p s1)) = libc.more s"
  using drop_all_bumps [of s "[p]" s1 os net] grab_bump [OF assms(2)] assms(1)
  by (auto simp: bumps_Cons bumps_simps drop_all_def)

text \<open>What the registration loops leave: the table with one more reference for each lock.\<close>

definition held :: "nat list \<Rightarrow> ('w, 'z) fd_state_scheme \<Rightarrow> ('w, 'z) fd_state_scheme \<Rightarrow> bool" where
  "held locks s s' \<longleftrightarrow> libc.more s' = libc.more (bumps locks s) \<and> (\<forall>p \<in> set locks. \<exists>fd. fdmap s fd = Some p)"

lemma held_live: "held locks s s' \<Longrightarrow> fd_live s \<Longrightarrow> fd_live s'"
  using fd_live_more bumps_live by (auto simp: held_def)

lemma held_fdmap: "held locks s s' \<Longrightarrow> fdmap s' = fdmap s"
  using more_fdmap [of s' "bumps locks s"] by (simp add: held_def)

lemma held_more: "held locks s s1 \<Longrightarrow> libc.more s2 = libc.more s1 \<Longrightarrow> held locks s s2"
  by (simp add: held_def)

lemma held_sys [simp]: "held locks s (snd (sys os c s1)) = held locks s s1" "held locks s (set_errno e s1) = held locks s s1"
  by (simp_all add: held_def)

lemma held_grab:
  assumes "held locks s s1" "fd_grab fd s1 = (Some p, s2)"
  shows "held (locks @ [p]) s s2"
  using assms(1) grab_bump [OF assms(2)] more_bump [of s1 "bumps locks s" p] held_fdmap [OF assms(1)]
  by (auto simp: held_def bumps_simps)

lemma held_append: "held l s s1 \<Longrightarrow> held locks s1 s2 \<Longrightarrow> held (l @ locks) s s2"
  using more_bumps [of s1 "bumps l s" locks] held_fdmap [of l s s1] by (auto simp: held_def bumps_append)

lemma held_drop_all: "held locks s s1 \<Longrightarrow> fd_live s \<Longrightarrow> libc.more (drop_all os net locks s1) = libc.more s"
  by (auto simp: held_def intro: drop_all_bumps)

lemma select_add_held:
  assumes "fd_live s0"
  shows "held locks s0 s \<Longrightarrow> held (fst (select_add os net want eid is locks s)) s0 (snd (select_add os net want eid is locks s))"
proof (induction os net want eid "is" locks s rule: select_add.induct)
  case (2 os net want eid i "is" locks s)
  have live: "fd_live s" by (rule held_live [OF 2(5) assms])
  show ?case
  proof (cases "want i = 0")
    case True
    then show ?thesis using 2(1,5) by simp
  next
    case False
    obtain m s1 where g: "fd_grab (int i) s = (m, s1)" by (cases "fd_grab (int i) s")
    show ?thesis
    proof (cases m)
      case None
      then have "s1 = s" using g pin.grab_None [of "int i" s s1] by simp
      then show ?thesis using 2(2) [OF False g [symmetric] None] 2(5) g None False by simp
    next
      case (Some p)
      have g': "fd_grab (int i) s = (Some p, s1)" using g Some by simp
      show ?thesis
      proof (cases "dtype (fdmap_pool s1 p) = VITA_DESCRIPTOR_SOCKET")
        case True
        have "held (locks @ [p]) s0 (snd (sys os (Net (sceNetEpollAdd eid (sce_uid (fdmap_pool s1 p)) (want i) (int i))) s1))"
          by (rule held_more [OF held_grab [OF 2(5) g']]) simp
        then show ?thesis using 2(4) [OF False g [symmetric] Some] True g' False by simp
      next
        case other: False
        have "held locks s0 (snd (fd_drop os net p s1))"
          by (rule held_more [OF 2(5) grab_drop_more [OF live g']])
        then show ?thesis using 2(3) [OF False g [symmetric] Some] other g' False by simp
      qed
    qed
  qed
qed simp

lemma poll_round_held:
  assumes "fd_live s" "poll_round os net nk eid i f s = ((f', n, l), s')"
  shows "held l s s'"
proof -
  have nil: "held [] s t" if "libc.more t = libc.more s" for t using that by (simp add: held_def bumps_simps)
  obtain m s1 where g: "fd_grab (pfd_fd f) s = (m, s1)" by (cases "fd_grab (pfd_fd f) s")
  show ?thesis
  proof (cases m)
    case None
    then have "s1 = s" using g pin.grab_None [of "pfd_fd f" s s1] by simp
    then have "l = []" "libc.more s' = libc.more s"
      using assms(2) g None by (auto simp: poll_round_def Let_def case_prod_beta split: if_splits)
    then show ?thesis using nil by simp
  next
    case (Some p)
    have g': "fd_grab (pfd_fd f) s = (Some p, s1)" using g Some by simp
    have "held [p] s s1" using held_grab [OF nil [OF refl] g'] by simp
    then show ?thesis
      using assms(2) g' nil grab_drop_more [OF assms(1) g', of os net]
      by (auto simp: poll_round_def Let_def split: if_splits)
  qed
qed

lemma poll_add_held:
  assumes "fd_live s" "poll_add os net nk eid i fs s = ((fs', n, l), s')"
  shows "held l s s'"
  using assms
proof (induction os net nk eid i fs s arbitrary: fs' n l s' rule: poll_add.induct)
  case (1 os net nk eid i s)
  then show ?case by (simp add: held_def bumps_simps)
next
  case (2 os net nk eid i f fs s)
  obtain f1 n1 l1 s1 where r: "poll_round os net nk eid i f s = ((f1, n1, l1), s1)" by (metis prod.exhaust)
  obtain fs2 n2 l2 s2 where a: "poll_add os net nk eid (Suc i) fs s1 = ((fs2, n2, l2), s2)" by (metis prod.exhaust)
  have h: "held l1 s s1" by (rule poll_round_held [OF 2(2) r])
  have "held l2 s1 s2" using 2(1) [OF r [symmetric] refl refl refl held_live [OF h 2(2)] a] .
  then show ?case using 2(3) r a held_append [OF h] by auto
qed

section \<open>Properties\<close>

text \<open>C33 (safety): whenever \<open>select\<close> or \<open>poll\<close> return, whatever the platform reports, the descriptor table is exactly as
  it was: every entry they grabbed while waiting, even several times through duplicates, is dropped
  as often as it was grabbed, and none is closed.\<close>
theorem waiting_restores_table:
  assumes "fd_live s"
  shows "(select os net nk nfds rs ws es timeout s = Some (r, s') \<longrightarrow> libc.more s' = libc.more s) \<and>
    (poll os net nk fs ms s = Some (q, s') \<longrightarrow> libc.more s' = libc.more s)"
proof -
  have fin: "libc.more (drop_all os net l t) = libc.more s" if "held l u t" "libc.more u = libc.more s" for l t u
    using held_drop_all [OF that(1) fd_live_more [OF that(2) assms]] that(2) by simp
  let ?e = "snd (sys os (Net (sceNetEpollCreate [])) s)" and ?eid = "sys_ret os (Net (sceNetEpollCreate [])) s"
  let ?a = "select_add os net (select_events nk rs ws es) ?eid [0..<nat nfds] [] ?e"
  have h: "held (fst ?a) ?e (snd ?a)"
    by (rule select_add_held) (auto intro: fd_live_more [OF _ assms] simp: held_def bumps_simps)
  let ?f = "snd (sys os (Net (sceNetEpollCreate ''poll'')) s)" and ?fid = "sys_ret os (Net (sceNetEpollCreate ''poll'')) s"
  let ?b = "poll_add os net nk ?fid 0 fs ?f"
  obtain bfs bn bl bs where b: "?b = ((bfs, bn, bl), bs)" by (metis prod.exhaust)
  have hb: "held bl ?f bs" by (rule poll_add_held [OF _ b]) (auto intro: fd_live_more [OF _ assms])
  have "select os net nk nfds rs ws es timeout s = Some (r, s') \<Longrightarrow> libc.more s' = libc.more s"
    using h by (auto simp: select_def Let_def case_prod_beta split: if_splits option.splits
        intro!: fin [of "fst ?a" ?e])
  moreover have "poll os net nk fs ms s = Some (q, s') \<Longrightarrow> libc.more s' = libc.more s"
    using hb by (auto simp: poll_def b Let_def case_prod_beta split: if_splits option.splits
        intro!: fin [of bl ?f])
  ultimately show ?thesis by blast
qed

theorem waiting_restores_table_witness:
  "\<exists>q s'. poll quiet_os (\<lambda>e. e) \<lparr>SCE_SYSMODULE_LOADED = 0, SCE_NET_ENOMEM = - 1, SCE_NET_ERROR_EBUSY = - 2,
       SCE_NET_EPOLLIN = 1, SCE_NET_EPOLLOUT = 2, SCE_NET_EPOLLERR = 8, SCE_NET_EPOLLHUP = 16\<rparr>
       [\<lparr>pfd_fd = 1, pfd_events = 1, pfd_revents = 0\<rparr>] 0 (init_fd quiet_os (blank_state ())) = Some (q, s') \<and>
     libc.more s' = libc.more (init_fd quiet_os (blank_state ()))"
proof -
  let ?nk = "\<lparr>SCE_SYSMODULE_LOADED = 0, SCE_NET_ENOMEM = - 1, SCE_NET_ERROR_EBUSY = - 2,
       SCE_NET_EPOLLIN = 1, SCE_NET_EPOLLOUT = 2, SCE_NET_EPOLLERR = 8, SCE_NET_EPOLLHUP = 16\<rparr>"
  let ?s = "init_fd quiet_os (blank_state ())" and ?f = "\<lparr>pfd_fd = 1, pfd_events = 1, pfd_revents = 0\<rparr>"
  have "\<exists>q s'. poll quiet_os (\<lambda>e. e) ?nk [?f] 0 ?s = Some (q, s')"
    by (simp add: poll_def Let_def case_prod_beta MAX_OPEN_FILES_def sys_ret_def quiet_os_def events_of_def del: poll_add.simps)
  then show ?thesis
    using waiting_restores_table [OF init_live, where fs = "[?f]" and ms = 0 and nk = ?nk] by blast
qed

end
