(* ===== verification/Posix_Env.thy ===== *)
theory Posix_Env
  imports Sce_Services
begin

text \<open>
  The environment, \<^verbatim>\<open>src/env\<close>. The array \<open>environ\<close> is its address, 0 for null, with the list of the strings in it;
  a string is its address with its characters, because \<open>putenv\<close> keeps the caller's string and
  \<open>__env_rm_add\<close> compares addresses to free what \<open>setenv\<close> allocated. \<open>oldenv\<close>, \<open>env_alloced\<close> and its
  length are the static variables of \<open>__putenv\<close> and \<open>__env_rm_add\<close>.

  The theory shows that the environment behaves as a map from names to values (\<open>env_map\<close>): \<open>setenv\<close>
  updates it at one name, \<open>unsetenv\<close> removes one name, and \<open>getenv\<close> reads it.
\<close>

type_synonym env_string = "addr \<times> string"

record 'w env_state = "'w libc" +
  environ_ptr :: addr
  environ :: "env_string list"
  oldenv :: addr
  env_alloced_ptr :: addr
  env_alloced :: "addr list"

section \<open>Names\<close>

text \<open>\<^verbatim>\<open>__strchrnul(name, '=') - name\<close>: the length of the part before the first equals sign.\<close>

definition name_length :: "string \<Rightarrow> nat" where
  "name_length name = length (takeWhile (\<lambda>c. c \<noteq> CHR ''='') name)"

text \<open>The test of \<open>getenv\<close> and \<open>unsetenv\<close> on one string.\<close>

definition env_matches :: "string \<Rightarrow> nat \<Rightarrow> string \<Rightarrow> bool" where
  "env_matches name l e \<longleftrightarrow> take l name = take l e \<and> l < length e \<and> e ! l = CHR ''=''"

section \<open>Reading\<close>

fun getenv_loop :: "string \<Rightarrow> nat \<Rightarrow> env_string list \<Rightarrow> env_string option" where
  "getenv_loop name l [] = None"
| "getenv_loop name l ((p, e) # es) =
     (if env_matches name l e then Some (p + of_nat l + 1, drop (l + 1) e) else getenv_loop name l es)"

definition getenv :: "string \<Rightarrow> ('w, 'z) env_state_scheme \<Rightarrow> env_string option" where
  "getenv name s =
     (let l = name_length name in
      if l \<noteq> 0 \<and> l = length name \<and> environ_ptr s \<noteq> 0 then getenv_loop name l (environ s) else None)"

section \<open>The strings that setenv allocated\<close>

text \<open>The loop of \<open>__env_rm_add\<close>: the array, what is left of \<open>new\<close>, and whether \<open>old\<close> was found.\<close>

fun rm_add_loop :: "addr \<Rightarrow> addr list \<Rightarrow> addr \<Rightarrow> addr list \<times> addr \<times> bool" where
  "rm_add_loop old [] nw = ([], nw, False)"
| "rm_add_loop old (a # as) nw =
     (if a = old then (nw # as, nw, True)
      else if a = 0 \<and> nw \<noteq> 0 then (let (as, n, f) = rm_add_loop old as 0 in (nw # as, n, f))
      else (let (as, n, f) = rm_add_loop old as nw in (a # as, n, f)))"

definition env_rm_add ::
  "'w services \<Rightarrow> addr \<Rightarrow> addr \<Rightarrow> ('w, 'z) env_state_scheme \<Rightarrow> ('w, 'z) env_state_scheme" where
  "env_rm_add os old nw s =
     (case rm_add_loop old (env_alloced s) nw of
        (as, n, True) \<Rightarrow> snd (sys os (Heap (free old)) (s\<lparr>env_alloced := as\<rparr>))
      | (as, n, False) \<Rightarrow>
          (let s = s\<lparr>env_alloced := as\<rparr> in
           if n = 0 then s
           else
             (let (r, s) = sys os (Heap (realloc (env_alloced_ptr s) (of_nat (4 * (length as + 1))))) s;
                  t = word_of_int (rp_ret r)
              in if t = 0 then s else s\<lparr>env_alloced_ptr := t, env_alloced := as @ [n]\<rparr>)))"

section \<open>Changing\<close>

text \<open>Replacing the first string with the same name; \<open>None\<close> when there is none.\<close>

fun replace_first :: "env_string \<Rightarrow> nat \<Rightarrow> env_string list \<Rightarrow> (addr \<times> env_string list) option" where
  "replace_first s l [] = None"
| "replace_first s l (e # es) =
     (if take (l + 1) (snd s) = take (l + 1) (snd e) then Some (fst e, s # es)
      else map_option (\<lambda>(t, es). (t, e # es)) (replace_first s l es))"

definition env_append ::
  "'w services \<Rightarrow> env_string \<Rightarrow> addr \<Rightarrow> ('w, 'z) env_state_scheme \<Rightarrow> int \<times> ('w, 'z) env_state_scheme" where
  "env_append os str r s =
     (let es = (if environ_ptr s \<noteq> 0 then environ s else []); n = of_nat (4 * (length es + 2)); same = (environ_ptr s = oldenv s);
          (a, s) = sys os (Heap (if same then realloc (oldenv s) n else malloc n)) s;
          newenv = word_of_int (rp_ret a)
      in if newenv = 0 then (- 1, snd (sys os (Heap (free r)) s))
         else
           (let s = (if same then s else snd (sys os (Heap (free (oldenv s))) s));
                s = s\<lparr>environ_ptr := newenv, oldenv := newenv, environ := es @ [str]\<rparr>
            in (0, if r \<noteq> 0 then env_rm_add os 0 r s else s)))"

definition put_env ::
  "'w services \<Rightarrow> env_string \<Rightarrow> nat \<Rightarrow> addr \<Rightarrow> ('w, 'z) env_state_scheme \<Rightarrow> int \<times> ('w, 'z) env_state_scheme" where
  "put_env os str l r s =
     (case (if environ_ptr s \<noteq> 0 then replace_first str l (environ s) else None) of
        Some (tmp, es) \<Rightarrow> (0, env_rm_add os tmp r (s\<lparr>environ := es\<rparr>))
      | None \<Rightarrow> env_append os str r s)"

definition setenv ::
  "'w services \<Rightarrow> string option \<Rightarrow> string \<Rightarrow> bool \<Rightarrow> ('w, 'z) env_state_scheme \<Rightarrow> int \<times> ('w, 'z) env_state_scheme" where
  "setenv os var val overwrite s =
     (case var of
        None \<Rightarrow> (- 1, set_errno EINVAL s)
      | Some var \<Rightarrow>
          (let l1 = name_length var in
           if l1 = 0 \<or> l1 \<noteq> length var then (- 1, set_errno EINVAL s)
           else if \<not> overwrite \<and> getenv var s \<noteq> None then (0, s)
           else
             (let (r, s) = sys os (Heap (malloc (of_nat (l1 + length val + 2)))) s; p = word_of_int (rp_ret r) in
              if p = 0 then (- 1, s) else put_env os (p, var @ ''='' @ val) l1 p s)))"

fun unset_loop ::
  "'w services \<Rightarrow> string \<Rightarrow> nat \<Rightarrow> env_string list \<Rightarrow> ('w, 'z) env_state_scheme \<Rightarrow>
     env_string list \<times> ('w, 'z) env_state_scheme" where
  "unset_loop os name l [] s = ([], s)"
| "unset_loop os name l (e # es) s =
     (if env_matches name l (snd e) then unset_loop os name l es (env_rm_add os (fst e) 0 s)
      else (let (k, s) = unset_loop os name l es s in (e # k, s)))"

definition unsetenv ::
  "'w services \<Rightarrow> string \<Rightarrow> ('w, 'z) env_state_scheme \<Rightarrow> int \<times> ('w, 'z) env_state_scheme" where
  "unsetenv os name s =
     (let l = name_length name in
      if l = 0 \<or> l \<noteq> length name then (- 1, set_errno EINVAL s)
      else if environ_ptr s \<noteq> 0 then (let (es, s) = unset_loop os name l (environ s) s in (0, s\<lparr>environ := es\<rparr>))
      else (0, s))"

definition putenv ::
  "'w services \<Rightarrow> env_string \<Rightarrow> ('w, 'z) env_state_scheme \<Rightarrow> int \<times> ('w, 'z) env_state_scheme" where
  "putenv os str s =
     (let l = name_length (snd str) in
      if l = 0 \<or> l = length (snd str) then unsetenv os (snd str) s else put_env os str l 0 s)"

definition clearenv :: "'w services \<Rightarrow> ('w, 'z) env_state_scheme \<Rightarrow> int \<times> ('w, 'z) env_state_scheme" where
  "clearenv os s =
     (0, if environ_ptr s \<noteq> 0
         then fold (\<lambda>e s. env_rm_add os (fst e) 0 s) (environ s) (s\<lparr>environ_ptr := 0, environ := []\<rparr>)
         else s\<lparr>environ_ptr := 0\<rparr>)"

section \<open>The environment as a map\<close>

text \<open>A name that can be set, and the value the environment has for it.\<close>

definition env_name :: "string \<Rightarrow> bool" where
  "env_name n \<longleftrightarrow> n \<noteq> [] \<and> CHR ''='' \<notin> set n"

definition env_map :: "('w, 'z) env_state_scheme \<Rightarrow> string \<Rightarrow> string option" where
  "env_map s n = map_option snd (getenv n s)"

lemma length_takeWhile_all: "length (takeWhile P xs) = length xs \<longleftrightarrow> (\<forall>x \<in> set xs. P x)"
  by (induction xs) auto

lemma name_length_iff: "name_length n \<noteq> 0 \<and> name_length n = length n \<longleftrightarrow> env_name n"
proof -
  have "name_length n = length n \<longleftrightarrow> CHR ''='' \<notin> set n"
    unfolding name_length_def length_takeWhile_all by blast
  then show ?thesis by (metis env_name_def length_0_conv)
qed

lemma name_length_name: "env_name n \<Longrightarrow> name_length n = length n"
  using name_length_iff by blast

lemma matches_name: "env_name n \<Longrightarrow> env_matches n (length n) (m @ CHR ''='' # v) \<longleftrightarrow> n = m" if "env_name m"
proof
  assume n: "env_name n" and e: "env_matches n (length n) (m @ CHR ''='' # v)"
  have t: "n = take (length n) (m @ CHR ''='' # v)" "(m @ CHR ''='' # v) ! length n = CHR ''=''"
    using e by (simp_all add: env_matches_def)
  have "\<not> length m < length n"
  proof
    assume "length m < length n"
    then have "CHR ''='' \<in> set (take (length n) (m @ CHR ''='' # v))" by (simp add: take_Cons')
    then have "CHR ''='' \<in> set n" by (subst t(1))
    then show False using n by (simp add: env_name_def)
  qed
  moreover have "\<not> length n < length m"
  proof
    assume "length n < length m"
    then have "m ! length n = CHR ''=''" using t(2) by (simp add: nth_append)
    then show False using that nth_mem \<open>length n < length m\<close> by (metis env_name_def)
  qed
  ultimately show "n = m" using t(1) by (metis append_eq_conv_conj linorder_neqE_nat)
qed (simp add: env_matches_def)

lemma matches_split: "env_matches n (length n) x \<Longrightarrow> x = n @ CHR ''='' # drop (length n + 1) x"
  using id_take_nth_drop [of "length n" x] by (simp add: env_matches_def)

lemma matches_unique:
  "env_name n \<Longrightarrow> env_name m \<Longrightarrow> env_matches n (length n) x \<Longrightarrow> env_matches m (length m) x \<Longrightarrow> m = n"
  using matches_name [of n m "drop (length n + 1) x"] matches_split [of n x] by simp

lemma name_prefix:
  assumes "env_name n" "env_name m"
  shows "take (length n + 1) (n @ CHR ''='' # v) = take (length n + 1) e \<longleftrightarrow> env_matches n (length n) e"
proof -
  have "take (length n + 1) (n @ CHR ''='' # v) = n @ ''=''" by simp
  moreover have "n @ ''='' = take (length n + 1) e \<longleftrightarrow> n = take (length n) e \<and> length n < length e \<and> e ! length n = CHR ''=''"
  proof
    assume a: "n @ ''='' = take (length n + 1) e"
    then have l: "length n < length e" by (metis Suc_eq_plus1 length_append_singleton length_take lessI min_less_iff_conj not_less_eq)
    then show "n = take (length n) e \<and> length n < length e \<and> e ! length n = CHR ''=''"
      using a by (simp add: take_Suc_conv_app_nth)
  qed (simp add: take_Suc_conv_app_nth)
  ultimately show ?thesis by (auto simp: env_matches_def)
qed

lemma getenv_loop_append:
  "getenv_loop n l (es @ fs) = (case getenv_loop n l es of None \<Rightarrow> getenv_loop n l fs | Some x \<Rightarrow> Some x)"
  by (induction n l es rule: getenv_loop.induct) auto

text \<open>Strings the environment may hold: with a name in front, so that no other name matches them.\<close>

lemma getenv_replace:
  assumes "env_name n" "env_name m" "replace_first (p, n @ CHR ''='' # v) (length n) es = Some (t, es')"
  shows "map_option snd (getenv_loop m (length m) es') =
    (if m = n then Some v else map_option snd (getenv_loop m (length m) es))"
  using assms(3)
proof (induction es arbitrary: t es')
  case (Cons e es)
  obtain q x where e: "e = (q, x)" by (cases e)
  show ?case
  proof (cases "env_matches n (length n) x")
    case True
    then have es': "es' = (p, n @ CHR ''='' # v) # es" using Cons.prems name_prefix [OF assms(1,1), of v x] by (simp add: e)
    have "m \<noteq> n \<Longrightarrow> \<not> env_matches m (length m) x" using matches_unique [OF assms(1,2) True] by blast
    moreover have "env_matches m (length m) (n @ CHR ''='' # v) = (m = n)" by (rule matches_name [OF assms(1,2)])
    ultimately show ?thesis by (cases "m = n") (simp_all add: es' e)
  next
    case False
    then obtain fs where f: "replace_first (p, n @ CHR ''='' # v) (length n) es = Some (t, fs)" "es' = e # fs"
      using Cons.prems name_prefix [OF assms(1,1), of v x] by (auto simp: e)
    have "env_matches m (length m) x \<Longrightarrow> m \<noteq> n" using False by auto
    then show ?thesis using Cons.IH [OF f(1)] by (auto simp: f(2) e)
  qed
qed simp

lemma replace_none:
  assumes "env_name n" "replace_first (p, n @ CHR ''='' # v) (length n) es = None"
  shows "getenv_loop n (length n) es = None"
  using assms(2)
proof (induction es)
  case (Cons e es)
  obtain q x where e: "e = (q, x)" by (cases e)
  then show ?case using Cons name_prefix [OF assms(1,1), of v x] by (auto split: if_splits)
qed simp

lemma env_map_name: "env_name n \<Longrightarrow> env_map s n = (if environ_ptr s = 0 then None else map_option snd (getenv_loop n (length n) (environ s)))"
  using name_length_iff [of n] by (auto simp: env_map_def getenv_def Let_def)

section \<open>Frames\<close>

lemma env_sys [simp]:
  "environ (snd (sys os c s)) = environ s" "environ_ptr (snd (sys os c s)) = environ_ptr s" "oldenv (snd (sys os c s)) = oldenv s"
  "env_alloced (snd (sys os c s)) = env_alloced s" "env_alloced_ptr (snd (sys os c s)) = env_alloced_ptr s"
  by (simp_all add: sys_def split: prod.splits)

lemma env_rm_add_fields [simp]:
  "environ (env_rm_add os old nw s) = environ s" "environ_ptr (env_rm_add os old nw s) = environ_ptr s"
  "oldenv (env_rm_add os old nw s) = oldenv s" "errno (env_rm_add os old nw s) = errno s"
  by (simp_all add: env_rm_add_def Let_def case_prod_beta split: prod.splits bool.splits)

lemma put_env_map:
  assumes "env_name n" "env_name m" "put_env os (p, n @ CHR ''='' # v) (length n) r s = (0, s')"
  shows "env_map s' m = (if m = n then Some v else env_map s m)"
proof (cases "if environ_ptr s \<noteq> 0 then replace_first (p, n @ CHR ''='' # v) (length n) (environ s) else None")
  case None
  let ?es = "if environ_ptr s \<noteq> 0 then environ s else []"
  have s': "environ s' = ?es @ [(p, n @ CHR ''='' # v)]" "environ_ptr s' \<noteq> 0"
    using assms(3) by (auto simp: put_env_def None env_append_def Let_def case_prod_beta split: if_splits)
  have "getenv_loop n (length n) ?es = None" using None replace_none [OF assms(1)] by (auto split: if_splits)
  moreover have "getenv_loop m (length m) [(p, n @ CHR ''='' # v)] = (if m = n then Some (p + of_nat (length n) + 1, v) else None)"
    using matches_name [OF assms(1,2), of v] by auto
  ultimately show ?thesis
    using s' by (auto simp: env_map_name [OF assms(2)] getenv_loop_append split: option.splits)
next
  case (Some x)
  obtain t es where x: "x = (t, es)" by (cases x)
  have "environ s' = es" "environ_ptr s' \<noteq> 0" "replace_first (p, n @ CHR ''='' # v) (length n) (environ s) = Some (t, es)" "environ_ptr s \<noteq> 0"
    using assms(3) Some by (auto simp: put_env_def x split: if_splits)
  then show ?thesis using getenv_replace [OF assms(1,2)] by (simp add: env_map_name [OF assms(2)])
qed

lemma unset_loop_map:
  assumes "env_name n" "env_name m"
  shows "map_option snd (getenv_loop m (length m) (fst (unset_loop os n (length n) es s))) =
    (if m = n then None else map_option snd (getenv_loop m (length m) es))"
proof (induction es arbitrary: s)
  case (Cons e es)
  obtain q x where e: "e = (q, x)" by (cases e)
  have other: "m = n" if "env_matches n (length n) x" "env_matches m (length m) x"
    using matches_unique [OF assms that] .
  show ?case using Cons.IH other by (auto simp: e Let_def case_prod_beta)
qed simp

lemma unset_loop_fields [simp]: "environ_ptr (snd (unset_loop os n l es s)) = environ_ptr s"
  by (induction os n l es s rule: unset_loop.induct) (simp_all add: Let_def case_prod_beta)

lemma setenv_map:
  assumes n: "env_name n" and m: "env_name m" and s': "setenv os (Some n) v ow s = (0, s')"
  shows "env_map s' m = (if m = n \<and> (ow \<or> env_map s n = None) then Some v else env_map s m)"
proof -
  note l = name_length_name [OF n] and nn = name_length_iff [of n]
  show ?thesis
  proof (cases "\<not> ow \<and> getenv n s \<noteq> None")
    case True
    then obtain y where "getenv n s = Some y" by auto
    then have "s' = s" using True s' n nn by (auto simp: setenv_def Let_def env_name_def split: if_splits)
    then show ?thesis using True by (auto simp: env_map_def)
  next
    case False
    define s1 where "s1 = snd (sys os (Heap (malloc (of_nat (length n + length v + 2)))) s)"
    obtain p where "put_env os (p, n @ CHR ''='' # v) (length n) p s1 = (0, s')"
      using s' False n nn l by (auto simp: setenv_def Let_def case_prod_beta s1_def split: if_splits)
    then have "env_map s' m = (if m = n then Some v else env_map s1 m)" by (rule put_env_map [OF n m])
    moreover have "env_map s1 m = env_map s m" by (simp add: env_map_name [OF m] s1_def)
    ultimately show ?thesis using False by (auto simp: env_map_def)
  qed
qed

lemma unsetenv_map:
  assumes "env_name n" "env_name m"
  shows "fst (unsetenv os n s) = 0 \<and> env_map (snd (unsetenv os n s)) m = (if m = n then None else env_map s m)"
  using unset_loop_map [OF assms, of os "environ s" s] name_length_iff [of n] assms(1)
  by (auto simp: unsetenv_def Let_def case_prod_beta env_map_name [OF assms(2)])

lemma env_refuses:
  assumes "\<not> env_name n"
  shows "setenv os (Some n) v ow s = (- 1, set_errno EINVAL s) \<and> unsetenv os n s = (- 1, set_errno EINVAL s)"
proof -
  have "name_length n = 0 \<or> name_length n \<noteq> length n" using assms name_length_iff [of n] by blast
  then show ?thesis by (auto simp: setenv_def unsetenv_def Let_def)
qed

section \<open>The contract of a store of names\<close>

text \<open>
  What a client of the environment relies on: an update succeeds only by setting its one name, a removal always succeeds on a
  name. From the two laws follows the effect of every history of calls, which is the same history on a map.
\<close>

datatype env_op = Env_set string string bool | Env_unset string

fun op_name :: "env_op \<Rightarrow> string" where
  "op_name (Env_set n v ow) = n"
| "op_name (Env_unset n) = n"

fun env_exec :: "(string \<Rightarrow> string \<Rightarrow> bool \<Rightarrow> 's \<Rightarrow> int \<times> 's) \<Rightarrow> (string \<Rightarrow> 's \<Rightarrow> int \<times> 's) \<Rightarrow> env_op list \<Rightarrow> 's \<Rightarrow> 's option" where
  "env_exec st un [] s = Some s"
| "env_exec st un (op # ops) s =
     (let (r, s) = (case op of Env_set n v ow \<Rightarrow> st n v ow s | Env_unset n \<Rightarrow> un n s)
      in if r = 0 then env_exec st un ops s else None)"

fun map_exec :: "env_op list \<Rightarrow> (string \<rightharpoonup> string) \<Rightarrow> (string \<rightharpoonup> string)" where
  "map_exec [] f = f"
| "map_exec (Env_set n v ow # ops) f = map_exec ops (if ow \<or> f n = None then f(n \<mapsto> v) else f)"
| "map_exec (Env_unset n # ops) f = map_exec ops (f(n := None))"

locale name_store =
  fixes st :: "string \<Rightarrow> string \<Rightarrow> bool \<Rightarrow> 's \<Rightarrow> int \<times> 's"
    and un :: "string \<Rightarrow> 's \<Rightarrow> int \<times> 's"
    and look :: "'s \<Rightarrow> string \<Rightarrow> string option"
    and name :: "string \<Rightarrow> bool"
  assumes set_law: "name n \<Longrightarrow> name m \<Longrightarrow> st n v ow s = (0, s') \<Longrightarrow>
      look s' m = (if m = n \<and> (ow \<or> look s n = None) then Some v else look s m)"
    and unset_succeeds: "name n \<Longrightarrow> fst (un n s) = 0"
    and unset_law: "name n \<Longrightarrow> name m \<Longrightarrow> look (snd (un n s)) m = (if m = n then None else look s m)"
begin

text \<open>The store and a map agree on every name.\<close>

definition agrees :: "'s \<Rightarrow> (string \<rightharpoonup> string) \<Rightarrow> bool" where
  "agrees s f \<longleftrightarrow> (\<forall>m. name m \<longrightarrow> look s m = f m)"

lemma history_agrees:
  "list_all (\<lambda>op. name (op_name op)) ops \<Longrightarrow> env_exec st un ops s = Some s' \<Longrightarrow> agrees s f \<Longrightarrow> agrees s' (map_exec ops f)"
proof (induction ops arbitrary: s f)
  case (Cons op ops)
  show ?case
  proof (cases op)
    case (Env_set n v ow)
    then obtain t where t: "st n v ow s = (0, t)" "env_exec st un ops t = Some s'"
      using Cons.prems(2) by (auto split: prod.splits if_splits)
    have "agrees t (if ow \<or> f n = None then f(n \<mapsto> v) else f)"
      using Cons.prems(1,3) set_law [OF _ _ t(1)] by (auto simp: agrees_def Env_set)
    then show ?thesis using Cons.IH [OF _ t(2)] Cons.prems(1) by (simp add: Env_set)
  next
    case (Env_unset n)
    then have t: "env_exec st un ops (snd (un n s)) = Some s'"
      using Cons.prems(2) by (auto split: prod.splits if_splits)
    have "agrees (snd (un n s)) (f(n := None))"
      using Cons.prems(1,3) unset_law [of n _ s] by (auto simp: agrees_def Env_unset)
    then show ?thesis using Cons.IH [OF _ t] Cons.prems(1) by (simp add: Env_unset)
  qed
qed simp

lemma history_looks_up:
  assumes "list_all (\<lambda>op. name (op_name op)) ops" "env_exec st un ops s = Some s'" "name m"
  shows "look s' m = map_exec ops (look s) m"
  using history_agrees [OF assms(1,2), of "look s"] assms(3) by (simp add: agrees_def)

text \<open>A history of removals never fails.\<close>

lemma removals_succeed: "list_all name ns \<Longrightarrow> \<exists>s'. env_exec st un (map Env_unset ns) s = Some s'"
  by (induction ns arbitrary: s) (auto simp: unset_succeeds case_prod_beta)

end

interpretation env: name_store "\<lambda>n v ow. setenv os (Some n) v ow" "unsetenv os" env_map env_name
  by unfold_locales (use setenv_map unsetenv_map in blast)+

section \<open>Properties\<close>

text \<open>C34 (refinement): the environment refines a map from names to values. A successful \<open>setenv\<close> that overwrites, or that
  finds no value, sets exactly its name; without the permission to overwrite an existing value stays. \<open>unsetenv\<close>
  always succeeds on a name and removes exactly that name. Names with an equals sign and the empty name
  are refused with EINVAL and nothing changes. After any history of successful calls on names the environment is what the same
  history makes of the map.\<close>
theorem environment_is_map:
  "(env_name n \<and> env_name m \<and> setenv os (Some n) v ow s = (0, s') \<longrightarrow>
      env_map s' m = (if m = n \<and> (ow \<or> env_map s n = None) then Some v else env_map s m)) \<and>
   (env_name n \<and> env_name m \<longrightarrow> fst (unsetenv os n s) = 0 \<and>
      env_map (snd (unsetenv os n s)) m = (if m = n then None else env_map s m)) \<and>
   (\<not> env_name n \<longrightarrow> setenv os (Some n) v ow s = (- 1, set_errno EINVAL s) \<and>
      unsetenv os n s = (- 1, set_errno EINVAL s)) \<and>
   (list_all (\<lambda>op. env_name (op_name op)) ops \<and> env_name m \<and>
    env_exec (\<lambda>n v ow. setenv os (Some n) v ow) (unsetenv os) ops s = Some s' \<longrightarrow> env_map s' m = map_exec ops (env_map s) m)"
  using setenv_map [of n m os v ow s s'] unsetenv_map [of n m os s] env_refuses [of n os v ow s]
    env.history_looks_up [of ops os s s' m] by blast

text \<open>A platform that always allocates, and an empty environment.\<close>

definition env_os :: "sce_call \<Rightarrow> unit \<Rightarrow> reply \<times> unit" where
  "env_os c w = (ret_reply 0x1000, w)"

definition env_start :: "unit env_state" where
  "env_start = \<lparr>errno = 0, mem = (\<lambda>_. 0), world = (), environ_ptr = 0, environ = [], oldenv = 0,
     env_alloced_ptr = 0, env_alloced = []\<rparr>"

theorem environment_is_map_witness:
  "\<exists>s'. setenv env_os (Some ''HOME'') ''app0:'' True env_start = (0, s') \<and> env_map s' ''HOME'' = Some ''app0:'' \<and>
     env_map (snd (unsetenv env_os ''HOME'' s')) ''HOME'' = None"
proof -
  let ?r = "setenv env_os (Some ''HOME'') ''app0:'' True env_start"
  have n: "env_name ''HOME''" by (simp add: env_name_def)
  have "fst ?r = 0"
    by (simp add: setenv_def name_length_def put_env_def env_append_def env_start_def env_os_def sys_def Let_def)
  then have r: "?r = (0, snd ?r)" by (simp add: prod_eq_iff)
  then show ?thesis
    using environment_is_map [of "''HOME''" "''HOME''" env_os "''app0:''" True env_start "snd ?r"]
      environment_is_map [of "''HOME''" "''HOME''" env_os "''app0:''" True "snd ?r" "snd ?r"] n by metis
qed

end
