(* ===== verification/Net_Addr.thy ===== *)
theory Net_Addr
  imports Net_Socket
begin

text \<open>
  Addresses as text: inet_pton and inet_ntop (\<^verbatim>\<open>src/network/inet_pton.c\<close>, \<^verbatim>\<open>inet_ntop.c\<close>) and the network and
  host parts of \<^verbatim>\<open>inet_legacy.c\<close>. IPv4 goes to the platform; IPv6 is done here. The array \<open>tmp\<close> of the parser is
  a list of 16 bytes with the index \<open>tp\<close>, and \<open>colonp\<close> is the index where the double colon stood.
\<close>

definition NS_IN6ADDRSZ :: nat where "NS_IN6ADDRSZ = 16"

section \<open>Parsing\<close>

text \<open>\<^verbatim>\<open>strchr\<close> in the lower-case digits, then in the upper-case ones.\<close>

definition index_of :: "char \<Rightarrow> string \<Rightarrow> nat option" where
  "index_of c xs = (if c \<in> set xs then Some (length (takeWhile (\<lambda>x. x \<noteq> c) xs)) else None)"

definition xdigit :: "char \<Rightarrow> nat option" where
  "xdigit c = (case index_of c ''0123456789abcdef'' of Some d \<Rightarrow> Some d | None \<Rightarrow> index_of c ''0123456789ABCDEF'')"

text \<open>The IPv4 part: the result and the four bytes the platform stores at \<open>tp\<close>.\<close>

definition inet_pton4 ::
  "'w services \<Rightarrow> (int \<Rightarrow> int) \<Rightarrow> string \<Rightarrow> bool \<Rightarrow> ('w, 'z) libc_scheme \<Rightarrow> (int \<times> byte list) \<times> ('w, 'z) libc_scheme" where
  "inet_pton4 os net src dst s =
     (let (r, s) = sys os (Net (sceNetInetPton src)) s;
          s = (if \<not> dst then (let (e, s) = sys os (Net sceNetErrnoLoc) s
                              in set_errno (scenet_errno_to_errno net (rp_ret e)) s) else s)
      in ((if rp_ret r < 0 then - 1 else rp_ret r, map (\<lambda>i. word_of_int (outp r i 0)) [0..<4]), s))"

record pton_state =
  tmp :: "byte list"
  tp :: nat
  colonp :: "nat option"
  saw_xdigit :: bool
  val :: nat

text \<open>Storing the 16 bits of \<open>val\<close>, high byte first.\<close>

definition put_val :: "pton_state \<Rightarrow> pton_state" where
  "put_val q = q\<lparr>tmp := (tmp q)[tp q := of_nat (val q div 256), Suc (tp q) := of_nat (val q)], tp := tp q + 2\<rparr>"

text \<open>The loop over the characters; \<open>None\<close> is \<^verbatim>\<open>return 0\<close>. \<open>curtok\<close> is the text from the current group on.\<close>

fun pton6_loop ::
  "'w services \<Rightarrow> (int \<Rightarrow> int) \<Rightarrow> string \<Rightarrow> string \<Rightarrow> pton_state \<Rightarrow> ('w, 'z) libc_scheme \<Rightarrow>
     pton_state option \<times> ('w, 'z) libc_scheme" where
  "pton6_loop os net curtok [] q s = (Some q, s)"
| "pton6_loop os net curtok (ch # src) q s =
     (case xdigit ch of
        Some d \<Rightarrow>
          (let v = val q * 16 + d in
           if v > 0xffff then (None, s) else pton6_loop os net curtok src (q\<lparr>val := v, saw_xdigit := True\<rparr>) s)
      | None \<Rightarrow>
          if ch = CHR '':'' then
            if \<not> saw_xdigit q then
              if colonp q \<noteq> None then (None, s)
              else pton6_loop os net src src (q\<lparr>colonp := Some (tp q)\<rparr>) s
            else if tp q + 2 > NS_IN6ADDRSZ then (None, s)
            else pton6_loop os net src src ((put_val q)\<lparr>saw_xdigit := False, val := 0\<rparr>) s
          else if ch = CHR ''.'' \<and> tp q + 4 \<le> NS_IN6ADDRSZ then
            (let ((r, bs), s) = inet_pton4 os net curtok True s in
             if r > 0 then
               (Some (q\<lparr>tmp := take (tp q) (tmp q) @ bs @ drop (tp q + 4) (tmp q), tp := tp q + 4, saw_xdigit := False\<rparr>), s)
             else (None, s))
          else (None, s))"

text \<open>The shift by hand: byte \<open>n - i\<close> from the colons goes to byte \<open>i\<close> from the end and is cleared.\<close>

fun shift_loop :: "nat \<Rightarrow> nat \<Rightarrow> nat \<Rightarrow> byte list \<Rightarrow> byte list" where
  "shift_loop c n 0 bs = bs"
| "shift_loop c n (Suc k) bs =
     (let i = n - k; bs = bs[NS_IN6ADDRSZ - i := bs ! (c + n - i)]; bs = bs[c + n - i := 0]
      in shift_loop c n k bs)"

definition pton6_finish :: "pton_state \<Rightarrow> byte list option" where
  "pton6_finish q =
     (if saw_xdigit q \<and> tp q + 2 > NS_IN6ADDRSZ then None
      else
        (let q = (if saw_xdigit q then put_val q else q) in
         case colonp q of
           Some c \<Rightarrow> Some (shift_loop c (tp q - c) (tp q - c) (tmp q))
         | None \<Rightarrow> if tp q \<noteq> NS_IN6ADDRSZ then None else Some (tmp q)))"

definition inet_pton6 ::
  "'w services \<Rightarrow> (int \<Rightarrow> int) \<Rightarrow> string \<Rightarrow> ('w, 'z) libc_scheme \<Rightarrow> byte list option \<times> ('w, 'z) libc_scheme" where
  "inet_pton6 os net src s =
     (let q = \<lparr>tmp = replicate NS_IN6ADDRSZ 0, tp = 0, colonp = None, saw_xdigit = False, val = 0\<rparr>;
          start = (case src of c # src' \<Rightarrow> if c = CHR '':'' then (if take 1 src' = '':'' then Some src' else None) else Some src
                   | [] \<Rightarrow> Some src)
      in case start of
           None \<Rightarrow> (None, s)
         | Some src \<Rightarrow>
             (case pton6_loop os net src src q s of
                (None, s) \<Rightarrow> (None, s)
              | (Some q, s) \<Rightarrow> (pton6_finish q, s)))"

section \<open>Printing\<close>

definition addr_words :: "byte list \<Rightarrow> nat list" where
  "addr_words src = map (\<lambda>i. unat (src ! (2 * i)) * 256 + unat (src ! (2 * i + 1))) [0..<8]"

text \<open>A run of zeros is its base and length; \<open>None\<close> is a base of -1.\<close>

type_synonym zrun = "(nat \<times> nat) option"

definition better :: "zrun \<Rightarrow> zrun \<Rightarrow> zrun" where
  "better best cur =
     (case cur of
        None \<Rightarrow> best
      | Some (b, l) \<Rightarrow> (case best of None \<Rightarrow> cur | Some (b', l') \<Rightarrow> if l > l' then cur else best))"

fun run_loop :: "nat \<Rightarrow> nat list \<Rightarrow> zrun \<Rightarrow> zrun \<Rightarrow> zrun" where
  "run_loop i [] best cur = better best cur"
| "run_loop i (w # ws) best cur =
     (if w = 0 then
        run_loop (Suc i) ws best (case cur of None \<Rightarrow> Some (i, 1) | Some (b, l) \<Rightarrow> Some (b, l + 1))
      else run_loop (Suc i) ws (better best cur) None)"

definition best_run :: "nat list \<Rightarrow> zrun" where
  "best_run ws = (case run_loop 0 ws None None of Some (b, l) \<Rightarrow> if l < 2 then None else Some (b, l) | None \<Rightarrow> None)"

definition digit :: "nat \<Rightarrow> char" where
  "digit d = ''0123456789abcdef'' ! d"

fun hex_str :: "nat \<Rightarrow> string" where
  "hex_str n = (if n < 16 then [digit n] else hex_str (n div 16) @ [digit (n mod 16)])"

declare hex_str.simps [simp del]

definition inet_ntop4 ::
  "'w services \<Rightarrow> (int \<Rightarrow> int) \<Rightarrow> byte list \<Rightarrow> int \<Rightarrow> ('w, 'z) libc_scheme \<Rightarrow> string option \<times> ('w, 'z) libc_scheme" where
  "inet_ntop4 os net src n s =
     (let (r, s) = sys os (Net (sceNetInetNtop src n)) s in
      if rp_ret r = 0 then
        (let (e, s) = sys os (Net sceNetErrnoLoc) s in (None, set_errno (scenet_errno_to_errno net (rp_ret e)) s))
      else (Some (rp_str r), s))"

definition in_run :: "zrun \<Rightarrow> nat \<Rightarrow> bool" where
  "in_run r i = (case r of None \<Rightarrow> False | Some (b, l) \<Rightarrow> b \<le> i \<and> i < b + l)"

definition embedded4 :: "zrun \<Rightarrow> nat list \<Rightarrow> bool" where
  "embedded4 r ws = (case r of None \<Rightarrow> False | Some (b, l) \<Rightarrow> b = 0 \<and> (l = 6 \<or> l = 5 \<and> ws ! 5 = 0xffff))"

text \<open>The formatting loop from word \<open>i\<close> on; \<open>out\<close> is what is in \<open>tmp\<close>.\<close>

fun format_loop ::
  "'w services \<Rightarrow> (int \<Rightarrow> int) \<Rightarrow> byte list \<Rightarrow> zrun \<Rightarrow> nat list \<Rightarrow> nat list \<Rightarrow> string \<Rightarrow> ('w, 'z) libc_scheme \<Rightarrow>
     string option \<times> ('w, 'z) libc_scheme" where
  "format_loop os net src r ws [] out s = (Some out, s)"
| "format_loop os net src r ws (i # is) out s =
     (if in_run r i then
        format_loop os net src r ws is (if (case r of None \<Rightarrow> False | Some (b, l) \<Rightarrow> i = b) then out @ '':'' else out) s
      else
        (let out = (if i \<noteq> 0 then out @ '':'' else out) in
         if i = 6 \<and> embedded4 r ws then
           (case inet_ntop4 os net (drop 12 src) (46 - int (length out)) s of
              (None, s) \<Rightarrow> (None, s)
            | (Some t, s) \<Rightarrow> (Some (out @ t), s))
         else format_loop os net src r ws is (out @ hex_str (ws ! i)) s))"

definition inet_ntop6 ::
  "'w services \<Rightarrow> (int \<Rightarrow> int) \<Rightarrow> byte list \<Rightarrow> nat \<Rightarrow> ('w, 'z) libc_scheme \<Rightarrow> string option \<times> ('w, 'z) libc_scheme" where
  "inet_ntop6 os net src n s =
     (let ws = addr_words src; r = best_run ws in
      case format_loop os net src r ws [0..<8] [] s of
        (None, s) \<Rightarrow> (None, s)
      | (Some out, s) \<Rightarrow>
          (let out = (if (case r of None \<Rightarrow> False | Some (b, l) \<Rightarrow> b + l = 8) then out @ '':'' else out) in
           if length out + 1 > n then (None, set_errno ENOSPC s) else (Some out, s)))"

section \<open>Both families\<close>

abbreviation (input) AF_INET :: int where "AF_INET \<equiv> 2"

text \<open>The result of \<open>inet_pton\<close> and the bytes stored at \<open>dst\<close>; \<open>dst\<close> tells whether the pointer is not null.
  The number \<open>AF_INET6\<close> is the SDK's and a parameter.\<close>

definition inet_pton ::
  "'w services \<Rightarrow> (int \<Rightarrow> int) \<Rightarrow> net_sdk \<Rightarrow> int \<Rightarrow> int \<Rightarrow> string \<Rightarrow> bool \<Rightarrow> ('w, 'z) net_state_scheme \<Rightarrow>
     (int \<times> byte list) \<times> ('w, 'z) net_state_scheme" where
  "inet_pton os net nk AF_INET6 af src dst s =
     (if af = AF_INET then inet_pton4 os net src dst (snd (net_init os nk s))
      else if af = AF_INET6 then
        (case inet_pton6 os net src (snd (net_init os nk s)) of
           (None, s) \<Rightarrow> ((0, []), s)
         | (Some bs, s) \<Rightarrow> ((1, bs), s))
      else ((- 1, []), set_errno EAFNOSUPPORT s))"

definition inet_ntop ::
  "'w services \<Rightarrow> (int \<Rightarrow> int) \<Rightarrow> net_sdk \<Rightarrow> int \<Rightarrow> int \<Rightarrow> byte list \<Rightarrow> nat \<Rightarrow> ('w, 'z) net_state_scheme \<Rightarrow>
     string option \<times> ('w, 'z) net_state_scheme" where
  "inet_ntop os net nk AF_INET6 af src n s =
     (if af = AF_INET then inet_ntop4 os net src (int n) (snd (net_init os nk s))
      else if af = AF_INET6 then inet_ntop6 os net src n (snd (net_init os nk s))
      else (None, set_errno EAFNOSUPPORT s))"

section \<open>Network and host parts\<close>

definition inet_makeaddr :: "32 word \<Rightarrow> 32 word \<Rightarrow> 32 word" where
  "inet_makeaddr n h =
     (if n < 256 then h OR push_bit 24 n else if n < 65536 then h OR push_bit 16 n else h OR push_bit 8 n)"

definition inet_lnaof :: "32 word \<Rightarrow> 32 word" where
  "inet_lnaof h =
     (if drop_bit 24 h < 128 then h AND 0xffffff else if drop_bit 24 h < 192 then h AND 0xffff else h AND 0xff)"

definition inet_netof :: "32 word \<Rightarrow> 32 word" where
  "inet_netof h =
     (if drop_bit 24 h < 128 then drop_bit 24 h else if drop_bit 24 h < 192 then drop_bit 16 h else drop_bit 8 h)"

section \<open>Parsing one group\<close>

lemma xdigit_digit: "d < 16 \<Longrightarrow> xdigit (digit d) = Some d"
proof -
  have "list_all (\<lambda>d. xdigit (digit d) = Some d) [0..<16]" by code_simp
  then show "d < 16 \<Longrightarrow> xdigit (digit d) = Some d" by (auto simp: list_all_iff)
qed

lemma xdigit_punct [simp]: "xdigit (CHR '':'') = None" "xdigit (CHR ''.'') = None"
  by code_simp+

lemma parse_hex:
  "w < 65536 \<Longrightarrow> val q = 0 \<Longrightarrow>
   pton6_loop os net ct (hex_str w @ rest) q s = pton6_loop os net ct rest (q\<lparr>val := w, saw_xdigit := True\<rparr>) s"
proof (induction w arbitrary: rest rule: hex_str.induct)
  case (1 n)
  show ?case
  proof (cases "n < 16")
    case True
    then show ?thesis using 1 by (simp add: hex_str.simps [of n] xdigit_digit Let_def)
  next
    case False
    have "n div 16 < 65536" using 1 by (simp add: div_le_dividend order_le_less_trans)
    then have "pton6_loop os net ct (hex_str (n div 16) @ digit (n mod 16) # rest) q s =
        pton6_loop os net ct (digit (n mod 16) # rest) (q\<lparr>val := n div 16, saw_xdigit := True\<rparr>) s"
      using 1 False by simp
    also have "\<dots> = pton6_loop os net ct rest (q\<lparr>val := n, saw_xdigit := True\<rparr>) s"
      using 1(2) by (simp add: xdigit_digit Let_def)
    finally show ?thesis using False by (simp add: hex_str.simps [of n])
  qed
qed

section \<open>Parsing a list of groups\<close>

definition wbytes :: "nat list \<Rightarrow> byte list" where
  "wbytes ws = concat (map (\<lambda>w. [of_nat (w div 256), of_nat w]) ws)"

lemma wbytes_simps [simp]: "wbytes [] = []" "wbytes (w # ws) = of_nat (w div 256) # of_nat w # wbytes ws"
  "wbytes (us @ ws) = wbytes us @ wbytes ws" "length (wbytes ws) = 2 * length ws"
  by (simp_all add: wbytes_def) (induction ws, simp_all)

text \<open>The parser after the groups \<open>ws\<close>.\<close>

definition parsed :: "nat list \<Rightarrow> nat option \<Rightarrow> bool \<Rightarrow> nat \<Rightarrow> pton_state" where
  "parsed ws c saw v = \<lparr>tmp = wbytes ws @ replicate (16 - 2 * length ws) 0, tp = 2 * length ws, colonp = c, saw_xdigit = saw, val = v\<rparr>"

lemma put_parsed:
  assumes "length ws < 8"
  shows "put_val (parsed ws c saw w) = parsed (ws @ [w]) c saw w"
proof -
  have r: "replicate (16 - 2 * length ws) (0 :: byte) = 0 # 0 # replicate (16 - 2 * length (ws @ [w])) 0"
  proof -
    have "16 - 2 * length ws = Suc (Suc (16 - 2 * length (ws @ [w])))" using assms by simp
    then show ?thesis by simp
  qed
  have u: "(xs @ 0 # 0 # ys)[length xs := a, Suc (length xs) := b] = xs @ a # b # ys" for xs ys and a b :: byte
    by (simp add: list_update_append)
  show ?thesis unfolding put_val_def parsed_def r
    using u [of "wbytes ws" "replicate (16 - 2 * length (ws @ [w])) 0"] by simp
qed

lemma colon_step:
  "length us < 8 \<Longrightarrow> pton6_loop os net ct (CHR '':'' # src) (parsed us c True v) s = pton6_loop os net src src (parsed (us @ [v]) c False 0) s"
  using put_parsed [of us c True v] by (simp add: NS_IN6ADDRSZ_def parsed_def)

definition groups :: "nat list \<Rightarrow> string" where
  "groups ws = (case ws of [] \<Rightarrow> [] | w # ws \<Rightarrow> hex_str w @ concat (map (\<lambda>w. CHR '':'' # hex_str w) ws))"

lemma parse_tail:
  assumes "length us + length vs < 8" "\<forall>w \<in> set vs. w < 65536"
  shows "pton6_loop os net ct (concat (map (\<lambda>w. CHR '':'' # hex_str w) vs) @ rest) (parsed us c True v) s =
    pton6_loop os net (if vs = [] then ct else hex_str (last vs) @ rest) rest
      (parsed (us @ butlast (v # vs)) c True (last (v # vs))) s"
  using assms
proof (induction vs arbitrary: us v ct)
  case (Cons x vs)
  let ?t = "hex_str x @ concat (map (\<lambda>w. CHR '':'' # hex_str w) vs) @ rest"
  have "pton6_loop os net ct (CHR '':'' # ?t) (parsed us c True v) s = pton6_loop os net ?t ?t (parsed (us @ [v]) c False 0) s"
    using Cons.prems by (intro colon_step) simp
  also have "\<dots> = pton6_loop os net ?t (concat (map (\<lambda>w. CHR '':'' # hex_str w) vs) @ rest) (parsed (us @ [v]) c True x) s"
    using Cons.prems by (simp add: parse_hex parsed_def)
  also have "\<dots> = pton6_loop os net (if vs = [] then ?t else hex_str (last vs) @ rest) rest
      (parsed ((us @ [v]) @ butlast (x # vs)) c True (last (x # vs))) s"
    using Cons.prems by (intro Cons.IH) simp_all
  finally show ?case by simp
qed simp

text \<open>A list of groups ends with its last group not yet stored.\<close>

lemma parse_groups:
  assumes "ws \<noteq> []" "length us + length ws \<le> 8" "\<forall>w \<in> set ws. w < 65536"
  shows "\<exists>ct'. pton6_loop os net ct (groups ws @ rest) (parsed us c False 0) s =
    pton6_loop os net ct' rest (parsed (us @ butlast ws) c True (last ws)) s"
proof -
  obtain w vs where ws: "ws = w # vs" using assms(1) by (cases ws) auto
  have "pton6_loop os net ct (groups ws @ rest) (parsed us c False 0) s =
      pton6_loop os net ct (concat (map (\<lambda>w. CHR '':'' # hex_str w) vs) @ rest) (parsed us c True w) s"
    using assms(3) by (simp add: ws groups_def parse_hex parsed_def)
  also have "\<dots> = pton6_loop os net (if vs = [] then ct else hex_str (last vs) @ rest) rest
      (parsed (us @ butlast (w # vs)) c True (last (w # vs))) s"
    using assms by (intro parse_tail) (simp_all add: ws)
  finally show ?thesis by (auto simp: ws)
qed

text \<open>The end of the text after groups, with a group pending.\<close>

lemma parsed_sel [simp]:
  "tmp (parsed ws c saw v) = wbytes ws @ replicate (16 - 2 * length ws) 0" "tp (parsed ws c saw v) = 2 * length ws"
  "colonp (parsed ws c saw v) = c" "saw_xdigit (parsed ws c saw v) = saw"
  by (simp_all add: parsed_def)

definition parsed_result :: "nat list \<Rightarrow> nat option \<Rightarrow> byte list option" where
  "parsed_result ws c =
     (let bs = wbytes ws @ replicate (16 - 2 * length ws) 0; n = 2 * length ws in
      case c of Some c \<Rightarrow> Some (shift_loop c (n - c) (n - c) bs) | None \<Rightarrow> if length ws = 8 then Some bs else None)"

lemma finish_parsed:
  "pton6_finish (parsed ws c False v) = parsed_result ws c"
  "length ws < 8 \<Longrightarrow> pton6_finish (parsed ws c True w) = parsed_result (ws @ [w]) c"
proof -
  show "pton6_finish (parsed ws c False v) = parsed_result ws c"
    by (simp add: pton6_finish_def parsed_result_def Let_def NS_IN6ADDRSZ_def split: option.split)
  assume w: "length ws < 8"
  then have "\<not> NS_IN6ADDRSZ < 2 * length ws + 2" by (simp add: NS_IN6ADDRSZ_def)
  then have "pton6_finish (parsed ws c True w) =
     (case c of Some d \<Rightarrow> Some (shift_loop d (2 * length (ws @ [w]) - d) (2 * length (ws @ [w]) - d) (tmp (parsed (ws @ [w]) c True w)))
      | None \<Rightarrow> if 2 * length (ws @ [w]) \<noteq> NS_IN6ADDRSZ then None else Some (tmp (parsed (ws @ [w]) c True w)))"
    using put_parsed [OF w, of c True w] by (simp add: pton6_finish_def Let_def split: option.split)
  then show "pton6_finish (parsed ws c True w) = parsed_result (ws @ [w]) c"
    by (auto simp: parsed_result_def Let_def NS_IN6ADDRSZ_def split: option.split)
qed

section \<open>The double colon\<close>

lemma shift_step:
  assumes "length xs + length (zs @ [y]) + Suc g + length ys2 = 16" "n = length zs + 1 + length ys2" "c = length xs"
  shows "shift_loop c n (Suc (length zs)) (xs @ (zs @ [y]) @ replicate (Suc g) 0 @ ys2) =
    shift_loop c n (length zs) (xs @ zs @ replicate (Suc g) 0 @ y # ys2)"
proof -
  let ?A = "xs @ zs"
  have l: "xs @ (zs @ [y]) @ replicate (Suc g) 0 @ ys2 = ?A @ y # replicate g 0 @ 0 # ys2"
    by (simp add: replicate_app_Cons_same)
  have i: "NS_IN6ADDRSZ - (n - length zs) = length (?A @ y # replicate g (0 :: byte))"
    "c + n - (n - length zs) = length ?A"
    using assms by (simp_all add: NS_IN6ADDRSZ_def)
  have "(?A @ y # replicate g 0 @ 0 # ys2)[length (?A @ y # replicate g (0 :: byte)) := y] = (?A @ y # replicate g 0) @ y # ys2"
    using list_update_length [of "?A @ y # replicate g 0" 0 ys2 y] by simp
  moreover have "((?A @ y # replicate g 0) @ y # ys2)[length ?A := 0] = xs @ zs @ replicate (Suc g) 0 @ y # ys2"
    using list_update_length [of ?A y "replicate g 0 @ y # ys2" 0] by simp
  moreover have "(?A @ y # replicate g 0 @ 0 # ys2) ! length ?A = y" by (rule nth_append_length)
  ultimately show ?thesis unfolding l by (simp only: shift_loop.simps Let_def i)
qed

lemma shift_moves:
  assumes "length xs + length ys1 + Suc g + length ys2 = 16" "n = length ys1 + length ys2" "c = length xs"
  shows "shift_loop c n (length ys1) (xs @ ys1 @ replicate (Suc g) 0 @ ys2) = xs @ replicate (Suc g) 0 @ ys1 @ ys2"
  using assms
proof (induction ys1 arbitrary: ys2 rule: rev_induct)
  case (snoc y zs)
  have "shift_loop c n (length (zs @ [y])) (xs @ (zs @ [y]) @ replicate (Suc g) 0 @ ys2) =
      shift_loop c n (length zs) (xs @ zs @ replicate (Suc g) 0 @ y # ys2)"
    using shift_step [of xs zs y g ys2 n c] snoc.prems by simp
  also have "\<dots> = xs @ replicate (Suc g) 0 @ zs @ y # ys2"
    using snoc.prems by (intro snoc.IH) simp_all
  finally show ?case by simp
qed simp

lemma wbytes_zeros: "wbytes (replicate k 0) = replicate (2 * k) 0"
  by (induction k) simp_all

lemma result_colon:
  assumes "length pre + length post < 8"
  shows "parsed_result (pre @ post) (Some (2 * length pre)) =
    Some (wbytes (pre @ replicate (8 - length pre - length post) 0 @ post))"
proof -
  define g where "g = 15 - 2 * length pre - 2 * length post"
  have l: "2 * length pre + 2 * length post + Suc g = 16" using assms by (simp add: g_def)
  have "shift_loop (2 * length pre) (2 * length post) (length (wbytes post)) (wbytes pre @ wbytes post @ replicate (Suc g) 0 @ []) =
      wbytes pre @ replicate (Suc g) 0 @ wbytes post @ []"
    by (rule shift_moves) (use l in simp_all)
  moreover have "16 - 2 * length (pre @ post) = Suc g" "2 * (8 - length pre - length post) = Suc g" using l by simp_all
  moreover have "2 * length (pre @ post) - 2 * length pre = 2 * length post" by simp
  ultimately show ?thesis by (simp only: parsed_result_def Let_def option.case wbytes_simps wbytes_zeros append_assoc append_Nil2)
qed

section \<open>The run of zeros\<close>

text \<open>A run lies inside the words seen so far and holds only zeros.\<close>

definition run_ok :: "nat list \<Rightarrow> nat \<Rightarrow> zrun \<Rightarrow> bool" where
  "run_ok ws n r \<longleftrightarrow> (\<forall>b l. r = Some (b, l) \<longrightarrow> b + l \<le> n \<and> (\<forall>i. b \<le> i \<and> i < b + l \<longrightarrow> ws ! i = 0))"

lemma better_ok: "run_ok ws n best \<Longrightarrow> run_ok ws n cur \<Longrightarrow> run_ok ws n (better best cur)"
  by (auto simp: better_def split: option.splits)

lemma run_ok_mono: "run_ok ws n r \<Longrightarrow> n \<le> m \<Longrightarrow> run_ok ws m r"
  by (auto simp: run_ok_def dest: order_trans)

text \<open>The current run ends where the loop stands.\<close>

lemma run_loop_ok:
  assumes "run_ok ws i best" "run_ok ws i cur" "\<forall>b l. cur = Some (b, l) \<longrightarrow> b + l = i" "drop i ws = vs" "i + length vs = length ws"
  shows "run_ok ws (length ws) (run_loop i vs best cur)"
  using assms
proof (induction vs arbitrary: i best cur)
  case Nil
  then show ?case by (simp add: better_ok)
next
  case (Cons w vs)
  have i: "i < length ws" "ws ! i = w" "drop (Suc i) ws = vs"
    using Cons.prems(4,5) nth_via_drop [OF Cons.prems(4)] tl_drop [of i ws] by (simp_all add: drop_Suc)
  have up: "run_ok ws i r \<Longrightarrow> run_ok ws (Suc i) r" for r using run_ok_mono by simp
  show ?case
  proof (cases "w = 0")
    case True
    let ?cur = "case cur of None \<Rightarrow> Some (i, 1) | Some (b, l) \<Rightarrow> Some (b, l + 1)"
    have "run_ok ws (Suc i) ?cur" using Cons.prems(2,3) i True
      by (auto simp: run_ok_def less_Suc_eq split: option.splits)
    then have "run_ok ws (length ws) (run_loop (Suc i) vs best ?cur)"
      using up [OF Cons.prems(1)] Cons.prems(3,5) i by (intro Cons.IH) (auto split: option.splits)
    then show ?thesis using True by simp
  next
    case False
    have "run_ok ws (length ws) (run_loop (Suc i) vs (better best cur) None)"
      using up [OF better_ok [OF Cons.prems(1,2)]] Cons.prems(5) i by (intro Cons.IH) (auto simp: run_ok_def [of _ _ None])
    then show ?thesis using False by simp
  qed
qed

lemma best_run_ok:
  assumes "length ws = 8" "best_run ws = Some (b, l)"
  shows "2 \<le> l" "b + l \<le> 8" "\<forall>i. b \<le> i \<and> i < b + l \<longrightarrow> ws ! i = 0"
proof -
  have "run_ok ws (length ws) (run_loop 0 ws None None)"
    by (rule run_loop_ok) (simp_all add: run_ok_def)
  then show "2 \<le> l" "b + l \<le> 8" "\<forall>i. b \<le> i \<and> i < b + l \<longrightarrow> ws ! i = 0"
    using assms by (auto simp: best_run_def run_ok_def split: option.splits if_splits)
qed

text \<open>
  The specification of the run: some groups that are all zero; the longest such piece of two groups or more and, of several
  that are as long, the first; none when no two neighbours are zero.
\<close>

definition zeros_at :: "nat list \<Rightarrow> nat \<Rightarrow> nat \<Rightarrow> bool" where
  "zeros_at ws b l \<longleftrightarrow> b + l \<le> length ws \<and> (\<forall>i. b \<le> i \<and> i < b + l \<longrightarrow> ws ! i = 0)"

definition longest_zeros :: "nat list \<Rightarrow> zrun \<Rightarrow> bool" where
  "longest_zeros ws r \<longleftrightarrow>
     (case r of
        None \<Rightarrow> \<forall>b. \<not> zeros_at ws b 2
      | Some (b, l) \<Rightarrow> 2 \<le> l \<and> zeros_at ws b l \<and> (\<forall>b' l'. zeros_at ws b' l' \<longrightarrow> l' < l \<or> l' = l \<and> b \<le> b'))"

text \<open>What the loop knows at index \<open>i\<close>: a piece of zeros it has passed is part of the current run or no better than the best.\<close>

definition beaten :: "zrun \<Rightarrow> nat \<Rightarrow> nat \<Rightarrow> bool" where
  "beaten r b' l' \<longleftrightarrow> (\<exists>b l. r = Some (b, l) \<and> (l' < l \<or> l' = l \<and> b \<le> b'))"

definition part_of :: "zrun \<Rightarrow> nat \<Rightarrow> bool" where
  "part_of r b' \<longleftrightarrow> (\<exists>b l. r = Some (b, l) \<and> b \<le> b')"

definition scan_inv :: "nat list \<Rightarrow> nat \<Rightarrow> zrun \<Rightarrow> zrun \<Rightarrow> bool" where
  "scan_inv ws i best cur \<longleftrightarrow> (\<forall>b l. cur = Some (b, l) \<longrightarrow> b + l = i) \<and>
     (\<forall>b l. best = Some (b, l) \<longrightarrow> b \<le> i \<and> (\<forall>b' l'. cur = Some (b', l') \<longrightarrow> b \<le> b')) \<and>
     (\<forall>b l. 1 \<le> l \<and> zeros_at ws b l \<and> b + l \<le> i \<longrightarrow> part_of cur b \<or> beaten best b l) \<and>
     (\<forall>b l. 1 \<le> l \<and> zeros_at ws b l \<and> b + l = i \<longrightarrow> part_of cur b)"

lemma better_beats:
  assumes "scan_inv ws i best cur" "1 \<le> l" "zeros_at ws b l" "b + l \<le> i"
  shows "beaten (better best cur) b l"
proof -
  have "part_of cur b \<or> beaten best b l" "\<forall>b l. cur = Some (b, l) \<longrightarrow> b + l = i"
    "\<forall>b l. best = Some (b, l) \<longrightarrow> (\<forall>b' l'. cur = Some (b', l') \<longrightarrow> b \<le> b')"
    using assms unfolding scan_inv_def by blast+
  then show ?thesis
    using assms(4) by (cases cur; cases best) (auto simp: part_of_def beaten_def better_def)
qed

lemma scan_zero:
  assumes "scan_inv ws i best cur" "ws ! i = 0"
  shows "scan_inv ws (Suc i) best (case cur of None \<Rightarrow> Some (i, 1) | Some (b, l) \<Rightarrow> Some (b, l + 1))"
proof -
  let ?cur = "case cur of None \<Rightarrow> Some (i, 1) | Some (b, l) \<Rightarrow> Some (b, l + 1)"
  have keep: "part_of cur b \<Longrightarrow> part_of ?cur b" for b by (auto simp: part_of_def)
  have new: "part_of ?cur b" if "1 \<le> l" "zeros_at ws b l" "b + l = Suc i" for b l
  proof (cases "l = 1")
    case True
    then show ?thesis using that assms(1) by (auto simp: part_of_def scan_inv_def split: option.splits)
  next
    case False
    then have "1 \<le> l - 1" "zeros_at ws b (l - 1)" "b + (l - 1) = i" using that by (auto simp: zeros_at_def)
    then show ?thesis using assms(1) keep unfolding scan_inv_def by blast
  qed
  have "part_of ?cur b \<or> beaten best b l" if "1 \<le> l" "zeros_at ws b l" "b + l \<le> Suc i" for b l
  proof (cases "b + l = Suc i")
    case True
    then show ?thesis using new that by blast
  next
    case False
    then have "part_of cur b \<or> beaten best b l" using assms(1) that unfolding scan_inv_def by (metis le_SucE)
    then show ?thesis using keep by blast
  qed
  moreover have "\<forall>b l. ?cur = Some (b, l) \<longrightarrow> b + l = Suc i" using assms(1) by (auto simp: scan_inv_def split: option.splits)
  moreover have "\<forall>b l. best = Some (b, l) \<longrightarrow> b \<le> Suc i \<and> (\<forall>b' l'. ?cur = Some (b', l') \<longrightarrow> b \<le> b')"
    using assms(1) by (cases cur) (auto simp: scan_inv_def)
  ultimately show ?thesis using new unfolding scan_inv_def by blast
qed

lemma scan_nonzero:
  assumes "scan_inv ws i best cur" "ws ! i \<noteq> 0" "i < length ws"
  shows "scan_inv ws (Suc i) (better best cur) None"
proof -
  have none: "\<not> (1 \<le> l \<and> zeros_at ws b l \<and> b + l = Suc i)" for b l
  proof
    assume z: "1 \<le> l \<and> zeros_at ws b l \<and> b + l = Suc i"
    then have "b \<le> i \<and> i < b + l" by linarith
    then show False using z assms(2) by (auto simp: zeros_at_def)
  qed
  have "beaten (better best cur) b l" if "1 \<le> l" "zeros_at ws b l" "b + l \<le> Suc i" for b l
    using better_beats [OF assms(1) that(1,2)] none [of l b] that by linarith
  moreover have "\<forall>b l. better best cur = Some (b, l) \<longrightarrow> b \<le> Suc i"
    using assms(1) by (cases cur; cases best) (auto simp: scan_inv_def better_def split: if_splits)
  ultimately show ?thesis using none by (auto simp: scan_inv_def)
qed

lemma run_loop_beats:
  assumes "scan_inv ws i best cur" "drop i ws = vs" "i + length vs = length ws" "1 \<le> l" "zeros_at ws b l"
  shows "beaten (run_loop i vs best cur) b l"
  using assms
proof (induction vs arbitrary: i best cur)
  case Nil
  then show ?case using better_beats [OF Nil.prems(1,4,5)] by (simp add: zeros_at_def)
next
  case (Cons w vs)
  have i: "i < length ws" "ws ! i = w" "drop (Suc i) ws = vs" "Suc i + length vs = length ws"
    using Cons.prems(2,3) nth_via_drop [OF Cons.prems(2)] tl_drop [of i ws] by (simp_all add: drop_Suc)
  show ?case
    using Cons.IH [OF scan_zero [OF Cons.prems(1)] i(3,4) Cons.prems(4,5)]
      Cons.IH [OF scan_nonzero [OF Cons.prems(1)] i(3,4) Cons.prems(4,5)] i(1,2) by (cases "w = 0") simp_all
qed

lemma best_run_longest:
  assumes "length ws = 8"
  shows "longest_zeros ws (best_run ws)"
proof -
  have beats: "beaten (run_loop 0 ws None None) b l" if "1 \<le> l" "zeros_at ws b l" for b l
    using that by (intro run_loop_beats) (auto simp: scan_inv_def)
  show ?thesis
  proof (cases "best_run ws")
    case None
    then have "\<not> beaten (run_loop 0 ws None None) b 2" for b
      by (auto simp: best_run_def beaten_def split: option.splits if_splits)
    then show ?thesis using None beats [of 2] by (auto simp: longest_zeros_def)
  next
    case (Some r)
    obtain b l where r: "best_run ws = Some (b, l)" using Some by (cases r) auto
    then have loop: "run_loop 0 ws None None = Some (b, l)" by (auto simp: best_run_def split: option.splits if_splits)
    note ok = best_run_ok [OF assms r]
    have "l' < l \<or> l' = l \<and> b \<le> b'" if "zeros_at ws b' l'" for b' l'
    proof (cases "l' = 0")
      case True
      then show ?thesis using ok(1) by simp
    next
      case False
      then have "1 \<le> l'" by simp
      from beats [OF this that] show ?thesis by (simp add: loop beaten_def)
    qed
    then show ?thesis using ok assms by (auto simp: r longest_zeros_def zeros_at_def)
  qed
qed

text \<open>There is only one such run.\<close>

lemma longest_zeros_None: "longest_zeros ws None \<Longrightarrow> \<not> longest_zeros ws (Some (b, l))"
proof
  assume n: "longest_zeros ws None" and z: "longest_zeros ws (Some (b, l))"
  then have "zeros_at ws b 2" by (auto simp: longest_zeros_def zeros_at_def)
  then show False using n by (simp add: longest_zeros_def)
qed

lemma longest_zeros_unique:
  assumes "longest_zeros ws r" "longest_zeros ws r'"
  shows "r = r'"
proof (cases r; cases r')
  fix x y assume x: "r = Some x" and y: "r' = Some y"
  obtain b l b' l' where xy: "x = (b, l)" "y = (b', l')" by (cases x; cases y)
  have "zeros_at ws b l" "zeros_at ws b' l'" using assms by (simp_all add: x y xy longest_zeros_def)
  then have "l' < l \<or> l' = l \<and> b \<le> b'" "l < l' \<or> l = l' \<and> b' \<le> b"
    using assms by (auto simp: x y xy longest_zeros_def)
  then show ?thesis by (auto simp: x y xy)
qed (use assms longest_zeros_None in \<open>auto simp: split_paired_all\<close>)

section \<open>What is printed\<close>

definition coloned :: "nat list \<Rightarrow> string" where
  "coloned ws = concat (map (\<lambda>w. CHR '':'' # hex_str w) ws)"

lemma coloned_Nil [simp]: "coloned [] = []" "groups [] = []"
  by (simp_all add: coloned_def groups_def)

lemma groups_coloned: "ws \<noteq> [] \<Longrightarrow> coloned ws = CHR '':'' # groups ws"
  by (cases ws) (simp_all add: coloned_def groups_def)

lemma format_outside:
  assumes "\<not> embedded4 r ws" "\<forall>i \<in> set is. \<not> in_run r i"
  shows "format_loop os net src r ws (is @ js) out s =
    format_loop os net src r ws js (out @ concat (map (\<lambda>i. (if i \<noteq> 0 then '':'' else []) @ hex_str (ws ! i)) is)) s"
  using assms(2) by (induction "is" arbitrary: out) (simp_all add: assms(1) Let_def)

lemma format_inside:
  assumes "r = Some (b, l)" "\<forall>i \<in> set is. b < i \<and> i < b + l"
  shows "format_loop os net src r ws (is @ js) out s = format_loop os net src r ws js out s"
  using assms(2) by (induction "is") (simp_all add: assms(1) in_run_def)

lemma words_from:
  assumes "length ws = 8" "m \<noteq> 0"
  shows "concat (map (\<lambda>i. (if i \<noteq> 0 then '':'' else []) @ hex_str (ws ! i)) [m..<8]) = coloned (drop m ws)"
proof -
  have "map (\<lambda>i. (if i \<noteq> 0 then '':'' else []) @ hex_str (ws ! i)) [m..<8] = map (\<lambda>i. CHR '':'' # hex_str (ws ! i)) [m..<8]"
    using assms(2) by (intro map_cong) auto
  also have "\<dots> = map (\<lambda>w. CHR '':'' # hex_str w) (map ((!) ws) [m..<8])" by simp
  also have "map ((!) ws) [m..<8] = drop m ws"
    using assms(1) by (metis drop_map drop_upt map_nth plus_nat.add_0)
  finally show ?thesis by (simp add: coloned_def)
qed

lemma words_to:
  assumes "length ws = 8" "b \<le> 8"
  shows "concat (map (\<lambda>i. (if i \<noteq> 0 then '':'' else []) @ hex_str (ws ! i)) [0..<b]) = groups (take b ws)"
proof (cases b)
  case (Suc c)
  obtain w vs where ws: "ws = w # vs" using assms(1) by (cases ws) auto
  have "[0..<b] = 0 # map Suc [0..<c]" by (simp add: Suc upt_conv_Cons map_Suc_upt del: upt_Suc)
  moreover have "map ((!) vs) [0..<c] = take c vs" using assms by (intro nth_equalityI) (simp_all add: ws Suc)
  then have "map (\<lambda>i. CHR '':'' # hex_str (vs ! i)) [0..<c] = map (\<lambda>w. CHR '':'' # hex_str w) (take c vs)"
    by (metis (no_types, lifting) comp_apply list.map_comp map_eq_conv)
  ultimately show ?thesis by (simp add: ws Suc groups_def comp_def)
qed (simp add: groups_def)

lemma ntop6_plain:
  assumes "best_run ws = None" "length ws = 8" "ws = addr_words src"
  shows "inet_ntop6 os net src n s = (if length (groups ws) < n then (Some (groups ws), s) else (None, set_errno ENOSPC s))"
proof -
  have "format_loop os net src None ws ([0..<8] @ []) [] s = (Some (groups ws), s)"
    using words_to [OF assms(2), of 8] assms(2) by (subst format_outside) (simp_all add: embedded4_def in_run_def del: upt_Suc)
  then show ?thesis using assms by (simp add: inet_ntop6_def Let_def del: upt_Suc)
qed

lemma ntop6_run:
  assumes "best_run ws = Some (b, l)" "length ws = 8" "ws = addr_words src" "\<not> embedded4 (Some (b, l)) ws"
    and "t = groups (take b ws) @ ''::'' @ groups (drop (b + l) ws)"
  shows "inet_ntop6 os net src n s = (if length t < n then (Some t, s) else (None, set_errno ENOSPC s))"
proof -
  note r = best_run_ok [OF assms(2,1)]
  have split: "[0..<8] = [0..<b] @ b # [Suc b..<b + l] @ [b + l..<8]"
    using r(1,2) upt_add_eq_append [of 0 b "8 - b"] upt_add_eq_append [of b "b + l" "8 - (b + l)"] upt_conv_Cons [of b "b + l"]
    by simp
  let ?r = "Some (b, l)" and ?g = "groups (take b ws)"
  have "format_loop os net src ?r ws [0..<8] [] s = format_loop os net src ?r ws (b # [Suc b..<b + l] @ [b + l..<8]) ?g s"
    unfolding split using words_to [OF assms(2), of b] r(2)
    by (subst format_outside [OF assms(4)]) (simp_all add: in_run_def del: upt_Suc)
  also have "\<dots> = format_loop os net src ?r ws ([Suc b..<b + l] @ [b + l..<8]) (?g @ '':'') s"
    using r(1) by (simp add: in_run_def)
  also have "\<dots> = format_loop os net src ?r ws ([b + l..<8] @ []) (?g @ '':'') s"
    by (subst format_inside [of _ b l]) simp_all
  also have "\<dots> = (Some (?g @ '':'' @ coloned (drop (b + l) ws)), s)"
    using words_from [OF assms(2), of "b + l"] r(1)
    by (subst format_outside [OF assms(4)]) (simp_all add: in_run_def del: upt_Suc)
  finally have "format_loop os net src ?r ws [0..<8] [] s = (Some (?g @ '':'' @ coloned (drop (b + l) ws)), s)" .
  moreover have "'':'' @ coloned (drop (b + l) ws) @ (if b + l = 8 then '':'' else []) = ''::'' @ groups (drop (b + l) ws)"
    using assms(2) r(2) groups_coloned [of "drop (b + l) ws"] by (auto simp: coloned_def groups_def)
  ultimately show ?thesis using assms by (auto simp: inet_ntop6_def Let_def split: if_splits)
qed

section \<open>Reading back what was printed\<close>

lemma addr_words_lt: "\<forall>w \<in> set (addr_words src). w < 65536"
proof -
  have "unat a * 256 + unat b < 65536" for a b :: byte
    using unsigned_less [of a, where 'a = nat] unsigned_less [of b, where 'a = nat] by simp
  then show ?thesis by (auto simp: addr_words_def)
qed

lemma length_addr_words [simp]: "length (addr_words src) = 8"
  by (simp add: addr_words_def)

lemma byte_pair:
  "(of_nat ((unat a * 256 + unat b) div 256) :: byte) = a" "(of_nat (unat a * 256 + unat b) :: byte) = b"
proof -
  have "(unat a * 256 + unat b) div 256 = unat a" using unsigned_less [of b, where 'a = nat] by simp
  then show "(of_nat ((unat a * 256 + unat b) div 256) :: byte) = a" by simp
  have "(of_nat (unat a * 256 + unat b) :: byte) = of_nat (unat b)"
    by (simp only: word_of_nat_eq_iff take_bit_eq_mod) simp
  then show "(of_nat (unat a * 256 + unat b) :: byte) = b" by simp
qed

lemma upt8: "[0..<8] = [0, 1, 2, 3, 4, 5, 6, 7]"
  by code_simp

lemma wbytes_addr_words: "length src = 16 \<Longrightarrow> wbytes (addr_words src) = src"
proof -
  assume l: "length src = 16"
  have u: "[0..<16] = [0, 1, 2, 3, 4, 5, 6, 7, 8, 9, 10, 11, 12, 13, 14, 15]"
    by code_simp
  have "wbytes (addr_words src) = map ((!) src) [0..<16]"
    unfolding addr_words_def upt8 u by (simp only: list.map wbytes_simps byte_pair) simp
  then show ?thesis using l map_nth [of src] by simp
qed

lemma hex_str_hd: "\<exists>d cs. d < 16 \<and> hex_str w = digit d # cs"
proof (induction w rule: hex_str.induct)
  case (1 n)
  then show ?case by (cases "n < 16") (auto simp: hex_str.simps [of n])
qed

lemma digit_not_colon: "d < 16 \<Longrightarrow> digit d \<noteq> CHR '':''"
  using xdigit_digit [of d] by (metis option.distinct(1) xdigit_punct(1))

lemma groups_start:
  assumes "ws \<noteq> []"
  shows "\<exists>d cs. d < 16 \<and> groups ws @ rest = digit d # cs"
proof -
  obtain w vs where ws: "ws = w # vs" using assms by (cases ws) auto
  obtain d cs where "d < 16" "hex_str w = digit d # cs" using hex_str_hd [of w] by blast
  then show ?thesis by (simp add: ws groups_def) blast
qed

lemma pton6_start:
  assumes "ws \<noteq> []"
  shows "inet_pton6 os net (groups ws @ rest) s =
    (case pton6_loop os net (groups ws @ rest) (groups ws @ rest) (parsed [] None False 0) s of
       (None, s) \<Rightarrow> (None, s) | (Some q, s) \<Rightarrow> (pton6_finish q, s))"
proof -
  obtain d cs where "d < 16" "groups ws @ rest = digit d # cs" using groups_start [OF assms] by blast
  then show ?thesis using digit_not_colon [of d]
    by (simp add: inet_pton6_def parsed_def NS_IN6ADDRSZ_def Let_def del: pton6_loop.simps)
qed

lemma pton6_plain:
  assumes "length ws = 8" "\<forall>w \<in> set ws. w < 65536"
  shows "inet_pton6 os net (groups ws) s = (Some (wbytes ws), s)"
proof -
  have ne: "ws \<noteq> []" using assms(1) by auto
  obtain ct where "pton6_loop os net (groups ws @ []) (groups ws @ []) (parsed [] None False 0) s =
      pton6_loop os net ct [] (parsed ([] @ butlast ws) None True (last ws)) s"
    using parse_groups [OF ne _ assms(2), of "[]"] assms(1) by fastforce
  then have "inet_pton6 os net (groups ws) s = (pton6_finish (parsed (butlast ws) None True (last ws)), s)"
    using pton6_start [OF ne, of os net "[]" s] by simp
  also have "pton6_finish (parsed (butlast ws) None True (last ws)) = parsed_result ws None"
    using finish_parsed(2) [of "butlast ws" None "last ws"] assms(1) ne by simp
  finally show ?thesis using assms(1) by (simp add: parsed_result_def Let_def)
qed

text \<open>After the double colon: the groups that follow it, if any.\<close>

lemma pton6_after:
  assumes "length pre + length post < 8" "\<forall>w \<in> set post. w < 65536"
  shows "\<exists>q. pton6_loop os net ct (CHR '':'' # groups post) (parsed pre None False 0) s = (Some q, s) \<and>
    pton6_finish q = Some (wbytes (pre @ replicate (8 - length pre - length post) 0 @ post))"
proof -
  let ?c = "Some (2 * length pre)"
  have step: "pton6_loop os net ct (CHR '':'' # groups post) (parsed pre None False 0) s =
      pton6_loop os net (groups post) (groups post) (parsed pre ?c False 0) s"
    by (simp add: parsed_def)
  show ?thesis
  proof (cases "post = []")
    case True
    then show ?thesis using step result_colon [OF assms(1)] by (simp add: groups_def finish_parsed(1))
  next
    case False
    obtain ct' where "pton6_loop os net (groups post) (groups post @ []) (parsed pre ?c False 0) s =
        pton6_loop os net ct' [] (parsed (pre @ butlast post) ?c True (last post)) s"
      using parse_groups [OF False _ assms(2), of pre] assms(1) by fastforce
    moreover have "pton6_finish (parsed (pre @ butlast post) ?c True (last post)) = parsed_result (pre @ post) ?c"
      using finish_parsed(2) [of "pre @ butlast post" ?c "last post"] assms(1) False by simp
    ultimately show ?thesis using step result_colon [OF assms(1)] by simp
  qed
qed

lemma pton6_run:
  assumes "length pre + length post < 8" "\<forall>w \<in> set (pre @ post). w < 65536"
  shows "inet_pton6 os net (groups pre @ ''::'' @ groups post) s =
    (Some (wbytes (pre @ replicate (8 - length pre - length post) 0 @ post)), s)"
proof (cases "pre = []")
  case True
  have "inet_pton6 os net (''::'' @ groups post) s =
    (case pton6_loop os net (CHR '':'' # groups post) (CHR '':'' # groups post) (parsed [] None False 0) s of
       (None, s) \<Rightarrow> (None, s) | (Some q, s) \<Rightarrow> (pton6_finish q, s))"
    by (simp add: inet_pton6_def parsed_def NS_IN6ADDRSZ_def)
  then show ?thesis
    using True pton6_after [of "[]" post os net "CHR '':'' # groups post" s] assms by (auto simp: groups_def)
next
  case False
  let ?t = "groups pre @ ''::'' @ groups post" and ?u = "CHR '':'' # groups post"
  obtain ct where "pton6_loop os net ?t ?t (parsed [] None False 0) s =
      pton6_loop os net ct (CHR '':'' # ?u) (parsed ([] @ butlast pre) None True (last pre)) s"
    using parse_groups [OF False, of "[]" os net ?t "''::'' @ groups post" None s] assms by fastforce
  also have "\<dots> = pton6_loop os net ?u ?u (parsed pre None False 0) s"
    using colon_step [of "butlast pre" os net ct ?u None "last pre" s] assms(1) False by simp
  finally have l: "pton6_loop os net ?t ?t (parsed [] None False 0) s = pton6_loop os net ?u ?u (parsed pre None False 0) s" .
  obtain q where "pton6_loop os net ?u ?u (parsed pre None False 0) s = (Some q, s)"
      "pton6_finish q = Some (wbytes (pre @ replicate (8 - length pre - length post) 0 @ post))"
    using pton6_after [OF assms(1), of os net ?u s] assms(2) by auto
  then show ?thesis using l pton6_start [OF False, of os net "''::'' @ groups post" s] by simp
qed

section \<open>Properties\<close>

text \<open>The text of eight groups of which a run is abbreviated.\<close>

definition v6_text :: "nat list \<Rightarrow> zrun \<Rightarrow> string" where
  "v6_text ws r =
     (case r of
        None \<Rightarrow> groups ws
      | Some (b, l) \<Rightarrow> groups (take b ws) @ ''::'' @ groups (drop (b + l) ws))"

lemma v6_text_roundtrip:
  assumes "length src = 16" "\<not> embedded4 (best_run (addr_words src)) (addr_words src)"
  shows "inet_ntop6 os net src n s =
      (if length (v6_text (addr_words src) (best_run (addr_words src))) < n
       then (Some (v6_text (addr_words src) (best_run (addr_words src))), s) else (None, set_errno ENOSPC s)) \<and>
    inet_pton6 os' net' (v6_text (addr_words src) (best_run (addr_words src))) t = (Some src, t)"
proof (cases "best_run (addr_words src)")
  case None
  then show ?thesis
    using ntop6_plain [OF None _ refl, of os net n s] pton6_plain [of "addr_words src" os' net' t] addr_words_lt [of src]
      wbytes_addr_words [OF assms(1)] by (simp add: v6_text_def)
next
  case (Some r)
  obtain b l where r: "best_run (addr_words src) = Some (b, l)" using Some by (cases r) auto
  let ?ws = "addr_words src"
  note ok = best_run_ok [OF length_addr_words r]
  have ws: "?ws = take b ?ws @ replicate l 0 @ drop (b + l) ?ws"
  proof -
    have "take l (drop b ?ws) = replicate l 0"
      using ok by (intro nth_equalityI) simp_all
    then show ?thesis by (metis append_take_drop_id drop_drop add.commute)
  qed
  have "inet_pton6 os' net' (v6_text (addr_words src) (best_run (addr_words src))) t = (Some (wbytes (take b ?ws @ replicate l 0 @ drop (b + l) ?ws)), t)"
    using pton6_run [of "take b ?ws" "drop (b + l) ?ws" os' net' t] ok addr_words_lt [of src]
    by (auto simp: v6_text_def r Let_def min_def dest: in_set_takeD in_set_dropD)
  then show ?thesis
    using ntop6_run [OF r length_addr_words refl _ refl, where n = n and os = os and net = net and s = s] assms(2) r wbytes_addr_words [OF assms(1)]
    by (simp add: v6_text_def Let_def flip: ws)
qed

lemma embedded4_iff: "embedded4 r ws \<longleftrightarrow> r = Some (0, 6) \<or> r = Some (0, 5) \<and> ws ! 5 = 0xffff"
  by (cases r) (auto simp: embedded4_def)

text \<open>C35 (roundtrip): let \<open>r\<close> be the longest run of two or more zero groups of an IPv6 address, the first of them when there are
  several. Unless the address is printed with an IPv4 tail (a run of the first six groups, or of five before \<open>ffff\<close>),
  \<open>inet_ntop6\<close> gives the groups in lower-case hexadecimal digits with \<open>r\<close> written as a double colon,
  when that fits the buffer with its final zero, and ENOSPC otherwise; \<open>inet_pton6\<close> reads the text
  back to the same sixteen bytes.\<close>
theorem ipv6_text_roundtrip:
  assumes "length src = 16" "ws = addr_words src"
  shows "\<exists>r. longest_zeros ws r \<and>
    (r \<noteq> Some (0, 6) \<and> \<not> (r = Some (0, 5) \<and> ws ! 5 = 0xffff) \<longrightarrow>
      inet_ntop6 os net src n s =
        (if length (v6_text ws r) < n then (Some (v6_text ws r), s) else (None, set_errno ENOSPC s)) \<and>
      inet_pton6 os' net' (v6_text ws r) t = (Some src, t))"
  unfolding assms(2)
  using best_run_longest [OF length_addr_words] v6_text_roundtrip [OF assms(1)] embedded4_iff by blast

theorem ipv6_text_roundtrip_witness:
  "fst (inet_ntop6 quiet_os (\<lambda>e. e) [0x20, 0x01, 0x0d, 0xb8, 0, 0, 0, 0, 0, 0, 0, 0, 0, 0, 0, 1] 46 (blank_state ())) =
     Some ''2001:db8::1'' \<and>
   inet_pton6 quiet_os (\<lambda>e. e) ''2001:db8::1'' (blank_state ()) =
     (Some [0x20, 0x01, 0x0d, 0xb8, 0, 0, 0, 0, 0, 0, 0, 0, 0, 0, 0, 1], blank_state ())"
proof -
  let ?a = "[0x20, 0x01, 0x0d, 0xb8, 0, 0, 0, 0, 0, 0, 0, 0, 0, 0, 0, 1] :: byte list"
    and ?w = "[0x2001, 0xdb8, 0, 0, 0, 0, 0, 1] :: nat list"
  have w: "?w = addr_words ?a" unfolding addr_words_def upt8 by simp
  obtain r where r: "longest_zeros ?w r" "r \<noteq> Some (0, 6) \<and> \<not> (r = Some (0, 5) \<and> ?w ! 5 = 0xffff) \<longrightarrow>
      inet_ntop6 quiet_os (\<lambda>e. e) ?a 46 (blank_state ()) =
        (if length (v6_text ?w r) < 46 then (Some (v6_text ?w r), blank_state ()) else (None, set_errno ENOSPC (blank_state ()))) \<and>
      inet_pton6 quiet_os (\<lambda>e. e) (v6_text ?w r) (blank_state ()) = (Some ?a, blank_state ())"
    using ipv6_text_roundtrip [OF _ w, of quiet_os "\<lambda>e. e" 46 "blank_state ()" quiet_os "\<lambda>e. e" "blank_state ()"] by auto
  have "best_run ?w = Some (2, 5)" by (simp add: best_run_def better_def)
  then have "r = Some (2, 5)" using longest_zeros_unique [OF r(1) best_run_longest] by simp
  moreover have "v6_text ?w (Some (2, 5)) = ''2001:db8::1''"
    unfolding v6_text_def by (simp add: groups_def hex_str.simps digit_def)
  ultimately show ?thesis using r(2) by simp
qed

section \<open>Texts that are not addresses\<close>

text \<open>
  Two kinds of text that are accepted. With a double colon between eight groups there is no room for the zeros:
  the shift moves every byte onto itself and clears it, so the groups after the colons are lost. And a
  colon after the eighth group is ignored.
\<close>

lemma shift_clears:
  assumes "c = length xs" "c + n = 16" "length xs + length ys + length zs = 16"
  shows "shift_loop c n (length ys) (xs @ ys @ zs) = xs @ replicate (length ys) 0 @ zs"
  using assms
proof (induction ys arbitrary: zs rule: rev_induct)
  case (snoc y ys)
  have i: "NS_IN6ADDRSZ - (n - length ys) = length (xs @ ys)" "c + n - (n - length ys) = length (xs @ ys)"
    using snoc.prems by (simp_all add: NS_IN6ADDRSZ_def)
  have u: "((xs @ ys) @ y # zs)[length (xs @ ys) := y] = (xs @ ys) @ y # zs"
    "((xs @ ys) @ y # zs)[length (xs @ ys) := 0] = (xs @ ys) @ 0 # zs" "((xs @ ys) @ y # zs) ! length (xs @ ys) = y"
    by (rule list_update_length, rule list_update_length, rule nth_append_length)
  have "shift_loop c n (Suc (length ys)) ((xs @ ys) @ y # zs) = shift_loop c n (length ys) ((xs @ ys) @ 0 # zs)"
    by (simp only: shift_loop.simps Let_def i u)
  moreover have "shift_loop c n (length ys) (xs @ ys @ 0 # zs) = xs @ replicate (length ys) 0 @ 0 # zs"
    using snoc.prems by (intro snoc.IH) simp_all
  ultimately show ?case by (simp add: replicate_app_Cons_same)
qed simp

lemma pton6_accepts_full_double_colon:
  assumes "length pre + length post = 8" "pre \<noteq> []" "post \<noteq> []" "\<forall>w \<in> set (pre @ post). w < 65536"
  shows "inet_pton6 os net (groups pre @ ''::'' @ groups post) s = (Some (wbytes pre @ replicate (2 * length post) 0), s)"
proof -
  let ?c = "Some (2 * length pre)" and ?t = "groups pre @ ''::'' @ groups post" and ?u = "CHR '':'' # groups post"
  have lt: "length pre < 8" using assms(1,3) by (cases post) auto
  obtain ct where "pton6_loop os net ?t ?t (parsed [] None False 0) s =
      pton6_loop os net ct (CHR '':'' # ?u) (parsed ([] @ butlast pre) None True (last pre)) s"
    using parse_groups [OF assms(2), of "[]" os net ?t "''::'' @ groups post" None s] assms by fastforce
  also have "\<dots> = pton6_loop os net ?u ?u (parsed pre None False 0) s"
    using colon_step [of "butlast pre" os net ct ?u None "last pre" s] lt assms(2) by simp
  also have "\<dots> = pton6_loop os net (groups post) (groups post @ []) (parsed pre ?c False 0) s" by (simp add: parsed_def)
  finally have l: "pton6_loop os net ?t ?t (parsed [] None False 0) s =
      pton6_loop os net (groups post) (groups post @ []) (parsed pre ?c False 0) s" .
  obtain ct' where "pton6_loop os net (groups post) (groups post @ []) (parsed pre ?c False 0) s =
      pton6_loop os net ct' [] (parsed (pre @ butlast post) ?c True (last post)) s"
    using parse_groups [OF assms(3), of pre os net "groups post" "[]" ?c s] assms by fastforce
  moreover have "pton6_finish (parsed (pre @ butlast post) ?c True (last post)) = parsed_result (pre @ post) ?c"
  proof -
    have "length (pre @ butlast post) < 8" using assms(1,3) by (cases post) auto
    then show ?thesis using finish_parsed(2) [of "pre @ butlast post" ?c "last post"] assms(3) by simp
  qed
  moreover have "parsed_result (pre @ post) ?c = Some (wbytes pre @ replicate (2 * length post) 0)"
  proof -
    have "16 - 2 * length pre = 2 * length post" using assms(1) by simp
    then show ?thesis
      using shift_clears [of "2 * length pre" "wbytes pre" "2 * length post" "wbytes post" "[]"] assms(1)
      by (simp add: parsed_result_def Let_def)
  qed
  ultimately show ?thesis using l pton6_start [OF assms(2), of os net "''::'' @ groups post" s] by simp
qed

lemma pton6_accepts_trailing_colon:
  assumes "length ws = 8" "\<forall>w \<in> set ws. w < 65536"
  shows "inet_pton6 os net (groups ws @ '':'') s = (Some (wbytes ws), s)"
proof -
  have ne: "ws \<noteq> []" using assms(1) by auto
  obtain ct where "pton6_loop os net (groups ws @ '':'') (groups ws @ '':'') (parsed [] None False 0) s =
      pton6_loop os net ct '':'' (parsed ([] @ butlast ws) None True (last ws)) s"
    using parse_groups [OF ne _ assms(2), of "[]"] assms(1) by fastforce
  also have "\<dots> = (Some (parsed ws None False 0), s)"
    using colon_step [of "butlast ws" os net ct "[]" None "last ws" s] assms(1) ne by simp
  finally show ?thesis
    using pton6_start [OF ne, of os net "'':''" s] assms(1) by (simp add: finish_parsed(1) parsed_result_def)
qed

end
