(* ===== verification/Net_Resolver.thy ===== *)
theory Net_Resolver
  imports Net_Addr
begin

text \<open>
  IPv4 addresses as text (\<^verbatim>\<open>inet_aton.c\<close>, \<^verbatim>\<open>inet_addr.c\<close>, \<^verbatim>\<open>inet_ntoa.c\<close>), and names: \<open>gethostbyname\<close>, \<open>gethostbyaddr\<close>,
  \<open>getservbyname\<close>, \<open>getaddrinfo\<close> with its list of results, \<open>gai_strerror\<close> and \<open>gethostname\<close>. An address in network order is the list of its four
  bytes. \<open>errno\<close> after a number that \<open>strtoul\<close> cannot hold is not modelled.
\<close>

section \<open>IPv4 addresses as text\<close>

definition isdigit :: "char \<Rightarrow> bool" where
  "isdigit c \<longleftrightarrow> c \<in> set ''0123456789''"

text \<open>
  \<open>strtoul(s, &z, 0)\<close> on a text that starts with a digit: the base by the prefix, the longest run of digits of that base,
  and the largest value for a number that does not fit.
\<close>

definition digit_in :: "nat \<Rightarrow> char \<Rightarrow> bool" where
  "digit_in b c \<longleftrightarrow> (case xdigit c of Some d \<Rightarrow> d < b | None \<Rightarrow> False)"

definition number_of :: "nat \<Rightarrow> string \<Rightarrow> nat" where
  "number_of b ds = foldl (\<lambda>a c. a * b + the (xdigit c)) 0 ds"

definition strtoul_base :: "nat \<Rightarrow> string \<Rightarrow> 32 word \<times> string" where
  "strtoul_base b s =
     (of_nat (min (number_of b (takeWhile (digit_in b) s)) (2 ^ 32 - 1)), dropWhile (digit_in b) s)"

definition strtoul :: "string \<Rightarrow> 32 word \<times> string" where
  "strtoul s =
     (if take 1 s = ''0'' then
        (if (take 1 (drop 1 s) = ''x'' \<or> take 1 (drop 1 s) = ''X'') \<and> (\<exists>c. take 1 (drop 2 s) = [c] \<and> digit_in 16 c)
         then strtoul_base 16 (drop 2 s) else strtoul_base 8 s)
      else strtoul_base 10 s)"

text \<open>The loop over the parts; \<open>None\<close> is a return of 0 before anything is stored.\<close>

fun aton_parts :: "nat \<Rightarrow> string \<Rightarrow> 32 word list option" where
  "aton_parts 0 s = None"
| "aton_parts (Suc i) s =
     (case s of
        [] \<Rightarrow> None
      | c # _ \<Rightarrow>
          if \<not> isdigit c then None
          else
            (case strtoul s of
               (v, []) \<Rightarrow> Some [v]
             | (v, z # zs) \<Rightarrow> if z = CHR ''.'' then map_option ((#) v) (aton_parts i zs) else None))"

text \<open>The switch spreads the last part over the remaining bytes.\<close>

fun aton_spread :: "32 word list \<Rightarrow> 32 word list" where
  "aton_spread [a0] = (let a1 = a0 AND 0xffffff; a0 = drop_bit 24 a0; a2 = a1 AND 0xffff; a1 = drop_bit 16 a1;
     a3 = a2 AND 0xff; a2 = drop_bit 8 a2 in [a0, a1, a2, a3])"
| "aton_spread [a0, a1] = (let a2 = a1 AND 0xffff; a1 = drop_bit 16 a1; a3 = a2 AND 0xff; a2 = drop_bit 8 a2 in [a0, a1, a2, a3])"
| "aton_spread [a0, a1, a2] = (let a3 = a2 AND 0xff; a2 = drop_bit 8 a2 in [a0, a1, a2, a3])"
| "aton_spread as = as"

text \<open>The result and the bytes stored at \<open>dest\<close>: on a part that is too large, those before it.\<close>

definition inet_aton :: "string \<Rightarrow> int \<times> byte list" where
  "inet_aton s0 =
     (case aton_parts 4 s0 of
        None \<Rightarrow> (0, [])
      | Some a \<Rightarrow>
          (let a = aton_spread a; ok = takeWhile (\<lambda>x. \<not> x > 255) a
           in (if length ok = 4 then 1 else 0, map ucast ok)))"

definition inet_addr :: "string \<Rightarrow> byte list" where
  "inet_addr p = (let (r, a) = inet_aton p in if r = 0 then [255, 255, 255, 255] else a)"

fun dec_str :: "nat \<Rightarrow> string" where
  "dec_str n = (if n < 10 then [digit n] else dec_str (n div 10) @ [digit (n mod 10)])"

declare dec_str.simps [simp del]

definition inet_ntoa :: "byte list \<Rightarrow> string" where
  "inet_ntoa a = dec_str (unat (a ! 0)) @ ''.'' @ dec_str (unat (a ! 1)) @ ''.'' @ dec_str (unat (a ! 2)) @ ''.'' @ dec_str (unat (a ! 3))"

section \<open>Hosts\<close>

record hostent =
  h_name :: string
  h_addrtype :: int
  h_length :: int
  h_addr_list :: "byte list list"

record 'w host_state = "'w net_state" +
  host_saddr :: "byte list"
  host_sname :: string

definition MAX_NAME :: nat where "MAX_NAME = 512"

definition gethostbyname ::
  "'w services \<Rightarrow> (int \<Rightarrow> int) \<Rightarrow> net_sdk \<Rightarrow> string \<Rightarrow> ('w, 'z) host_state_scheme \<Rightarrow>
     hostent option \<times> ('w, 'z) host_state_scheme" where
  "gethostbyname os net nk name s =
     (let s = snd (net_init os nk s);
          (c, s) = sys os (Net (sceNetResolverCreate ''resolver'')) s
      in if rp_ret c < 0 then (None, set_errno (scenet_errno_to_errno net (rp_ret c)) s)
         else
           (let (e, s) = sys os (Net (sceNetResolverStartNtoa (rp_ret c) name)) s;
                s = s\<lparr>host_saddr := map (\<lambda>i. word_of_int (outp e i (uint (host_saddr s ! i)))) [0..<4]\<rparr>;
                s = snd (sys os (Net (sceNetResolverDestroy (rp_ret c))) s)
            in if rp_ret e < 0 then (None, set_errno (scenet_errno_to_errno net (rp_ret e)) s)
               else
                 (let s = s\<lparr>host_sname := take (MAX_NAME - 1) name\<rparr>
                  in (Some \<lparr>h_name = host_sname s, h_addrtype = 2, h_length = 4, h_addr_list = [host_saddr s]\<rparr>, s))))"

text \<open>For the reverse lookup the size of the name buffer and the code of the unsupported family are the SDK's.\<close>

definition gethostbyaddr ::
  "'w services \<Rightarrow> (int \<Rightarrow> int) \<Rightarrow> net_sdk \<Rightarrow> nat \<Rightarrow> int \<Rightarrow> byte list \<Rightarrow> int \<Rightarrow> ('w, 'z) net_state_scheme \<Rightarrow>
     hostent option \<times> ('w, 'z) net_state_scheme" where
  "gethostbyaddr os net nk NI_MAXHOST ENOSUPPORT a type s =
     (let s = snd (net_init os nk s) in
      if type \<noteq> 2 then (None, set_errno ENOSUPPORT s)
      else
        (let (c, s) = sys os (Net (sceNetResolverCreate ''resolver'')) s in
         if rp_ret c < 0 then (None, set_errno (scenet_errno_to_errno net (rp_ret c)) s)
         else
           (let (e, s) = sys os (Net (sceNetResolverStartAton (rp_ret c) a NI_MAXHOST)) s;
                s = snd (sys os (Net (sceNetResolverDestroy (rp_ret c))) s)
            in if rp_ret e < 0 then (None, set_errno (scenet_errno_to_errno net (rp_ret e)) s)
               else (Some \<lparr>h_name = take (NI_MAXHOST - 1) (rp_str e), h_addrtype = type, h_length = 4, h_addr_list = [a]\<rparr>, s))))"

definition getservbyname :: "string \<Rightarrow> ('w, 'z) libc_scheme \<Rightarrow> int option \<times> ('w, 'z) libc_scheme" where
  "getservbyname name s = (None, set_errno ENOSYS s)"

section \<open>getaddrinfo\<close>

datatype eai = EAI_OK | EAI_FAMILY | EAI_SERVICE | EAI_MEMORY | EAI_NODATA
  | EAI_BADFLAGS | EAI_NONAME | EAI_AGAIN | EAI_FAIL | EAI_SOCKTYPE | EAI_ADDRFAMILY | EAI_SYSTEM | EAI_OVERFLOW | EAI_other int

record ai_hints =
  hint_family :: int
  hint_socktype :: int
  hint_protocol :: int
  AI_PASSIVE :: bool
  AI_CANONNAME :: bool
  AI_NUMERICHOST :: bool

text \<open>A result with the address of its block; the list is linked by \<open>ai_next\<close>.\<close>

record addrinfo =
  ai_ptr :: addr
  ai_socktype :: int
  ai_protocol :: int
  ai_port :: "16 word"
  ai_s_addr :: "byte list"
  ai_canonname :: "(addr \<times> string) option"

abbreviation (input) SOCK_STREAM :: int where "SOCK_STREAM \<equiv> 1"
abbreviation (input) SOCK_DGRAM :: int where "SOCK_DGRAM \<equiv> 2"

definition malloc_ai ::
  "'w services \<Rightarrow> int \<Rightarrow> byte list \<Rightarrow> int \<Rightarrow> int \<Rightarrow> ('w, 'z) libc_scheme \<Rightarrow> addrinfo option \<times> ('w, 'z) libc_scheme" where
  "malloc_ai os port a socktype proto s =
     (let (r, s) = sys os (Heap (malloc 48)) s; p = word_of_int (rp_ret r) in
      if p = 0 then (None, s)
      else (Some \<lparr>ai_ptr = p, ai_socktype = socktype, ai_protocol = proto, ai_port = word_of_int port, ai_s_addr = a,
                  ai_canonname = None\<rparr>, s))"

fun freeaddrinfo :: "'w services \<Rightarrow> addrinfo list \<Rightarrow> ('w, 'z) libc_scheme \<Rightarrow> ('w, 'z) libc_scheme" where
  "freeaddrinfo os [] s = s"
| "freeaddrinfo os (p # res) s =
     (let s = snd (sys os (Heap (free (case ai_canonname p of None \<Rightarrow> 0 | Some (q, _) \<Rightarrow> q))) s);
          s = snd (sys os (Heap (free (ai_ptr p))) s)
      in freeaddrinfo os res s)"

definition htons :: "int \<Rightarrow> int" where
  "htons x = (x mod 256) * 256 + (x div 256) mod 256"

definition atoi :: "string \<Rightarrow> int" where
  "atoi s = cint (int (number_of 10 (takeWhile isdigit s)))"

text \<open>One result as the return value and \<open>*res\<close>; a failed allocation stores the null pointer.\<close>

definition one_result :: "addrinfo option \<times> ('w, 'z) host_state_scheme \<Rightarrow> (eai \<times> addrinfo list) \<times> ('w, 'z) host_state_scheme" where
  "one_result r = (case r of (Some ai, s) \<Rightarrow> ((EAI_OK, [ai]), s) | (None, s) \<Rightarrow> ((EAI_MEMORY, []), s))"

fun host_results ::
  "'w services \<Rightarrow> int \<Rightarrow> int \<Rightarrow> int \<Rightarrow> byte list list \<Rightarrow> addrinfo list \<Rightarrow> addrinfo list \<Rightarrow> ('w, 'z) host_state_scheme \<Rightarrow>
     (eai \<times> addrinfo list) \<times> ('w, 'z) host_state_scheme" where
  "host_results os port socktype proto [] done res s = ((EAI_OK, if done = [] then res else done), s)"
| "host_results os port socktype proto (a # as) done res s =
     (case malloc_ai os port a socktype proto s of
        (None, s) \<Rightarrow> (let res = (if done = [] then res else done) in ((EAI_MEMORY, res), if res \<noteq> [] then freeaddrinfo os res s else s))
      | (Some cur, s) \<Rightarrow> host_results os port socktype proto as (done @ [cur]) res s)"

definition gai_proto :: "ai_hints option \<Rightarrow> int \<Rightarrow> int" where
  "gai_proto hints socktype =
     (case hints of
        Some h \<Rightarrow> if hint_protocol h \<noteq> 0 then hint_protocol h
                  else if socktype = SOCK_DGRAM then 17 else if socktype = SOCK_STREAM then 6 else 0
      | None \<Rightarrow> if socktype = SOCK_DGRAM then 17 else if socktype = SOCK_STREAM then 6 else 0)"

text \<open>The port of a service: 0 without one, the number, or what \<open>getservbyname\<close> finds.\<close>

definition gai_port :: "string option \<Rightarrow> ('w, 'z) host_state_scheme \<Rightarrow> int option \<times> ('w, 'z) host_state_scheme" where
  "gai_port service s =
     (case service of
        None \<Rightarrow> (Some 0, s)
      | Some t \<Rightarrow>
          if t \<noteq> [] \<and> isdigit (hd t) then (Some (htons (atoi t)), s) else getservbyname t s)"

definition hint :: "(ai_hints \<Rightarrow> bool) \<Rightarrow> ai_hints option \<Rightarrow> bool" where
  "hint f hints = (case hints of None \<Rightarrow> False | Some h \<Rightarrow> f h)"

text \<open>\<open>strdup\<close> is an allocation of the string with its zero.\<close>

definition getaddrinfo ::
  "'w services \<Rightarrow> (int \<Rightarrow> int) \<Rightarrow> net_sdk \<Rightarrow> string option \<Rightarrow> string option \<Rightarrow> ai_hints option \<Rightarrow> addrinfo list \<Rightarrow>
     ('w, 'z) host_state_scheme \<Rightarrow> (eai \<times> addrinfo list) \<times> ('w, 'z) host_state_scheme" where
  "getaddrinfo os net nk node service hints res s =
     (if hint (\<lambda>h. hint_family h \<noteq> 2 \<and> hint_family h \<noteq> 0) hints then ((EAI_FAMILY, res), s)
      else
        (let socktype = (case hints of Some h \<Rightarrow> if hint_socktype h \<noteq> 0 then hint_socktype h else SOCK_STREAM | None \<Rightarrow> SOCK_STREAM);
             proto = gai_proto hints socktype
         in case gai_port service s of
              (None, s) \<Rightarrow> ((EAI_SERVICE, res), s)
            | (Some port, s) \<Rightarrow>
                (case node of
                   None \<Rightarrow> one_result (malloc_ai os port (if hint AI_PASSIVE hints then [0, 0, 0, 0] else [127, 0, 0, 1]) socktype proto s)
                 | Some node \<Rightarrow>
                     (let (ok, a) = inet_aton node in
                      if ok \<noteq> 0 then one_result (malloc_ai os port a socktype proto s)
                      else if hint AI_NUMERICHOST hints then ((EAI_NODATA, res), s)
                      else
                        (case gethostbyname os net nk node s of
                           (None, s) \<Rightarrow> ((EAI_NODATA, res), s)
                         | (Some hp, s) \<Rightarrow>
                             if h_name hp = [] then ((EAI_NODATA, res), s)
                             else
                               (case host_results os port socktype proto (h_addr_list hp) [] res s of
                                  ((EAI_OK, r # rs), s) \<Rightarrow>
                                    if hint AI_CANONNAME hints then
                                      (let (d, s) = sys os (Heap (malloc (of_nat (length (h_name hp) + 1)))) s; q = word_of_int (rp_ret d) in
                                       if q = 0 then ((EAI_MEMORY, r # rs), freeaddrinfo os (r # rs) s)
                                       else ((EAI_OK, r\<lparr>ai_canonname := Some (q, h_name hp)\<rparr> # rs), s))
                                    else ((EAI_OK, r # rs), s)
                                | other \<Rightarrow> other))))))"

definition gai_strerror :: "eai \<Rightarrow> string" where
  "gai_strerror code =
     (case code of
        EAI_BADFLAGS \<Rightarrow> ''Invalid value for ai_flags''
      | EAI_NONAME \<Rightarrow> ''hostname nor servname provided, or not known''
      | EAI_AGAIN \<Rightarrow> ''Temporary failure in name resolution''
      | EAI_FAIL \<Rightarrow> ''Non-recoverable failure in name resolution''
      | EAI_NODATA \<Rightarrow> ''No address associated with hostname''
      | EAI_FAMILY \<Rightarrow> ''ai_family not supported''
      | EAI_SOCKTYPE \<Rightarrow> ''ai_socktype not supported''
      | EAI_SERVICE \<Rightarrow> ''servname not supported for ai_socktype''
      | EAI_ADDRFAMILY \<Rightarrow> ''Address family for hostname not supported''
      | EAI_MEMORY \<Rightarrow> ''Memory allocation failure''
      | EAI_SYSTEM \<Rightarrow> ''System error returned in errno''
      | EAI_OVERFLOW \<Rightarrow> ''Argument buffer overflow''
      | _ \<Rightarrow> ''Unknown error'')"

section \<open>The name of the machine\<close>

text \<open>\<open>strncpy\<close> into memory: the first \<open>n\<close> bytes of the text, padded with zeros to \<open>n\<close>.\<close>

definition mem_strncpy :: "addr \<Rightarrow> byte list \<Rightarrow> nat \<Rightarrow> memory \<Rightarrow> memory" where
  "mem_strncpy p src n m = mem_store p (take n src @ replicate (n - length src) 0) m"

definition str_bytes :: "string \<Rightarrow> byte list" where
  "str_bytes t = map (\<lambda>c. of_nat (of_char c)) t"

definition gethostname ::
  "'w services \<Rightarrow> (int \<Rightarrow> int) \<Rightarrow> net_sdk \<Rightarrow> addr \<Rightarrow> size_t \<Rightarrow> ('w, 'z) net_state_scheme \<Rightarrow> int \<times> ('w, 'z) net_state_scheme" where
  "gethostname os net nk name len s =
     (let s = snd (net_init os nk s) in
      if name = 0 then (- 1, set_errno EFAULT s)
      else
        (let s = s\<lparr>mem := mem_set name 0 len (mem s)\<rparr>;
             (r, s) = sys os (Net sceNetCtlInetGetInfo) s
         in if rp_ret r < 0 then (- 1, set_errno (scenet_errno_to_errno net (rp_ret r)) s)
            else
              (let host = (if length (rp_str r) > 0 then rp_str r else ''localhost'')
               in (0, s\<lparr>mem := mem_strncpy name (str_bytes host) (unat (len - 1)) (mem s)\<rparr>))))"

section \<open>Decimal numbers\<close>

lemma digit_ten: "d < 10 \<Longrightarrow> isdigit (digit d) \<and> digit_in 10 (digit d) \<and> (digit d = CHR ''0'' \<longleftrightarrow> d = 0)"
proof -
  have "list_all (\<lambda>d. isdigit (digit d) \<and> digit_in 10 (digit d) \<and> (digit d = CHR ''0'' \<longleftrightarrow> d = 0)) [0..<10]" by code_simp
  then show "d < 10 \<Longrightarrow> ?thesis" by (auto simp: list_all_iff)
qed

lemma number_of_snoc [simp]: "number_of b (ds @ [c]) = number_of b ds * b + the (xdigit c)"
  by (simp add: number_of_def)

lemma number_of_dec: "number_of 10 (dec_str n) = n"
proof (induction n rule: dec_str.induct)
  case (1 n)
  show ?case
  proof (cases "n < 10")
    case True
    then show ?thesis by (simp add: dec_str.simps [of n] number_of_def xdigit_digit)
  next
    case False
    then show ?thesis using 1 by (simp add: dec_str.simps [of n] xdigit_digit)
  qed
qed

lemma dec_str_digits: "c \<in> set (dec_str n) \<Longrightarrow> digit_in 10 c \<and> isdigit c"
proof (induction n rule: dec_str.induct)
  case (1 n)
  then show ?case by (cases "n < 10") (auto simp: dec_str.simps [of n] digit_ten)
qed

lemma dec_str_hd: "\<exists>c cs. dec_str n = c # cs \<and> isdigit c \<and> (c = CHR ''0'' \<longrightarrow> n = 0 \<and> cs = [])"
proof (induction n rule: dec_str.induct)
  case (1 n)
  show ?case
  proof (cases "n < 10")
    case True
    then show ?thesis by (simp add: dec_str.simps [of n] digit_ten)
  next
    case False
    then obtain c cs where c: "dec_str (n div 10) = c # cs" "isdigit c" "c = CHR ''0'' \<longrightarrow> n div 10 = 0" using 1 by blast
    have "n div 10 \<noteq> 0" using False by simp
    then have "c \<noteq> CHR ''0''" using c by blast
    then show ?thesis using False c by (simp add: dec_str.simps [of n])
  qed
qed

text \<open>A number below 256 in decimal, up to the end or a dot.\<close>

lemma strtoul_dec:
  assumes "n < 256" "rest = [] \<or> hd rest = CHR ''.''"
  shows "strtoul (dec_str n @ rest) = (of_nat n, rest)"
proof -
  have stop: "\<not> digit_in b (CHR ''.'')" for b by (simp add: digit_in_def)
  then have drop: "dropWhile (digit_in b) rest = rest" "takeWhile (digit_in b) rest = []" for b
    using assms(2) by (cases rest; simp)+
  have base: "strtoul_base 10 (dec_str n @ rest) = (of_nat n, rest)"
  proof -
    have "takeWhile (digit_in 10) (dec_str n @ rest) = dec_str n" "dropWhile (digit_in 10) (dec_str n @ rest) = rest"
      using dec_str_digits [of _ n] drop [of 10] by (simp_all add: takeWhile_append2 dropWhile_append2)
    then show ?thesis using assms(1) by (simp add: strtoul_base_def number_of_dec min_def)
  qed
  show ?thesis
  proof (cases "n = 0")
    case True
    then have d: "dec_str 0 = ''0''" by (simp add: dec_str.simps [of 0] digit_def)
    have z: "digit_in 8 (CHR ''0'')" "xdigit (CHR ''0'') = Some 0" by code_simp+
    have "take 1 rest \<noteq> ''x''" "take 1 rest \<noteq> ''X''" using assms(2) by (cases rest; auto)+
    then show ?thesis unfolding True using drop [of 8] z by (simp add: strtoul_def d strtoul_base_def number_of_def)
  next
    case False
    then obtain c cs where "dec_str n = c # cs" "c \<noteq> CHR ''0''" using dec_str_hd [of n] by blast
    then show ?thesis using base by (simp add: strtoul_def)
  qed
qed

lemma aton_parts_dec:
  assumes "n < 256" "rest = [] \<or> hd rest = CHR ''.''"
  shows "aton_parts (Suc i) (dec_str n @ rest) =
    (if rest = [] then Some [of_nat n] else map_option ((#) (of_nat n)) (aton_parts i (tl rest)))"
proof -
  obtain c cs where "dec_str n = c # cs" "isdigit c" using dec_str_hd [of n] by blast
  then show ?thesis using strtoul_dec [OF assms] assms(2) by (cases rest) auto
qed

lemma inet_aton_ntoa:
  assumes "length a = 4"
  shows "inet_aton (inet_ntoa a) = (1, a)"
proof -
  obtain b0 b1 b2 b3 where a: "a = [b0, b1, b2, b3]" using assms by (auto simp: numeral_eq_Suc length_Suc_conv)
  have lt: "unat b < 256" for b :: byte using unsigned_less [of b, where 'a = nat] by simp
  have "aton_parts (Suc (Suc (Suc (Suc 0)))) (inet_ntoa a) =
      Some [of_nat (unat b0), of_nat (unat b1), of_nat (unat b2), of_nat (unat b3)]"
    unfolding inet_ntoa_def a
    using aton_parts_dec [OF lt [of b3], of "[]" 0] by (simp add: aton_parts_dec [OF lt] del: aton_parts.simps)
  then have p: "aton_parts 4 (inet_ntoa a) = Some [of_nat (unat b0), of_nat (unat b1), of_nat (unat b2), of_nat (unat b3)]"
  proof -
    have "(4 :: nat) = Suc (Suc (Suc (Suc 0)))" by simp
    then show ?thesis using \<open>aton_parts (Suc (Suc (Suc (Suc 0)))) (inet_ntoa a) = _\<close> by (simp only:)
  qed
  have u: "unat (of_nat (unat b) :: 32 word) = unat b" for b :: byte
  proof -
    have "unat b < 2 ^ 32" using lt [of b] by simp
    then show ?thesis by (simp add: unat_of_nat take_bit_nat_eq_self del: of_nat_unat)
  qed
  have le: "\<not> (of_nat (unat b) :: 32 word) > 255" for b :: byte
    using lt [of b] u [of b] by (simp add: word_less_nat_alt del: of_nat_unat)
  have same: "ucast (of_nat (unat b) :: 32 word) = b" for b :: byte
    by (metis of_nat_unat u ucast_id)
  show ?thesis unfolding inet_aton_def p using le [of b0] le [of b1] le [of b2] le [of b3]
    by (simp add: a same del: of_nat_unat)
qed

section \<open>Results of getaddrinfo\<close>

text \<open>A service that is not a number is never found.\<close>

lemma getaddrinfo_service:
  assumes "\<not> hint (\<lambda>h. hint_family h \<noteq> 2 \<and> hint_family h \<noteq> 0) hints" "t = [] \<or> \<not> isdigit (hd t)"
  shows "getaddrinfo os net nk node (Some t) hints res s = ((EAI_SERVICE, res), set_errno ENOSYS s)"
  using assms by (auto simp: getaddrinfo_def gai_port_def getservbyname_def Let_def)

text \<open>A numeric host without a service gives exactly one result, with that address, or EAI_MEMORY.\<close>

lemma getaddrinfo_numeric:
  assumes "length a = 4" "p = word_of_int (sys_ret os (Heap (malloc 48)) s)"
  shows "fst (getaddrinfo os net nk (Some (inet_ntoa a)) None None res s) =
    (if p = 0 then (EAI_MEMORY, [])
     else (EAI_OK, [\<lparr>ai_ptr = p, ai_socktype = SOCK_STREAM, ai_protocol = 6, ai_port = 0, ai_s_addr = a, ai_canonname = None\<rparr>]))"
  using assms inet_aton_ntoa [OF assms(1)]
  by (simp add: getaddrinfo_def gai_port_def gai_proto_def hint_def malloc_ai_def one_result_def Let_def case_prod_beta)

text \<open>When the first allocation of a name lookup fails, the list that the caller had in \<open>*res\<close> is freed.\<close>

lemma host_results_frees_callers:
  assumes "word_of_int (sys_ret os (Heap (malloc 48)) s) = (0 :: addr)" "res \<noteq> []"
  shows "host_results os port socktype proto (a # as) [] res s =
    ((EAI_MEMORY, res), freeaddrinfo os res (snd (sys os (Heap (malloc 48)) s)))"
  using assms by (simp add: malloc_ai_def case_prod_beta Let_def)

lemma freeaddrinfo_more: "libc.more (freeaddrinfo os res s) = libc.more s"
  by (induction res arbitrary: s) simp_all

end
