(* ===== verification/C_String.thy ===== *)
theory C_String
  imports Posix_Prelude
begin

text \<open>
  The string functions of \<^verbatim>\<open>src/string\<close>: \<open>strlcpy\<close>, \<open>strlcat\<close>, \<open>memccpy\<close>, \<open>stpcpy\<close> and \<open>strchrnul\<close> work on
  aligned words and find a zero byte in a word with the subtraction trick \<open>HASZERO\<close>. They are modelled on the byte memory
  with loads and stores of little-endian words, and shown equal to the byte-by-byte loops.
  A loop whose end depends on a terminating zero is a \<open>partial_function\<close> into the option type.
\<close>

section \<open>Words in memory\<close>

definition byte_of :: "32 word \<Rightarrow> nat \<Rightarrow> byte" where
  "byte_of w i = ucast (drop_bit (8 * i) w)"

definition load_word :: "memory \<Rightarrow> addr \<Rightarrow> 32 word" where
  "load_word m a =
     word_of_int (uint (m a) + 256 * uint (m (a + 1)) + 65536 * uint (m (a + 2)) + 16777216 * uint (m (a + 3)))"

definition store_word :: "memory \<Rightarrow> addr \<Rightarrow> 32 word \<Rightarrow> memory" where
  "store_word m a w = m(a := byte_of w 0, a + 1 := byte_of w 1, a + 2 := byte_of w 2, a + 3 := byte_of w 3)"

definition ONES :: "32 word" where "ONES = (- 1) div 255"

definition HIGHS :: "32 word" where "HIGHS = ONES * (255 div 2 + 1)"

definition HASZERO :: "32 word \<Rightarrow> bool" where
  "HASZERO x \<longleftrightarrow> (x - ONES) AND NOT x AND HIGHS \<noteq> 0"

section \<open>Copying with a limit\<close>

text \<open>
  The state of a copy is the room left, the two pointers and the memory. The loops of \<open>strlcpy\<close> and \<open>memccpy\<close> have the same
  shape and differ in the byte that ends the copy and the test on a word. The assignment in the condition stores the
  ending byte too.
\<close>

type_synonym copying = "nat \<times> addr \<times> addr \<times> memory"

function copy_aligned :: "byte \<Rightarrow> nat \<Rightarrow> addr \<Rightarrow> addr \<Rightarrow> memory \<Rightarrow> copying" where
  "copy_aligned c n d s m =
     (if s AND 3 \<noteq> 0 \<and> n \<noteq> 0 then
        (if m s \<noteq> c then copy_aligned c (n - 1) (d + 1) (s + 1) (m(d := m s)) else (n, d, s, m(d := m s)))
      else (n, d, s, m))"
  by pat_completeness auto
termination
  by (relation "measure (\<lambda>(c, n, d, s, m). n)") auto

function copy_words :: "(32 word \<Rightarrow> bool) \<Rightarrow> nat \<Rightarrow> addr \<Rightarrow> addr \<Rightarrow> memory \<Rightarrow> copying" where
  "copy_words z n d s m =
     (if n \<ge> 4 \<and> \<not> z (load_word m s) then copy_words z (n - 4) (d + 4) (s + 4) (store_word m d (load_word m s))
      else (n, d, s, m))"
  by pat_completeness auto
termination
  by (relation "measure (\<lambda>(z, n, d, s, m). n)") auto

function copy_bytes :: "byte \<Rightarrow> nat \<Rightarrow> addr \<Rightarrow> addr \<Rightarrow> memory \<Rightarrow> copying" where
  "copy_bytes c n d s m =
     (if n \<noteq> 0 then
        (if m s \<noteq> c then copy_bytes c (n - 1) (d + 1) (s + 1) (m(d := m s)) else (n, d, s, m(d := m s)))
      else (n, d, s, m))"
  by pat_completeness auto
termination
  by (relation "measure (\<lambda>(c, n, d, s, m). n)") auto

declare copy_aligned.simps [simp del] copy_words.simps [simp del] copy_bytes.simps [simp del]

text \<open>\<open>strlen\<close>; \<open>None\<close> when no byte of the address space ends the string.\<close>

definition strlen :: "memory \<Rightarrow> addr \<Rightarrow> nat option" where
  "strlen m s = first_index (\<lambda>i. m (s + of_nat i) = 0) 0 (2 ^ 32)"

definition strlcpy :: "addr \<Rightarrow> addr \<Rightarrow> size_t \<Rightarrow> memory \<Rightarrow> (size_t \<times> memory) option" where
  "strlcpy d s n m =
     (if n = 0 then map_option (\<lambda>l. (of_nat l, m)) (strlen m s)
      else
        (let d0 = d; n = unat n - 1;
             (n, d, s, m) =
               (if s AND 3 = d AND 3 then
                  (let (n, d, s, m) = copy_aligned 0 n d s m in
                   if n \<noteq> 0 \<and> m s \<noteq> 0 then copy_words HASZERO n d s m else (n, d, s, m))
                else (n, d, s, m));
             (n, d, s, m) = copy_bytes 0 n d s m;
             m = m(d := 0)
         in map_option (\<lambda>l. (d - d0 + of_nat l, m)) (strlen m s)))"

text \<open>\<open>memchr\<close> for the byte zero, and \<open>strnlen\<close> on it.\<close>

definition memchr0 :: "memory \<Rightarrow> addr \<Rightarrow> size_t \<Rightarrow> addr option" where
  "memchr0 m s n = map_option (\<lambda>i. s + of_nat i) (first_index (\<lambda>i. m (s + of_nat i) = 0) 0 (unat n))"

definition strnlen :: "memory \<Rightarrow> addr \<Rightarrow> size_t \<Rightarrow> size_t" where
  "strnlen m s n = (case memchr0 m s n of Some p \<Rightarrow> p - s | None \<Rightarrow> n)"

definition strlcat :: "addr \<Rightarrow> addr \<Rightarrow> size_t \<Rightarrow> memory \<Rightarrow> (size_t \<times> memory) option" where
  "strlcat d s n m =
     (let l = strnlen m d n in
      if l = n then map_option (\<lambda>k. (l + of_nat k, m)) (strlen m s)
      else map_option (\<lambda>(r, m). (l + r, m)) (strlcpy (d + l) s (n - l) m))"

text \<open>\<open>memccpy\<close>; the result is the pointer after the byte found, 0 for none.\<close>

definition memccpy :: "addr \<Rightarrow> addr \<Rightarrow> int \<Rightarrow> size_t \<Rightarrow> memory \<Rightarrow> addr \<times> memory" where
  "memccpy d s c n m =
     (let c = word_of_int c :: byte; n = unat n;
          (n, d, s, m) =
            (if s AND 3 = d AND 3 then
               (let (n, d, s, m) = copy_aligned c n d s m in
                if s AND 3 \<noteq> 0 then (n, d, s, m)
                else
                  (let k = ONES * ucast c; (n, d, s, m) = copy_words (\<lambda>w. HASZERO (w XOR k)) n d s m
                   in copy_bytes c n d s m))
             else copy_bytes c n d s m)
      in (if n \<noteq> 0 then d + 1 else 0, m))"

definition mempcpy :: "addr \<Rightarrow> addr \<Rightarrow> size_t \<Rightarrow> memory \<Rightarrow> addr \<times> memory" where
  "mempcpy dest src n m = (dest + n, mem_copy dest src n m)"

section \<open>Copying and searching without a limit\<close>

partial_function (option) cpy_bytes :: "addr \<Rightarrow> addr \<Rightarrow> memory \<Rightarrow> (addr \<times> memory) option" where
  "cpy_bytes d s m = (if m s \<noteq> 0 then cpy_bytes (d + 1) (s + 1) (m(d := m s)) else Some (d, m(d := m s)))"

partial_function (option) cpy_words :: "addr \<Rightarrow> addr \<Rightarrow> memory \<Rightarrow> (addr \<times> addr \<times> memory) option" where
  "cpy_words d s m =
     (if \<not> HASZERO (load_word m s) then cpy_words (d + 4) (s + 4) (store_word m d (load_word m s)) else Some (d, s, m))"

text \<open>The loop to the first aligned address: \<open>Inl\<close> is the return from inside it.\<close>

partial_function (option) cpy_aligned :: "addr \<Rightarrow> addr \<Rightarrow> memory \<Rightarrow> ((addr \<times> memory) + (addr \<times> addr \<times> memory)) option" where
  "cpy_aligned d s m =
     (if s mod 4 \<noteq> 0 then
        (let m = m(d := m s) in if m d = 0 then Some (Inl (d, m)) else cpy_aligned (d + 1) (s + 1) m)
      else Some (Inr (d, s, m)))"

definition stpcpy :: "addr \<Rightarrow> addr \<Rightarrow> memory \<Rightarrow> (addr \<times> memory) option" where
  "stpcpy d s m =
     (if s mod 4 = d mod 4 then
        (case cpy_aligned d s m of
           None \<Rightarrow> None
         | Some (Inl r) \<Rightarrow> Some r
         | Some (Inr (d, s, m)) \<Rightarrow> (case cpy_words d s m of None \<Rightarrow> None | Some (d, s, m) \<Rightarrow> cpy_bytes d s m))
      else cpy_bytes d s m)"

partial_function (option) chr_bytes :: "byte \<Rightarrow> memory \<Rightarrow> addr \<Rightarrow> addr option" where
  "chr_bytes c m s = (if m s \<noteq> 0 \<and> m s \<noteq> c then chr_bytes c m (s + 1) else Some s)"

partial_function (option) chr_words :: "32 word \<Rightarrow> memory \<Rightarrow> addr \<Rightarrow> addr option" where
  "chr_words k m w =
     (if \<not> HASZERO (load_word m w) \<and> \<not> HASZERO (load_word m w XOR k) then chr_words k m (w + 4) else Some w)"

partial_function (option) chr_aligned :: "byte \<Rightarrow> memory \<Rightarrow> addr \<Rightarrow> (addr + addr) option" where
  "chr_aligned c m s =
     (if s mod 4 \<noteq> 0 then (if m s = 0 \<or> m s = c then Some (Inl s) else chr_aligned c m (s + 1)) else Some (Inr s))"

definition strchrnul :: "memory \<Rightarrow> addr \<Rightarrow> int \<Rightarrow> addr option" where
  "strchrnul m s c =
     (let c = word_of_int c :: byte in
      if c = 0 then map_option (\<lambda>l. s + of_nat l) (strlen m s)
      else
        (case chr_aligned c m s of
           None \<Rightarrow> None
         | Some (Inl p) \<Rightarrow> Some p
         | Some (Inr s) \<Rightarrow> (case chr_words (ONES * ucast c) m s of None \<Rightarrow> None | Some s \<Rightarrow> chr_bytes c m s)))"

section \<open>A zero byte in a word\<close>

lemma ONES_eq: "ONES = 0x01010101" by (simp add: ONES_def)

lemma HIGHS_eq: "HIGHS = 0x80808080" by (simp add: HIGHS_def ONES_eq)

lemma bit_HIGHS: "bit HIGHS n \<longleftrightarrow> n \<in> {7, 15, 23, 31}"
proof -
  have "HIGHS = push_bit 7 1 OR push_bit 15 1 OR push_bit 23 1 OR push_bit 31 1" by (simp add: HIGHS_eq)
  then have "bit HIGHS n = bit (push_bit 7 1 OR push_bit 15 1 OR push_bit 23 1 OR push_bit 31 1 :: 32 word) n" by (rule arg_cong)
  also have "\<dots> \<longleftrightarrow> n \<in> {7, 15, 23, 31}"
    unfolding bit_or_iff bit_push_bit_iff bit_1_iff by auto
  finally show ?thesis .
qed

lemma HASZERO_bits:
  "HASZERO x \<longleftrightarrow> (\<exists>n \<in> {7, 15, 23, 31}. bit (x - ONES) n \<and> \<not> bit x n)"
proof -
  have "HASZERO x \<longleftrightarrow> (\<exists>n. bit ((x - ONES) AND NOT x AND HIGHS) n)"
    unfolding HASZERO_def by (metis bit_0_eq bot_apply bot_bool_def bit_eqI)
  then show ?thesis unfolding bit_and_iff bit_not_iff bit_HIGHS by auto
qed

text \<open>Whether the subtraction sets the bit of weight \<open>n\<close> where the value has none.\<close>

definition raises :: "int \<Rightarrow> int \<Rightarrow> int \<Rightarrow> bool" where
  "raises z y n \<longleftrightarrow> odd (z div n) \<and> even (y div n)"

lemma div_128: "(a + 256 * z) div 128 = a div 128 + 2 * z" for a z :: int
proof -
  have "(a + (2 * z) * 128) div 128 = 2 * z + a div 128" by (rule div_mult_self1) simp
  moreover have "a + (2 * z) * 128 = a + 256 * z" by simp
  ultimately show ?thesis by simp
qed

lemma raises_low:
  assumes "0 \<le> b" "b < 256"
  shows "raises (b - 1 + 256 * z) (b + 256 * y) 128 \<longleftrightarrow> b = 0"
proof -
  have "b \<in> {0} \<or> b \<in> {1..128} \<or> b \<in> {129..255}" using assms by auto
  then have "odd ((b - 1) div 128) \<and> even (b div 128) \<longleftrightarrow> b = 0"
  proof (elim disjE)
    assume "b \<in> {1..128}"
    then show ?thesis using div_pos_pos_trivial [of "b - 1" 128] by simp
  next
    assume b: "b \<in> {129..255}"
    then have "b div 128 = 1" using div_pos_pos_trivial [of "b - 128" 128] div_add_self2 [of 128 "b - 128"] by simp
    then show ?thesis using b by simp
  qed simp
  then show ?thesis by (simp add: raises_def div_128)
qed

lemma div_up:
  fixes a z k :: int
  assumes "k > 0" "0 \<le> a" "a < 256"
  shows "(a + 256 * z) div (256 * k) = z div k"
proof -
  have "(a + 256 * z) div 256 = z" using assms(2,3) by simp
  then show ?thesis using assms(1) zdiv_zmult2_eq [of k "a + 256 * z" 256] by simp
qed

lemma raises_up:
  assumes "n > 0" "0 < b" "b < 256"
  shows "raises (b - 1 + 256 * z) (b + 256 * y) (256 * n) \<longleftrightarrow> raises z y n"
  using assms div_up [of n "b - 1" z] div_up [of n b y] by (simp add: raises_def)

lemma bit_raises:
  fixes x :: "32 word"
  assumes "n < 32"
  shows "bit (x - ONES) n \<and> \<not> bit x n \<longleftrightarrow> raises (uint x - 0x01010101) (uint x) (2 ^ n)"
proof -
  have "x - ONES = word_of_int (uint x - 0x01010101)" by (simp add: ONES_eq)
  then have "bit (x - ONES) n \<longleftrightarrow> bit (uint x - 0x01010101) n" using assms by (simp only: bit_word_of_int_iff) simp
  moreover have "bit x n \<longleftrightarrow> bit (uint x) n" using assms by (simp add: bit_uint_iff)
  ultimately show ?thesis by (simp add: raises_def bit_iff_odd)
qed

lemma haszero_value:
  fixes a b c d :: int
  assumes "0 \<le> a" "a < 256" "0 \<le> b" "b < 256" "0 \<le> c" "c < 256" "0 \<le> d" "d < 256"
    and x: "uint x = a + 256 * (b + 256 * (c + 256 * d))"
  shows "HASZERO x \<longleftrightarrow> a = 0 \<or> b = 0 \<or> c = 0 \<or> d = 0"
proof -
  let ?y3 = "d + 256 * 0" and ?z3 = "d - 1 + 256 * 0"
  let ?y2 = "c + 256 * ?y3" and ?z2 = "c - 1 + 256 * ?z3"
  let ?y1 = "b + 256 * ?y2" and ?z1 = "b - 1 + 256 * ?z2"
  let ?y0 = "a + 256 * ?y1" and ?z0 = "a - 1 + 256 * ?z1"
  have v: "uint x = ?y0" "uint x - 0x01010101 = ?z0" using x by simp_all
  have pos: "(0 :: int) < 128" "(0 :: int) < 256 * 128" "(0 :: int) < 256 * (256 * 128)" by simp_all
  have h: "HASZERO x \<longleftrightarrow> raises ?z0 ?y0 128 \<or> raises ?z0 ?y0 (256 * 128) \<or> raises ?z0 ?y0 (256 * (256 * 128)) \<or>
      raises ?z0 ?y0 (256 * (256 * (256 * 128)))"
    unfolding HASZERO_bits using bit_raises [of 7 x] bit_raises [of 15 x] bit_raises [of 23 x] bit_raises [of 31 x] v by simp
  have low: "raises ?z0 ?y0 128 \<longleftrightarrow> a = 0" "raises ?z1 ?y1 128 \<longleftrightarrow> b = 0" "raises ?z2 ?y2 128 \<longleftrightarrow> c = 0"
      "raises ?z3 ?y3 128 \<longleftrightarrow> d = 0"
    by (rule raises_low [OF assms(1,2)], rule raises_low [OF assms(3,4)], rule raises_low [OF assms(5,6)], rule raises_low [OF assms(7,8)])
  have up0: "raises ?z0 ?y0 (256 * n) \<longleftrightarrow> raises ?z1 ?y1 n" if "n > 0" "a \<noteq> 0" for n
    using assms that by (intro raises_up) simp_all
  have up1: "raises ?z1 ?y1 (256 * n) \<longleftrightarrow> raises ?z2 ?y2 n" if "n > 0" "b \<noteq> 0" for n
    using assms that by (intro raises_up) simp_all
  have up2: "raises ?z2 ?y2 (256 * n) \<longleftrightarrow> raises ?z3 ?y3 n" if "n > 0" "c \<noteq> 0" for n
    using assms that by (intro raises_up) simp_all
  show ?thesis
    using h low up0 [OF pos(1)] up0 [OF pos(2)] up0 [OF pos(3)] up1 [OF pos(1)] up1 [OF pos(2)] up2 [OF pos(1)] by blast
qed

lemma uint_byte: "0 \<le> uint (b :: byte)" "uint (b :: byte) < 256"
  using unsigned_less [of b, where 'a = int] by simp_all

lemma uint_load_word:
  "uint (load_word m a) = uint (m a) + 256 * (uint (m (a + 1)) + 256 * (uint (m (a + 2)) + 256 * uint (m (a + 3))))"
proof -
  let ?v = "uint (m a) + 256 * (uint (m (a + 1)) + 256 * (uint (m (a + 2)) + 256 * uint (m (a + 3))))"
  have "0 \<le> ?v \<and> ?v < 2 ^ 32"
    using uint_byte [of "m a"] uint_byte [of "m (a + 1)"] uint_byte [of "m (a + 2)"] uint_byte [of "m (a + 3)"] by simp
  moreover have "load_word m a = word_of_int ?v" by (simp add: load_word_def)
  ultimately show ?thesis by (simp only: uint_word_of_int) simp
qed

lemma HASZERO_load: "HASZERO (load_word m a) \<longleftrightarrow> m a = 0 \<or> m (a + 1) = 0 \<or> m (a + 2) = 0 \<or> m (a + 3) = 0"
  using haszero_value [OF uint_byte uint_byte uint_byte uint_byte uint_load_word] by (simp add: uint_0_iff)

lemma byte_of_div: "byte_of w i = word_of_int (uint w div 256 ^ i)"
proof -
  have "uint (drop_bit (8 * i) w) = uint w div 2 ^ (8 * i)" 
  proof -
    have "uint (drop_bit (8 * i) w) = int (unat w div 2 ^ (8 * i))"
      by (simp only: flip: drop_bit_eq_div unat_drop_bit_eq) simp
    then show ?thesis by (simp add: zdiv_int)
  qed
  then show ?thesis by (simp add: byte_of_def ucast_eq power_mult)
qed

lemma byte_of_load:
  "byte_of (load_word m a) 0 = m a" "byte_of (load_word m a) 1 = m (a + 1)"
  "byte_of (load_word m a) 2 = m (a + 2)" "byte_of (load_word m a) 3 = m (a + 3)"
proof -
  have low: "word_of_int (uint b + 256 * z) = b" for b :: byte and z
  proof -
    have "(256 :: byte) = 0" by simp
    then show ?thesis by (simp only: of_int_add of_int_mult of_int_numeral) simp
  qed
  have up: "(uint b + 256 * z) div 256 ^ Suc i = z div 256 ^ i" for b :: byte and z i
    using div_up [of "256 ^ i" "uint b" z] uint_byte [of b] by simp
  show "byte_of (load_word m a) 0 = m a" unfolding byte_of_div uint_load_word by (simp only: low power_0 div_by_1)
  show "byte_of (load_word m a) 1 = m (a + 1)"
    unfolding byte_of_div uint_load_word One_nat_def up by (simp only: low power_0 div_by_1)
  show "byte_of (load_word m a) 2 = m (a + 2)"
    unfolding byte_of_div uint_load_word numeral_2_eq_2 up by (simp only: low power_0 div_by_1)
  show "byte_of (load_word m a) 3 = m (a + 3)"
    unfolding byte_of_div uint_load_word numeral_3_eq_3 up using low [of "m (a + 3)" 0] by simp
qed

lemma store_load_word:
  "store_word m d (load_word m s) = m(d := m s, d + 1 := m (s + 1), d + 2 := m (s + 2), d + 3 := m (s + 3))"
  by (simp only: store_word_def byte_of_load)

text \<open>The bytes of a word in which every byte is flipped with the same byte.\<close>

lemma byte_of_xor: "byte_of (v XOR w) i = byte_of v i XOR byte_of w i"
  by (simp add: byte_of_def drop_bit_xor unsigned_xor_eq)

lemma byte_of_spread:
  assumes "i \<in> {0, 1, 2, 3}"
  shows "byte_of (ONES * ucast c) i = c"
proof -
  have "ONES * ucast c = load_word (\<lambda>_. c) 0"
  proof -
    have "uint c + 256 * uint c + 65536 * uint c + 16777216 * uint c = 0x01010101 * uint c" by simp
    then show ?thesis by (simp only: load_word_def ONES_eq ucast_eq of_int_mult of_int_numeral)
  qed
  then show ?thesis using assms byte_of_load [of "\<lambda>_. c" 0] by (elim insertE) (simp_all only: empty_iff)
qed

lemma HASZERO_bytes: "HASZERO w \<longleftrightarrow> (\<exists>i \<in> {0, 1, 2, 3}. byte_of w i = 0)"
proof -
  define q where "q = (\<lambda>i. uint w div 256 ^ i)"
  have b: "byte_of w i = 0 \<longleftrightarrow> q i mod 256 = 0" for i
  proof -
    have "uint (byte_of w i) = q i mod 256" by (simp add: byte_of_div q_def uint_word_of_int)
    then show ?thesis using uint_0_iff [of "byte_of w i"] by simp
  qed
  define r where "r = (\<lambda>i. q i mod 256)"
  have s: "q i = r i + 256 * q j" if "j = Suc i" for i j
  proof -
    have "q j = q i div 256" using zdiv_zmult2_eq [of 256 "uint w" "256 ^ i"] that by (simp add: q_def mult.commute)
    then show ?thesis by (simp add: r_def)
  qed
  have "q 4 = 0" using unsigned_less [of w, where 'a = int] by (simp add: q_def)
  moreover have "uint w = q 0" by (simp add: q_def)
  moreover note s [of 1 0] s [of 2 1] s [of 3 2] s [of 4 3]
  ultimately have "uint w = r 0 + 256 * (r 1 + 256 * (r 2 + 256 * r 3))" by simp
  then have "HASZERO w \<longleftrightarrow> r 0 = 0 \<or> r 1 = 0 \<or> r 2 = 0 \<or> r 3 = 0"
    by (intro haszero_value) (simp_all add: r_def)
  then show ?thesis by (simp add: b r_def)
qed

section \<open>Whole words and single bytes\<close>

text \<open>The byte-by-byte functions.\<close>

definition strlcpy_bytes :: "addr \<Rightarrow> addr \<Rightarrow> size_t \<Rightarrow> memory \<Rightarrow> (size_t \<times> memory) option" where
  "strlcpy_bytes d0 s n m =
     (if n = 0 then map_option (\<lambda>l. (of_nat l, m)) (strlen m s)
      else (let (n, d, s, m) = copy_bytes 0 (unat n - 1) d0 s m; m = m(d := 0)
            in map_option (\<lambda>l. (d - d0 + of_nat l, m)) (strlen m s)))"

definition memccpy_bytes :: "addr \<Rightarrow> addr \<Rightarrow> int \<Rightarrow> size_t \<Rightarrow> memory \<Rightarrow> addr \<times> memory" where
  "memccpy_bytes d s c n m =
     (let (n, d, s, m) = copy_bytes (word_of_int c) (unat n) d s m in (if n \<noteq> 0 then d + 1 else 0, m))"

definition in_step :: "addr \<Rightarrow> addr \<Rightarrow> bool" where
  "in_step d s \<longleftrightarrow> (\<exists>k. d = s + 4 * k)"

lemma copy_bytes_stop: "n \<noteq> 0 \<Longrightarrow> m s = c \<Longrightarrow> copy_bytes c n d s m = (n, d, s, m(d := m s))"
  by (simp add: copy_bytes.simps [of c n])

lemma copy_bytes_step: "n \<noteq> 0 \<Longrightarrow> m s \<noteq> c \<Longrightarrow> copy_bytes c n d s m = copy_bytes c (n - 1) (d + 1) (s + 1) (m(d := m s))"
  by (simp add: copy_bytes.simps [of c n])

lemma copy_bytes_step':
  "n \<noteq> 0 \<Longrightarrow> m s \<noteq> c \<Longrightarrow> m s = v \<Longrightarrow> d + 1 = d' \<Longrightarrow> s + 1 = s' \<Longrightarrow> n - 1 = n' \<Longrightarrow> copy_bytes c n d s m = copy_bytes c n' d' s' (m(d := v))"
  by (simp add: copy_bytes_step)

lemma copy_aligned_bytes:
  "copy_aligned c n d s m = (n', d', s', m') \<Longrightarrow> copy_bytes c n' d' s' m' = copy_bytes c n d s m \<and> d' - s' = d - s"
proof (induction n arbitrary: d s m rule: less_induct)
  case (less n)
  show ?case
  proof (cases "s AND 3 \<noteq> 0 \<and> n \<noteq> 0")
    case True
    show ?thesis
    proof (cases "m s = c")
      case found: True
      then show ?thesis using less.prems True by (auto simp: copy_aligned.simps [of c n] copy_bytes_stop)
    next
      case False
      then have "copy_aligned c (n - 1) (d + 1) (s + 1) (m(d := m s)) = (n', d', s', m')"
        using less.prems True by (simp add: copy_aligned.simps [of c n])
      then show ?thesis using less.IH [of "n - 1"] True False by (simp add: copy_bytes_step)
    qed
  next
    case False
    then show ?thesis using less.prems by (auto simp: copy_aligned.simps [of c n])
  qed
qed

lemma and_3_mod: "x AND 3 = x mod 4" for x :: addr
  using take_bit_eq_mod [of 2 x] by (simp add: take_bit_eq_mask mask_eq_exp_minus_1)

lemma in_step_mod: "s mod 4 = d mod 4 \<Longrightarrow> in_step d s" for s d :: addr
proof -
  assume "s mod 4 = d mod 4"
  moreover have "a = b + (x - y)" if "x + r = a" "y + r = b" for a b x y r :: addr using that by auto
  ultimately have "d = s + (d div 4 * 4 - s div 4 * 4)"
    using div_mult_mod_eq [of d 4] div_mult_mod_eq [of s 4] by metis
  then have "d = s + 4 * (d div 4 - s div 4)" by (simp add: algebra_simps)
  then show ?thesis unfolding in_step_def by blast
qed

lemma in_step_apart: "in_step d s \<Longrightarrow> i \<in> {1, 2, 3} \<Longrightarrow> d \<noteq> s + i"
proof -
  assume "in_step d s" and i: "i \<in> {1, 2, 3 :: addr}"
  then obtain k where d: "d = s + push_bit 2 k" by (auto simp: in_step_def push_bit_eq_mult mult.commute)
  have "take_bit 2 (push_bit 2 k) = (0 :: addr)" by (simp add: take_bit_push_bit)
  moreover have "take_bit 2 i \<noteq> 0" using i by auto
  ultimately show ?thesis unfolding d by auto
qed

lemma in_step_add: "in_step (d + i) (s + i) \<longleftrightarrow> in_step d s"
  by (simp add: in_step_def)

text \<open>Four rounds of the byte loop are one round of the word loop when the pointers are in step.\<close>

lemma copy_four:
  assumes "in_step d s" "n \<ge> 4" "m s \<noteq> c" "m (s + 1) \<noteq> c" "m (s + 2) \<noteq> c" "m (s + 3) \<noteq> c"
  shows "copy_bytes c n d s m = copy_bytes c (n - 4) (d + 4) (s + 4) (store_word m d (load_word m s))"
proof -
  have ne: "d \<noteq> s + 1" "d \<noteq> s + 2" "d \<noteq> s + 3" using in_step_apart [OF assms(1)] by simp_all
  have ne': "d + 1 \<noteq> s + 2" "d + 1 \<noteq> s + 3" "d + 2 \<noteq> s + 3"
    using ne by (simp_all add: add.commute)
  have "copy_bytes c n d s m = copy_bytes c (n - 1) (d + 1) (s + 1) (m(d := m s))"
    using assms by (intro copy_bytes_step') simp_all
  also have "\<dots> = copy_bytes c (n - 2) (d + 2) (s + 2) (m(d := m s, d + 1 := m (s + 1)))"
    using assms ne ne' by (intro copy_bytes_step') simp_all
  also have "\<dots> = copy_bytes c (n - 3) (d + 3) (s + 3) (m(d := m s, d + 1 := m (s + 1), d + 2 := m (s + 2)))"
    using assms ne ne' by (intro copy_bytes_step') simp_all
  also have "\<dots> = copy_bytes c (n - 4) (d + 4) (s + 4) (m(d := m s, d + 1 := m (s + 1), d + 2 := m (s + 2), d + 3 := m (s + 3)))"
    using assms ne ne' by (intro copy_bytes_step') simp_all
  finally show ?thesis by (simp only: store_load_word)
qed

lemma copy_words_bytes:
  assumes "copy_words z n d s m = (n', d', s', m')" "in_step d s"
    and "\<And>m s. z (load_word m s) \<longleftrightarrow> m s = c \<or> m (s + 1) = c \<or> m (s + 2) = c \<or> m (s + 3) = c"
  shows "copy_bytes c n' d' s' m' = copy_bytes c n d s m"
  using assms(1,2)
proof (induction n arbitrary: d s m rule: less_induct)
  case (less n)
  show ?case
  proof (cases "n \<ge> 4 \<and> \<not> z (load_word m s)")
    case True
    let ?m = "store_word m d (load_word m s)"
    have "copy_words z (n - 4) (d + 4) (s + 4) ?m = (n', d', s', m')"
      using less.prems(1) True by (simp add: copy_words.simps [of z n])
    then have "copy_bytes c n' d' s' m' = copy_bytes c (n - 4) (d + 4) (s + 4) ?m"
      using less True by (simp add: in_step_add)
    then show ?thesis using copy_four [OF less.prems(2)] True assms(3) by simp
  next
    case False
    then show ?thesis using less.prems by (auto simp: copy_words.simps [of z n])
  qed
qed

lemma HASZERO_xor:
  "HASZERO (load_word m s XOR ONES * ucast c) \<longleftrightarrow> m s = c \<or> m (s + 1) = c \<or> m (s + 2) = c \<or> m (s + 3) = c"
proof -
  have x: "a XOR b = 0 \<longleftrightarrow> a = b" for a b :: byte by (metis xor.right_neutral xor_self_eq xor.assoc)
  have "byte_of (load_word m s XOR ONES * ucast c) i = byte_of (load_word m s) i XOR c" if "i \<in> {0, 1, 2, 3}" for i
    unfolding byte_of_xor byte_of_spread [OF that] by simp
  then have "HASZERO (load_word m s XOR ONES * ucast c) \<longleftrightarrow> (\<exists>i \<in> {0, 1, 2, 3}. byte_of (load_word m s) i = c)"
    unfolding HASZERO_bytes by (simp add: x)
  then show ?thesis using byte_of_load [of m s] by (simp only: bex_simps) auto
qed

lemma strlcpy_by_bytes: "strlcpy d s n m = strlcpy_bytes d s n m"
proof (cases "n \<noteq> 0 \<and> s AND 3 = d AND 3")
  case True
  obtain n1 d1 s1 m1 where a: "copy_aligned 0 (unat n - Suc 0) d s m = (n1, d1, s1, m1)" by (metis prod_cases4)
  obtain n2 d2 s2 m2 where w: "copy_words HASZERO n1 d1 s1 m1 = (n2, d2, s2, m2)" by (metis prod_cases4)
  note a' = copy_aligned_bytes [OF a]
  have "in_step d s" using True by (intro in_step_mod) (simp add: and_3_mod)
  then have "in_step d1 s1" using a' by (auto simp: in_step_def algebra_simps)
  then have w': "copy_bytes 0 n2 d2 s2 m2 = copy_bytes 0 n1 d1 s1 m1"
    by (rule copy_words_bytes [OF w]) (simp only: HASZERO_load)
  show ?thesis
    using True a' w' by (cases "n1 \<noteq> 0 \<and> m1 s1 \<noteq> 0") (simp_all add: strlcpy_def strlcpy_bytes_def a w Let_def)
qed (auto simp: strlcpy_def strlcpy_bytes_def)

lemma copy_aligned_exit:
  "copy_aligned c n d s m = (n', d', s', m') \<Longrightarrow> s' AND 3 \<noteq> 0 \<Longrightarrow> n' \<noteq> 0 \<Longrightarrow> m' d' = c \<and> m' s' = c"
proof (induction n arbitrary: d s m rule: less_induct)
  case (less n)
  show ?case
  proof (cases "s AND 3 \<noteq> 0 \<and> n \<noteq> 0 \<and> m s \<noteq> c")
    case True
    then show ?thesis using less.IH [of "n - 1"] less.prems by (simp add: copy_aligned.simps [of c n])
  next
    case False
    then show ?thesis using less.prems by (auto simp: copy_aligned.simps [of c n] split: if_splits)
  qed
qed

lemma memccpy_by_bytes: "memccpy d s c n m = memccpy_bytes d s c n m"
proof (cases "s AND 3 = d AND 3")
  case True
  let ?c = "word_of_int c :: byte"
  let ?z = "\<lambda>w. HASZERO (w XOR ONES * ucast ?c)"
  obtain n1 d1 s1 m1 where a: "copy_aligned ?c (unat n) d s m = (n1, d1, s1, m1)" by (metis prod_cases4)
  obtain n2 d2 s2 m2 where w: "copy_words ?z n1 d1 s1 m1 = (n2, d2, s2, m2)" by (metis prod_cases4)
  note a' = copy_aligned_bytes [OF a]
  show ?thesis
  proof (cases "s1 AND 3 \<noteq> 0")
    case tail: True
    then have "copy_bytes ?c n1 d1 s1 m1 = (n1, d1, s1, m1)"
      using copy_aligned_exit [OF a tail] by (cases "n1 = 0") (auto simp: copy_bytes.simps [of ?c n1] copy_bytes.simps [of ?c 0])
    then show ?thesis using True a' tail by (simp add: memccpy_def memccpy_bytes_def a)
  next
    case False
    have "in_step d s" using True by (intro in_step_mod) (simp add: and_3_mod)
    then have "in_step d1 s1" using a' by (auto simp: in_step_def algebra_simps)
    then have "copy_bytes ?c n2 d2 s2 m2 = copy_bytes ?c n1 d1 s1 m1"
      by (rule copy_words_bytes [OF w]) (simp only: HASZERO_xor)
    then show ?thesis using True a' False by (simp add: memccpy_def memccpy_bytes_def a w Let_def)
  qed
qed (simp add: memccpy_def memccpy_bytes_def Let_def)

section \<open>Strings in memory\<close>

text \<open>A string of \<open>k\<close> bytes at \<open>s\<close>, and a destination that shares no address with it.\<close>

definition cstr :: "memory \<Rightarrow> addr \<Rightarrow> nat \<Rightarrow> bool" where
  "cstr m s k \<longleftrightarrow> m (s + of_nat k) = 0 \<and> (\<forall>i < k. m (s + of_nat i) \<noteq> 0)"

definition clear_of :: "addr \<Rightarrow> nat \<Rightarrow> addr \<Rightarrow> nat \<Rightarrow> bool" where
  "clear_of d n s k \<longleftrightarrow> (\<forall>i < n. \<forall>j < k. d + of_nat i \<noteq> s + of_nat j)"

lemma strlen_cstr: "cstr m s k \<Longrightarrow> k < 2 ^ 32 \<Longrightarrow> strlen m s = Some k"
  unfolding strlen_def by (rule first_index_eqI) (auto simp: cstr_def)

lemma cstr_0 [simp]: "cstr m s 0 \<longleftrightarrow> m s = 0"
  by (simp add: cstr_def)

lemma off_Suc: "p + of_nat (Suc i) = p + 1 + (of_nat i :: addr)"
  by simp

lemma cstr_Suc [simp]: "cstr m s (Suc k) \<longleftrightarrow> m s \<noteq> 0 \<and> cstr m (s + 1) k"
  unfolding cstr_def All_less_Suc2 off_Suc by auto

lemma clear_of_Suc: "clear_of d (Suc n) s (Suc k) \<Longrightarrow> clear_of (d + 1) n (s + 1) k \<and> clear_of d 1 s (Suc k) \<and> clear_of (d + 1) n s (Suc k)"
proof -
  assume c: "clear_of d (Suc n) s (Suc k)"
  then have "d + 1 + of_nat i \<noteq> s + of_nat j" if "i < n" "j < Suc k" for i j
    using c [unfolded clear_of_def, rule_format, of "Suc i" j] that by (simp only: off_Suc Suc_less_eq not_False_eq_True)
  moreover have "d + 1 + of_nat i \<noteq> s + 1 + of_nat j" if "i < n" "j < k" for i j
    using c [unfolded clear_of_def, rule_format, of "Suc i" "Suc j"] that by (simp only: off_Suc Suc_less_eq not_False_eq_True)
  moreover have "d \<noteq> s + of_nat j" if "j < Suc k" for j
    using c [unfolded clear_of_def, rule_format, of 0 j] that by simp
  ultimately show ?thesis unfolding clear_of_def by simp
qed

lemma clear_of_ahead: "clear_of d (Suc n) s (Suc k) \<Longrightarrow> clear_of d 1 (s + 1) k"
proof -
  assume c: "clear_of d (Suc n) s (Suc k)"
  have "d \<noteq> s + of_nat (Suc i)" if "i < k" for i using c [unfolded clear_of_def, rule_format, of 0 "Suc i"] that by simp
  then show ?thesis by (simp only: clear_of_def off_Suc) simp
qed

lemma cstr_cong: "(\<And>i. i \<le> k \<Longrightarrow> m (s + of_nat i) = m' (s + of_nat i)) \<Longrightarrow> cstr m s k = cstr m' s k"
  by (simp add: cstr_def)

lemma clear_of_upd: "clear_of d 1 s k \<Longrightarrow> i < k \<Longrightarrow> (m(d := v)) (s + of_nat i) = m (s + of_nat i)"
  by (auto simp: clear_of_def)

lemma cstr_upd: "clear_of d 1 s (Suc k) \<Longrightarrow> cstr (m(d := v)) s k = cstr m s k"
proof (rule cstr_cong)
  fix i
  assume "clear_of d 1 s (Suc k)" "i \<le> k"
  then show "(m(d := v)) (s + of_nat i) = m (s + of_nat i)" by (intro clear_of_upd [of d s "Suc k"]) simp_all
qed

lemma load_upd: "clear_of d 1 s k \<Longrightarrow> mem_load s k (m(d := v)) = mem_load s k m"
  by (intro mem_load_cong clear_of_upd)

lemma copy_bytes_string:
  assumes "cstr m s k" "clear_of d (Suc n) s (Suc k)" "j = min n k"
  shows "\<exists>m'. copy_bytes 0 n d s m = (n - j, d + of_nat j, s + of_nat j, m') \<and>
    m'(d + of_nat j := 0) = mem_store d (take n (mem_load s k m) @ [0]) m \<and>
    (\<forall>a. (\<forall>i \<le> n. a \<noteq> d + of_nat i) \<longrightarrow> m' a = m a)"
  using assms
proof (induction n arbitrary: k d s m j)
  case 0
  then show ?case by (simp add: copy_bytes.simps [of 0 0])
next
  case (Suc n)
  show ?case
  proof (cases k)
    case 0
    then show ?thesis using Suc.prems by (auto simp: copy_bytes_stop fun_upd_def)
  next
    case (Suc k')
    let ?m = "m(d := m s)"
    note c = clear_of_Suc [OF Suc.prems(2) [unfolded Suc]]
    have up: "clear_of d 1 (s + 1) (Suc k')" using Suc.prems(2) unfolding Suc by (rule clear_of_ahead)
    have st: "cstr ?m (s + 1) k'" using Suc.prems(1) up by (simp add: Suc cstr_upd)
    obtain m' where m': "copy_bytes 0 n (d + 1) (s + 1) ?m =
          (n - min n k', d + 1 + of_nat (min n k'), s + 1 + of_nat (min n k'), m')"
        "m'(d + 1 + of_nat (min n k') := 0) = mem_store (d + 1) (take n (mem_load (s + 1) k' ?m) @ [0]) ?m"
        "\<forall>a. (\<forall>i \<le> n. a \<noteq> d + 1 + of_nat i) \<longrightarrow> m' a = ?m a"
      using Suc.IH [OF st, of "d + 1"] c Suc by blast
    have l: "mem_load (s + 1) k' ?m = mem_load (s + 1) k' m" using up by (intro load_upd) (simp add: clear_of_def)
    have j: "j = Suc (min n k')" using Suc.prems(3) Suc by simp
    have "\<forall>a. (\<forall>i \<le> Suc n. a \<noteq> d + of_nat i) \<longrightarrow> m' a = m a"
    proof (intro allI impI)
      fix a assume a: "\<forall>i \<le> Suc n. a \<noteq> d + of_nat i"
      have "a \<noteq> d + 1 + of_nat i" if "i \<le> n" for i
        using a [rule_format, of "Suc i"] that by (simp only: off_Suc Suc_le_mono not_False_eq_True)
      moreover have "a \<noteq> d" using a [rule_format, of 0] by simp
      ultimately show "m' a = m a" using m'(3) by simp
    qed
    moreover have "copy_bytes 0 (Suc n) d s m = (Suc n - j, d + of_nat j, s + of_nat j, m')"
    proof -
      have "copy_bytes 0 (Suc n) d s m = copy_bytes 0 n (d + 1) (s + 1) ?m"
        using Suc.prems(1) by (intro copy_bytes_step') (simp_all add: Suc)
      then show ?thesis by (simp only: m'(1) j off_Suc diff_Suc_Suc)
    qed
    moreover have "m'(d + of_nat j := 0) = mem_store d (take (Suc n) (mem_load s k m) @ [0]) m"
      by (simp only: j off_Suc m'(2) Suc mem_load_Suc take_Suc_Cons append_Cons mem_store.simps l)
    ultimately show ?thesis by blast
  qed
qed

lemma strlcpy_string:
  assumes "n \<noteq> 0" "cstr m s k" "k < 2 ^ 32" "clear_of d (unat n) s (Suc k)"
  shows "strlcpy d s n m = Some (of_nat k, mem_store d (take (unat n - 1) (mem_load s k m) @ [0]) m)"
proof -
  let ?n = "unat n - 1" and ?M = "mem_store d (take (unat n - 1) (mem_load s k m) @ [0]) m"
  let ?j = "min ?n k"
  have n: "unat n = Suc ?n" using assms(1) by (cases "unat n") (simp_all add: unat_eq_0)
  obtain m' where m': "copy_bytes 0 ?n d s m = (?n - ?j, d + of_nat ?j, s + of_nat ?j, m')" "m'(d + of_nat ?j := 0) = ?M"
      "\<forall>a. (\<forall>i \<le> ?n. a \<noteq> d + of_nat i) \<longrightarrow> m' a = m a"
    using copy_bytes_string [OF assms(2) _ refl, of d ?n] assms(4) n by auto
  have "cstr ?M (s + of_nat ?j) (k - ?j) = cstr m (s + of_nat ?j) (k - ?j)"
  proof (rule cstr_cong)
    fix i assume i: "i \<le> k - ?j"
    have le: "?j + i < Suc k" using i by (auto simp: min_def)
    have "s + of_nat (?j + i) \<noteq> d + of_nat l" if "l \<le> ?n" for l
      using assms(4) [unfolded clear_of_def, rule_format, of l "?j + i"] that le n by auto
    then have "s + of_nat ?j + of_nat i \<noteq> d + of_nat l" if "l \<le> ?n" for l using that by (simp add: add.assoc)
    then have "m' (s + of_nat ?j + of_nat i) = m (s + of_nat ?j + of_nat i)" "s + of_nat ?j + of_nat i \<noteq> d + of_nat ?j"
      using m'(3) by auto
    then show "?M (s + of_nat ?j + of_nat i) = m (s + of_nat ?j + of_nat i)" by (metis m'(2) fun_upd_other)
  qed
  moreover have "cstr m (s + of_nat ?j) (k - ?j)"
    using assms(2) unfolding cstr_def by (simp add: add.assoc flip: of_nat_add)
  ultimately have "strlen ?M (s + of_nat ?j) = Some (k - ?j)" using assms(3) by (intro strlen_cstr) simp_all
  moreover have "of_nat ?j + of_nat (k - ?j) = (of_nat k :: addr)" by (simp flip: of_nat_add)
  ultimately show ?thesis using assms(1) m'(1,2) by (simp add: strlcpy_by_bytes strlcpy_bytes_def)
qed

lemma strnlen_string:
  assumes "cstr m s k"
  shows "strnlen m s n = (if k < unat n then of_nat k else n)"
proof (cases "k < unat n")
  case True
  then have "first_index (\<lambda>i. m (s + of_nat i) = 0) 0 (unat n) = Some k"
    using assms by (intro first_index_eqI) (auto simp: cstr_def)
  then show ?thesis using True by (simp add: strnlen_def memchr0_def)
next
  case False
  then have "first_index (\<lambda>i. m (s + of_nat i) = 0) 0 (unat n) = None"
    using assms by (auto simp: first_index_None cstr_def)
  then show ?thesis using False by (simp add: strnlen_def memchr0_def)
qed

text \<open>Appending: the room that the destination has left is filled; with no terminating zero in it nothing is written.\<close>

lemma strlcat_string:
  assumes "cstr m d l" "cstr m s k" "k < 2 ^ 32" "clear_of (d + of_nat l) (unat n - l) s (Suc k)"
  shows "strlcat d s n m =
    (if l < unat n then Some (of_nat (l + k), mem_store (d + of_nat l) (take (unat n - l - 1) (mem_load s k m) @ [0]) m)
     else Some (n + of_nat k, m))"
proof (cases "l < unat n")
  case True
  have l: "unat (of_nat l :: size_t) = l" using True unat_lt32 [of n] by (simp add: unat_of_nat take_bit_nat_eq_self)
  then have le: "of_nat l \<le> n" "of_nat l \<noteq> n" using True by (auto simp: word_le_nat_alt)
  then have "unat (n - of_nat l) = unat n - l" using l by (simp add: unat_sub)
  moreover have "n - of_nat l \<noteq> 0" using le by simp
  ultimately show ?thesis
    using strlcpy_string [of "n - of_nat l" m s k "d + of_nat l"] assms True le
    by (simp add: strlcat_def strnlen_string [OF assms(1)] Let_def)
next
  case False
  then show ?thesis by (simp add: strlcat_def strnlen_string [OF assms(1)] strlen_cstr [OF assms(2,3)])
qed

text \<open>\<open>stpcpy\<close> in step with \<open>cpy_bytes\<close>.\<close>

lemma cpy_bytes_step:
  "m s \<noteq> 0 \<Longrightarrow> m s = v \<Longrightarrow> d + 1 = d' \<Longrightarrow> s + 1 = s' \<Longrightarrow> cpy_bytes d s m = cpy_bytes d' s' (m(d := v))"
  by (auto simp: cpy_bytes.simps [of d s m])

text \<open>The hypothesis of the loops: a string that the destination does not touch.\<close>

definition copyable :: "addr \<Rightarrow> addr \<Rightarrow> memory \<Rightarrow> nat \<Rightarrow> bool" where
  "copyable d s m k \<longleftrightarrow> cstr m s k \<and> clear_of d (Suc k) s (Suc k)"

lemma copyable_Suc:
  assumes "copyable d s m (Suc k)"
  shows "m s \<noteq> 0" "copyable (d + 1) (s + 1) (m(d := v)) k" "mem_load (s + 1) k (m(d := v)) = mem_load (s + 1) k m"
proof -
  have c: "cstr m s (Suc k)" "clear_of d (Suc (Suc k)) s (Suc (Suc k))" using assms by (simp_all add: copyable_def)
  note up = clear_of_ahead [OF c(2)]
  show "m s \<noteq> 0" using c(1) by simp
  show "copyable (d + 1) (s + 1) (m(d := v)) k"
    unfolding copyable_def cstr_upd [OF up] using c(1) clear_of_Suc [OF c(2)] by simp
  show "mem_load (s + 1) k (m(d := v)) = mem_load (s + 1) k m"
    using up by (intro load_upd) (simp add: clear_of_def)
qed

lemma cpy_bytes_string:
  "copyable d s m k \<Longrightarrow> cpy_bytes d s m = Some (d + of_nat k, mem_store d (mem_load s k m @ [0]) m)"
proof (induction k arbitrary: d s m)
  case 0
  then show ?case by (simp add: copyable_def cpy_bytes.simps [of d s] fun_upd_def)
next
  case (Suc k)
  note c = copyable_Suc [OF Suc.prems]
  have "cpy_bytes d s m = cpy_bytes (d + 1) (s + 1) (m(d := m s))" using c(1) by (intro cpy_bytes_step) simp_all
  then show ?case unfolding Suc.IH [OF c(2)] c(3) by (simp add: mem_load_Suc add.assoc)
qed

lemma in_step_ne:
  assumes "in_step d s"
  shows "d \<noteq> s + 1" "d \<noteq> s + 2" "d \<noteq> s + 3" "d + 1 \<noteq> s + 2" "d + 1 \<noteq> s + 3" "d + 2 \<noteq> s + 3"
proof -
  show ne: "d \<noteq> s + 1" "d \<noteq> s + 2" "d \<noteq> s + 3" using in_step_apart [OF assms] by simp_all
  show "d + 1 \<noteq> s + 2" "d + 1 \<noteq> s + 3" "d + 2 \<noteq> s + 3" using ne by (simp_all add: add.commute)
qed

lemma cpy_four:
  assumes "in_step d s" "m s \<noteq> 0" "m (s + 1) \<noteq> 0" "m (s + 2) \<noteq> 0" "m (s + 3) \<noteq> 0"
  shows "cpy_bytes d s m = cpy_bytes (d + 4) (s + 4) (store_word m d (load_word m s))"
proof -
  note ne = in_step_ne [OF assms(1)]
  have "cpy_bytes d s m = cpy_bytes (d + 1) (s + 1) (m(d := m s))"
    using assms by (intro cpy_bytes_step) simp_all
  also have "\<dots> = cpy_bytes (d + 2) (s + 2) (m(d := m s, d + 1 := m (s + 1)))"
    using assms ne by (intro cpy_bytes_step) simp_all
  also have "\<dots> = cpy_bytes (d + 3) (s + 3) (m(d := m s, d + 1 := m (s + 1), d + 2 := m (s + 2)))"
    using assms ne by (intro cpy_bytes_step) simp_all
  also have "\<dots> = cpy_bytes (d + 4) (s + 4) (m(d := m s, d + 1 := m (s + 1), d + 2 := m (s + 2), d + 3 := m (s + 3)))"
    using assms ne by (intro cpy_bytes_step) simp_all
  finally show ?thesis by (simp only: store_load_word)
qed

lemma copyable_four:
  assumes "copyable d s m k" "m s \<noteq> 0" "m (s + 1) \<noteq> 0" "m (s + 2) \<noteq> 0" "m (s + 3) \<noteq> 0"
  shows "k \<ge> 4 \<and> copyable (d + 4) (s + 4) (store_word m d (load_word m s)) (k - 4)"
proof -
  have z: "m (s + of_nat k) = 0" using assms(1) by (simp add: copyable_def cstr_def)
  have "k \<noteq> 0" using z assms(2) by (cases k) auto
  moreover have "k \<noteq> 1" "k \<noteq> 2" "k \<noteq> 3" using z assms(3-5) by auto
  ultimately have "k \<ge> 4" by linarith
  then obtain j where k: "k = Suc (Suc (Suc (Suc j)))" using that [of "k - 4"] by simp
  have "copyable (d + 1) (s + 1) (m(d := m s)) (Suc (Suc (Suc j)))"
    using copyable_Suc(2) assms(1) unfolding k by blast
  from copyable_Suc(2) [OF this, of "m (s + 1)"] have "copyable (d + 2) (s + 2) (m(d := m s, d + 1 := m (s + 1))) (Suc (Suc j))"
    by (simp add: add.commute)
  from copyable_Suc(2) [OF this, of "m (s + 2)"] have "copyable (d + 3) (s + 3) (m(d := m s, d + 1 := m (s + 1), d + 2 := m (s + 2))) (Suc j)"
    by (simp add: add.commute)
  from copyable_Suc(2) [OF this, of "m (s + 3)"]
  have "copyable (d + 4) (s + 4) (m(d := m s, d + 1 := m (s + 1), d + 2 := m (s + 2), d + 3 := m (s + 3))) j"
    by (simp add: add.commute)
  then show ?thesis by (simp add: k store_load_word)
qed

lemma cpy_words_bytes:
  "copyable d s m k \<Longrightarrow> in_step d s \<Longrightarrow> \<exists>d' s' m'. cpy_words d s m = Some (d', s', m') \<and> cpy_bytes d' s' m' = cpy_bytes d s m"
proof (induction k arbitrary: d s m rule: less_induct)
  case (less k)
  let ?m = "store_word m d (load_word m s)"
  show ?case
  proof (cases "HASZERO (load_word m s)")
    case True
    then show ?thesis by (simp add: cpy_words.simps [of d s m])
  next
    case False
    then have nz: "m s \<noteq> 0" "m (s + 1) \<noteq> 0" "m (s + 2) \<noteq> 0" "m (s + 3) \<noteq> 0" by (auto simp: HASZERO_load)
    note c = copyable_four [OF less.prems(1) nz]
    have "cpy_words d s m = cpy_words (d + 4) (s + 4) ?m" using False by (simp add: cpy_words.simps [of d s m])
    then show ?thesis
      using less.IH [of "k - 4" "d + 4" "s + 4" ?m] c less.prems(2) cpy_four [OF less.prems(2) nz] by (simp add: in_step_add)
  qed
qed

lemma cpy_aligned_bytes:
  "copyable d s m k \<Longrightarrow> in_step d s \<Longrightarrow>
   (\<exists>r. cpy_aligned d s m = Some (Inl r) \<and> cpy_bytes d s m = Some r) \<or>
   (\<exists>d' s' m' j. cpy_aligned d s m = Some (Inr (d', s', m')) \<and> cpy_bytes d' s' m' = cpy_bytes d s m \<and>
      copyable d' s' m' j \<and> in_step d' s')"
proof (induction k arbitrary: d s m)
  case 0
  then show ?case
  proof (cases "s mod 4 = 0")
    case True
    then have "cpy_aligned d s m = Some (Inr (d, s, m))" by (simp add: cpy_aligned.simps [of d s m])
    then show ?thesis using 0 by blast
  qed (auto simp: cpy_aligned.simps [of d s m] cpy_bytes.simps [of d s m] Let_def copyable_def)
next
  case (Suc k)
  show ?case
  proof (cases "s mod 4 = 0")
    case True
    then show ?thesis using Suc.prems by (auto simp: cpy_aligned.simps [of d s m])
  next
    case False
    note c = copyable_Suc [OF Suc.prems(1)]
    have a: "cpy_aligned d s m = cpy_aligned (d + 1) (s + 1) (m(d := m s))"
      using False c(1) by (simp add: cpy_aligned.simps [of d s m] Let_def)
    have b: "cpy_bytes d s m = cpy_bytes (d + 1) (s + 1) (m(d := m s))" using c(1) by (intro cpy_bytes_step) simp_all
    show ?thesis unfolding a b using Suc.prems(2) by (intro Suc.IH c(2)) (simp add: in_step_add)
  qed
qed

lemma stpcpy_string:
  assumes "copyable d s m k"
  shows "stpcpy d s m = Some (d + of_nat k, mem_store d (mem_load s k m @ [0]) m)"
proof -
  have "stpcpy d s m = cpy_bytes d s m"
  proof (cases "s mod 4 = d mod 4")
    case True
    then show ?thesis
      using cpy_aligned_bytes [OF assms in_step_mod [OF True]] cpy_words_bytes by (fastforce simp: stpcpy_def)
  qed (simp add: stpcpy_def)
  then show ?thesis using cpy_bytes_string [OF assms] by simp
qed

text \<open>\<open>strchrnul\<close> stops at the first byte that is zero or the one looked for.\<close>

definition chr_stop :: "byte \<Rightarrow> memory \<Rightarrow> addr \<Rightarrow> nat \<Rightarrow> bool" where
  "chr_stop c m s i \<longleftrightarrow> m (s + of_nat i) \<in> {0, c} \<and> (\<forall>j < i. m (s + of_nat j) \<notin> {0, c})"

lemma chr_stop_0 [simp]: "chr_stop c m s 0 \<longleftrightarrow> m s \<in> {0, c}"
  by (simp add: chr_stop_def)

lemma chr_stop_Suc [simp]: "chr_stop c m s (Suc i) \<longleftrightarrow> m s \<notin> {0, c} \<and> chr_stop c m (s + 1) i"
  unfolding chr_stop_def All_less_Suc2 off_Suc by auto

lemma chr_bytes_stop: "chr_stop c m s i \<Longrightarrow> chr_bytes c m s = Some (s + of_nat i)"
proof (induction i arbitrary: s)
  case (Suc i)
  then show ?case by (simp add: chr_bytes.simps [of c m s] add.assoc)
next
  case 0
  then show ?case by (auto simp: chr_bytes.simps [of c m s])
qed

lemma chr_words_stop:
  "chr_stop c m s i \<Longrightarrow> \<exists>s' j. chr_words (ONES * ucast c) m s = Some s' \<and> chr_stop c m s' j \<and> s' + of_nat j = s + of_nat i"
proof (induction i arbitrary: s rule: less_induct)
  case (less i)
  show ?case
  proof (cases "HASZERO (load_word m s) \<or> HASZERO (load_word m s XOR ONES * ucast c)")
    case True
    then show ?thesis using less.prems by (auto simp: chr_words.simps [of _ m s])
  next
    case False
    then have nz: "m s \<notin> {0, c}" "m (s + 1) \<notin> {0, c}" "m (s + 2) \<notin> {0, c}" "m (s + 3) \<notin> {0, c}"
      by (auto simp: HASZERO_load HASZERO_xor)
    have z: "m (s + of_nat i) \<in> {0, c}" using less.prems by (simp add: chr_stop_def)
    have "i \<noteq> 0" using z nz(1) by (cases i) auto
    moreover have "i \<noteq> 1" "i \<noteq> 2" "i \<noteq> 3" using z nz(2-4) by auto
    ultimately have "i \<ge> 4" by linarith
    then obtain j where i: "i = Suc (Suc (Suc (Suc j)))" using that [of "i - 4"] by simp
    have "chr_stop c m (s + 4) j" using less.prems by (simp add: i add.commute)
    moreover have "chr_words (ONES * ucast c) m s = chr_words (ONES * ucast c) m (s + 4)"
      using False by (simp add: chr_words.simps [of _ m s])
    moreover have "s + of_nat i = s + 4 + of_nat j" by (simp add: i)
    ultimately show ?thesis using less.IH [of j "s + 4"] i by (metis less_Suc_eq less_SucI lessI)
  qed
qed

lemma chr_aligned_stop:
  "chr_stop c m s i \<Longrightarrow> chr_aligned c m s = Some (Inl (s + of_nat i)) \<or>
   (\<exists>s' j. chr_aligned c m s = Some (Inr s') \<and> chr_stop c m s' j \<and> s' + of_nat j = s + of_nat i)"
proof (induction i arbitrary: s)
  case 0
  then show ?case
  proof (cases "s mod 4 = 0")
    case True
    then have "chr_aligned c m s = Some (Inr s)" by (simp add: chr_aligned.simps [of c m s])
    then show ?thesis using 0 by blast
  qed (auto simp: chr_aligned.simps [of c m s])
next
  case (Suc i)
  show ?case
  proof (cases "s mod 4 = 0")
    case True
    then have "chr_aligned c m s = Some (Inr s)" by (simp add: chr_aligned.simps [of c m s])
    then show ?thesis using Suc.prems by blast
  next
    case False
    then have "chr_aligned c m s = chr_aligned c m (s + 1)" using Suc.prems by (simp add: chr_aligned.simps [of c m s])
    then show ?thesis using Suc.IH [of "s + 1"] Suc.prems by (simp add: add.assoc)
  qed
qed

lemma strchrnul_stop:
  assumes "chr_stop (word_of_int c) m s i" "i < 2 ^ 32"
  shows "strchrnul m s c = Some (s + of_nat i)"
proof (cases "(word_of_int c :: byte) = 0")
  case True
  then have "cstr m s i" using assms(1) by (auto simp: chr_stop_def cstr_def)
  then show ?thesis using True assms(2) by (simp add: strchrnul_def strlen_cstr)
next
  case False
  show ?thesis
    using chr_aligned_stop [OF assms(1)] chr_words_stop [of "word_of_int c" m] chr_bytes_stop [of "word_of_int c" m] False
    by (fastforce simp: strchrnul_def Let_def)
qed

section \<open>Properties\<close>

text \<open>C36 (equivalence): \<open>strlcpy\<close> and \<open>memccpy\<close>, which copy whole words once the pointers are aligned, give for all addresses, limits and
  memories, overlapping ones included, the same result and the same memory as the loops that copy one byte at a time.\<close>
theorem word_copies_by_bytes:
  "strlcpy d s n m = strlcpy_bytes d s n m \<and> memccpy d s c n m = memccpy_bytes d s c n m"
  using strlcpy_by_bytes memccpy_by_bytes by simp

text \<open>C37 (functional): \<open>strlcpy\<close> to a destination apart from the source returns the length of the source and leaves there
  the first \<open>n - 1\<close> bytes of it, or all of it when it is shorter, with a terminating zero, and changes nothing else;
  for \<open>n = 0\<close> it writes nothing.\<close>
theorem strlcpy_truncates:
  assumes "cstr m s k" "k < 2 ^ 32" "clear_of d (unat n) s (Suc k)"
  shows "strlcpy d s n m =
    Some (of_nat k, if n = 0 then m else mem_store d (take (unat n - 1) (mem_load s k m) @ [0]) m)"
  using strlcpy_string [OF _ assms] strlen_cstr [OF assms(1,2)] by (cases "n = 0") (simp_all add: strlcpy_def)

definition hello_mem :: memory where
  "hello_mem = (\<lambda>_. 0)(101 := 104, 102 := 101, 103 := 108, 104 := 108, 105 := 111)"

theorem strlcpy_truncates_witness:
  "\<exists>m. strlcpy 200 101 4 hello_mem = Some (5, m) \<and> mem_load 200 4 m = [104, 101, 108, 0]"
proof -
  have i5: "(\<forall>i < (5 :: nat). P i) \<longleftrightarrow> P 0 \<and> P 1 \<and> P 2 \<and> P 3 \<and> P 4" for P
    by (simp add: numeral_eq_Suc All_less_Suc conj_ac)
  have i4: "(\<forall>i < (4 :: nat). P i) \<longleftrightarrow> P 0 \<and> P 1 \<and> P 2 \<and> P 3" for P
    by (simp add: numeral_eq_Suc All_less_Suc conj_ac)
  have c: "cstr hello_mem 101 5" by (simp add: cstr_def i5 hello_mem_def)
  have u: "unat (4 :: size_t) = 4" by simp
  have "clear_of 200 (unat (4 :: size_t)) 101 (Suc 5)"
    unfolding clear_of_def u i4 All_less_Suc i5 by simp
  then have "strlcpy 200 101 4 hello_mem =
      Some (5, mem_store 200 (take (unat (4 :: size_t) - 1) (mem_load 101 5 hello_mem) @ [0]) hello_mem)"
    using strlcpy_truncates [OF c, of 200 4] by simp
  moreover have "take (unat (4 :: size_t) - 1) (mem_load 101 5 hello_mem) @ [0] = [104, 101, 108, 0]" by code_simp
  moreover have "mem_load 200 4 (mem_store 200 [104, 101, 108, 0] hello_mem) = [104, 101, 108, 0]" by code_simp
  ultimately show ?thesis by (metis (no_types))
qed

end
