(* ===== verification/C_Wide.thy ===== *)
theory C_Wide
  imports C_String
begin

text \<open>
  The wide-character functions \<open>wcslcpy\<close>, \<open>wcslcat\<close>, \<open>wcsncasecmp\<close> and \<open>wcscasecmp\<close>, and \<open>strcasestr\<close>. A wide string is an array
  from index 0; source and destination are different arrays, as \<^verbatim>\<open>wcslcat.c\<close> requires. The width of \<open>wchar_t\<close> plays
  no role and is a type variable; \<open>towlower\<close> and \<open>strncasecmp\<close> of the C library are parameters.
\<close>

type_synonym 'c wide = "nat \<Rightarrow> 'c"

partial_function (option) wcs_skip :: "'c::zero wide \<Rightarrow> nat \<Rightarrow> nat option" where
  "wcs_skip src i = (if src i \<noteq> 0 then wcs_skip src (Suc i) else Some (Suc i))"

text \<open>The \<open>do\<close> loop of \<open>wcslcpy\<close>; both pointers have the same index.\<close>

function wcs_copy :: "'c::zero wide \<Rightarrow> 'c wide \<Rightarrow> nat \<Rightarrow> nat \<Rightarrow> 'c wide \<times> nat \<times> nat" where
  "wcs_copy dst src i n =
     (let dst = dst(i := src i) in
      if src i = 0 then (dst, Suc i, n)
      else if n - 1 \<noteq> 0 then wcs_copy dst src (Suc i) (n - 1)
      else (dst, Suc i, n - 1))"
  by pat_completeness auto
termination
  by (relation "measure (\<lambda>(dst, src, i, n). n)") auto

declare wcs_copy.simps [simp del]

definition wcslcpy :: "'c::zero wide \<Rightarrow> 'c wide \<Rightarrow> nat \<Rightarrow> (nat \<times> 'c wide) option" where
  "wcslcpy dst src siz =
     (let (dst, i, n) =
            (if siz \<noteq> 0 then
               (if siz - 1 \<noteq> 0 then wcs_copy dst src 0 (siz - 1) else (dst, 0, siz - 1))
             else (dst, 0, siz))
      in if n = 0 then
           (let dst = (if siz \<noteq> 0 then dst(i := 0) else dst) in map_option (\<lambda>s. (s - 1, dst)) (wcs_skip src i))
         else Some (i - 1, dst))"

fun wcs_find_end :: "'c::zero wide \<Rightarrow> nat \<Rightarrow> nat \<Rightarrow> nat" where
  "wcs_find_end dst d n = (if dst d \<noteq> 0 \<and> n \<noteq> 0 then wcs_find_end dst (Suc d) (n - 1) else d)"

declare wcs_find_end.simps [simp del]

definition wcslen :: "'c::zero wide \<Rightarrow> nat option" where
  "wcslen s = map_option (\<lambda>i. i - 1) (wcs_skip s 0)"

partial_function (option) wcs_append ::
  "'c::zero wide \<Rightarrow> 'c wide \<Rightarrow> nat \<Rightarrow> nat \<Rightarrow> nat \<Rightarrow> ('c wide \<times> nat \<times> nat) option" where
  "wcs_append dst src d s n =
     (if src s \<noteq> 0 then
        (if n \<noteq> 1 then wcs_append (dst(d := src s)) src (Suc d) (Suc s) (n - 1)
         else wcs_append dst src d (Suc s) n)
      else Some (dst, d, s))"

definition wcslcat :: "'c::zero wide \<Rightarrow> 'c wide \<Rightarrow> nat \<Rightarrow> (nat \<times> 'c wide) option" where
  "wcslcat dst src siz =
     (let dlen = wcs_find_end dst 0 siz; n = siz - dlen in
      if n = 0 then map_option (\<lambda>k. (dlen + k, dst)) (wcslen src)
      else map_option (\<lambda>(dst, d, s). (dlen + s, dst(d := 0))) (wcs_append dst src dlen 0 n))"

fun wcs_case_loop :: "('c::zero \<Rightarrow> int) \<Rightarrow> 'c wide \<Rightarrow> 'c wide \<Rightarrow> nat \<Rightarrow> nat \<Rightarrow> int" where
  "wcs_case_loop low l r i n =
     (if l i \<noteq> 0 \<and> r i \<noteq> 0 \<and> n \<noteq> 0 \<and> (l i = r i \<or> low (l i) = low (r i)) then wcs_case_loop low l r (Suc i) (n - 1)
      else low (l i) - low (r i))"

declare wcs_case_loop.simps [simp del]

definition wcsncasecmp :: "('c::zero \<Rightarrow> int) \<Rightarrow> 'c wide \<Rightarrow> 'c wide \<Rightarrow> nat \<Rightarrow> int" where
  "wcsncasecmp low l r n = (if n = 0 then 0 else wcs_case_loop low l r 0 (n - 1))"

definition wcscasecmp :: "('c::zero \<Rightarrow> int) \<Rightarrow> 'c wide \<Rightarrow> 'c wide \<Rightarrow> int" where
  "wcscasecmp low l r = wcsncasecmp low l r (2 ^ 32 - 1)"

partial_function (option) casestr_loop :: "(addr \<Rightarrow> int) \<Rightarrow> memory \<Rightarrow> addr \<Rightarrow> addr option" where
  "casestr_loop cmp m h = (if m h \<noteq> 0 then (if cmp h = 0 then Some h else casestr_loop cmp m (h + 1)) else Some 0)"

definition strcasestr :: "(memory \<Rightarrow> addr \<Rightarrow> addr \<Rightarrow> nat \<Rightarrow> int) \<Rightarrow> memory \<Rightarrow> addr \<Rightarrow> addr \<Rightarrow> addr option" where
  "strcasestr strncasecmp m h n =
     (case strlen m n of None \<Rightarrow> None | Some l \<Rightarrow> casestr_loop (\<lambda>h. strncasecmp m h n l) m h)"

section \<open>Copying and appending\<close>

definition wcs :: "'c::zero wide \<Rightarrow> nat \<Rightarrow> bool" where
  "wcs s k \<longleftrightarrow> s k = 0 \<and> (\<forall>i < k. s i \<noteq> 0)"

lemma wcs_skip_end: "wcs s k \<Longrightarrow> i \<le> k \<Longrightarrow> wcs_skip s i = Some (Suc k)"
proof (induction "k - i" arbitrary: i)
  case 0
  then show ?case by (simp add: wcs_def wcs_skip.simps [of s i])
next
  case (Suc j)
  then have "i < k" "wcs_skip s (Suc i) = Some (Suc k)" by auto
  then show ?case using Suc.prems(1) by (simp add: wcs_def wcs_skip.simps [of s i])
qed

lemma wcslen_end: "wcs s k \<Longrightarrow> wcslen s = Some k"
  using wcs_skip_end [of s k 0] by (simp add: wcslen_def)

text \<open>The array with the elements from \<open>i\<close> up to \<open>j\<close> taken from \<open>src\<close> at an offset.\<close>

definition overwrite :: "'c wide \<Rightarrow> nat \<Rightarrow> nat \<Rightarrow> (nat \<Rightarrow> 'c) \<Rightarrow> 'c wide" where
  "overwrite dst i j f = (\<lambda>x. if i \<le> x \<and> x < j then f x else dst x)"

lemma overwrite_step: "i < j \<Longrightarrow> overwrite (dst(i := f i)) (Suc i) j f = overwrite dst i j f"
  by (auto simp: overwrite_def fun_eq_iff)

lemma overwrite_empty [simp]: "j \<le> i \<Longrightarrow> overwrite dst i j f = dst"
  by (auto simp: overwrite_def fun_eq_iff)

lemma wcs_copy_result:
  assumes "wcs src k" "i \<le> k" "0 < n"
  shows "wcs_copy dst src i n =
    (if k < i + n then (overwrite dst i (Suc k) src, Suc k, i + n - k) else (overwrite dst i (i + n) src, i + n, 0))"
  using assms(2,3)
proof (induction n arbitrary: i dst)
  case (Suc n)
  show ?case
  proof (cases "src i = 0 \<or> n = 0")
    case True
    have "src i = 0 \<longleftrightarrow> i = k" using assms(1) Suc.prems(1) by (auto simp: wcs_def le_less)
    then show ?thesis using True Suc.prems overwrite_step [of i "Suc i" dst src]
      by (auto simp: wcs_copy.simps [of dst src i] Let_def)
  next
    case False
    then have "i < k" using assms(1) Suc.prems(1) by (auto simp: wcs_def le_less)
    have n: "Suc i \<le> k" "0 < n" using False \<open>i < k\<close> by simp_all
    have "wcs_copy dst src i (Suc n) = wcs_copy (dst(i := src i)) src (Suc i) n"
      using False by (simp add: wcs_copy.simps [of dst src i] Let_def)
    then show ?thesis unfolding Suc.IH [OF n] using \<open>i < k\<close> by (simp add: overwrite_step)
  qed
qed simp

lemma wcslcpy_result:
  assumes "wcs src k"
  shows "wcslcpy dst src siz =
    Some (k, if siz = 0 then dst else (overwrite dst 0 (min k (siz - 1)) src)(min k (siz - 1) := 0))"
proof (cases "siz \<le> 1")
  case True
  then show ?thesis using wcs_skip_end [OF assms, of 0] by (auto simp: wcslcpy_def le_Suc_eq)
next
  case False
  then show ?thesis
    using wcs_copy_result [OF assms, of 0 "siz - 1" dst] wcs_skip_end [OF assms, of "siz - 1"] assms
    by (auto simp: wcslcpy_def Let_def min_def overwrite_def wcs_def fun_eq_iff)
qed

lemma wcs_find_end_result: "wcs dst l \<Longrightarrow> d \<le> l \<Longrightarrow> wcs_find_end dst d n = (if l < d + n then l else d + n)"
proof (induction n arbitrary: d)
  case 0
  then show ?case by (simp add: wcs_find_end.simps [of dst d])
next
  case (Suc n)
  then show ?case
    using wcs_find_end.simps [of dst d "Suc n"] by (cases "d = l") (auto simp: wcs_def)
qed

lemma wcs_append_result:
  assumes "wcs src k" "s \<le> k" "0 < n" "d = l + s \<or> n = 1"
  shows "\<exists>e. wcs_append dst src d s n = Some (overwrite dst d e (\<lambda>x. src (x - l)), e, k) \<and> e = d + min (k - s) (n - 1)"
  using assms(2-4)
proof (induction "k - s" arbitrary: s d n dst)
  case 0
  then show ?case using assms(1) by (simp add: wcs_append.simps [of dst src d s n] wcs_def)
next
  case (Suc j)
  then have s: "src s \<noteq> 0" "Suc s \<le> k" "j = k - Suc s" using assms(1) by (auto simp: wcs_def)
  show ?case
  proof (cases "n = 1")
    case True
    then show ?thesis using Suc.hyps(1) [OF s(3,2), of 1 d dst] s(1) by (simp add: wcs_append.simps [of dst src d s])
  next
    case False
    then have d: "d = l + s" using Suc.prems by simp
    have "wcs_append dst src d s n = wcs_append (dst(d := src s)) src (Suc d) (Suc s) (n - 1)"
      using s(1) False by (simp add: wcs_append.simps [of dst src d s])
    moreover have "0 < n - 1" using False Suc.prems by simp
    moreover have "Suc d + min (k - Suc s) (n - 1 - 1) = d + min (k - s) (n - 1)" using s(2) \<open>0 < n - 1\<close> by linarith
    moreover have "overwrite (dst(d := src s)) (Suc d) e (\<lambda>x. src (x - l)) = overwrite dst d e (\<lambda>x. src (x - l))" if "d < e" for e
      using overwrite_step [OF that, of dst "\<lambda>x. src (x - l)"] by (simp add: d)
    ultimately show ?thesis using Suc.hyps(1) [OF s(3,2), of "n - 1" "Suc d" "dst(d := src s)"] d s(2) by simp
  qed
qed

lemma wcslcat_result:
  assumes "wcs dst l" "wcs src k"
  shows "wcslcat dst src siz =
    (if l < siz then
       (let e = l + min k (siz - l - 1) in Some (l + k, (overwrite dst l e (\<lambda>x. src (x - l)))(e := 0)))
     else Some (siz + k, dst))"
  using wcs_find_end_result [OF assms(1), of 0 siz] wcslen_end [OF assms(2)]
    wcs_append_result [OF assms(2), of 0 "siz - l" l l dst]
  by (auto simp: wcslcat_def Let_def)

section \<open>Comparing and searching\<close>

text \<open>The comparison is zero exactly when the letters agree, up to the limit or the end of either string.\<close>

lemma wcs_case_loop_zero:
  "wcs_case_loop low l r i n = 0 \<longleftrightarrow>
     (\<forall>x. i \<le> x \<and> x \<le> i + n \<and> (\<forall>y. i \<le> y \<and> y < x \<longrightarrow> l y \<noteq> 0 \<and> r y \<noteq> 0) \<longrightarrow> low (l x) = low (r x))"
proof (induction n arbitrary: i)
  case 0
  then show ?case by (auto simp: wcs_case_loop.simps [of low l r i] dest: le_antisym)
next
  case (Suc n)
  let ?Q = "\<lambda>i x. \<forall>y. i \<le> y \<and> y < x \<longrightarrow> l y \<noteq> 0 \<and> r y \<noteq> 0" and ?E = "\<lambda>x. low (l x) = low (r x)"
  show ?case
  proof (cases "l i \<noteq> 0 \<and> r i \<noteq> 0 \<and> low (l i) = low (r i)")
    case True
    then have "wcs_case_loop low l r i (Suc n) = wcs_case_loop low l r (Suc i) n"
      by (simp add: wcs_case_loop.simps [of low l r i])
    moreover have "(\<forall>x. i \<le> x \<and> x \<le> i + Suc n \<and> ?Q i x \<longrightarrow> ?E x) \<longleftrightarrow> (\<forall>x. Suc i \<le> x \<and> x \<le> Suc i + n \<and> ?Q (Suc i) x \<longrightarrow> ?E x)"
    proof (intro iffI allI impI)
      fix x
      assume a: "\<forall>x. i \<le> x \<and> x \<le> i + Suc n \<and> ?Q i x \<longrightarrow> ?E x" and x: "Suc i \<le> x \<and> x \<le> Suc i + n \<and> ?Q (Suc i) x"
      have "?Q i x" using x True by (metis Suc_leI le_neq_implies_less)
      then show "?E x" using a x by auto
    next
      fix x
      assume a: "\<forall>x. Suc i \<le> x \<and> x \<le> Suc i + n \<and> ?Q (Suc i) x \<longrightarrow> ?E x" and x: "i \<le> x \<and> x \<le> i + Suc n \<and> ?Q i x"
      show "?E x" using a x True by (cases "x = i") auto
    qed
    ultimately show ?thesis using Suc.IH [of "Suc i"] by (simp only:)
  next
    case False
    then have w: "wcs_case_loop low l r i (Suc n) = low (l i) - low (r i)"
      by (auto simp: wcs_case_loop.simps [of low l r i "Suc n"])
    show ?thesis
    proof (cases "low (l i) = low (r i)")
      case True
      then have "x = i" if "i \<le> x" "\<forall>y. i \<le> y \<and> y < x \<longrightarrow> l y \<noteq> 0 \<and> r y \<noteq> 0" for x
        using False that by (metis le_neq_implies_less order_refl)
      then show ?thesis using w True by auto
    next
      case False
      then show ?thesis using w by (metis diff_eq_diff_eq diff_self le_add1 not_less order_refl)
    qed
  qed
qed

lemma wcsncasecmp_zero:
  "wcsncasecmp low l r n = 0 \<longleftrightarrow> (\<forall>x < n. (\<forall>y < x. l y \<noteq> 0 \<and> r y \<noteq> 0) \<longrightarrow> low (l x) = low (r x))"
  by (auto simp: wcsncasecmp_def wcs_case_loop_zero)

lemma casestr_loop_found:
  "cstr m h k \<Longrightarrow> i < k \<Longrightarrow> cmp (h + of_nat i) = 0 \<Longrightarrow> \<forall>j < i. cmp (h + of_nat j) \<noteq> 0 \<Longrightarrow>
   casestr_loop cmp m h = Some (h + of_nat i)"
proof (induction i arbitrary: h k)
  case 0
  then show ?case by (cases k) (simp_all add: casestr_loop.simps [of cmp m h])
next
  case (Suc i)
  then obtain k' where k: "k = Suc k'" by (cases k) auto
  have "casestr_loop cmp m (h + 1) = Some (h + 1 + of_nat i)"
    using Suc.prems unfolding k off_Suc All_less_Suc2 by (intro Suc.IH [of _ k']) simp_all
  then show ?case using Suc.prems unfolding k All_less_Suc2 by (simp add: casestr_loop.simps [of cmp m h] add.assoc)
qed

lemma casestr_loop_none:
  "cstr m h k \<Longrightarrow> \<forall>j < k. cmp (h + of_nat j) \<noteq> 0 \<Longrightarrow> casestr_loop cmp m h = Some 0"
proof (induction k arbitrary: h)
  case (Suc k)
  then have "casestr_loop cmp m (h + 1) = Some 0" unfolding off_Suc All_less_Suc2 by (intro Suc.IH) simp_all
  then show ?case using Suc.prems unfolding All_less_Suc2 by (simp add: casestr_loop.simps [of cmp m h])
qed (simp add: casestr_loop.simps [of cmp m])

end
