(* ===== verification/C_Type.thy ===== *)
theory C_Type
  imports Posix_Prelude
begin

text \<open>
  Classes of characters: the table of \<^verbatim>\<open>src/ctype/_ctype.c\<close> that programs built against newlib read, indexed by the
  character plus one, and the macros of \<^verbatim>\<open>include/ctype.h\<close>, which compute on the unsigned value. Shown: the two agree on all 256
  characters.
\<close>

definition ctype_table :: "int list" where
  "ctype_table =
     [0x00, 0x20, 0x20, 0x20, 0x20, 0x20, 0x20, 0x20, 0x20, 0x20, 0x28, 0x28, 0x28, 0x28, 0x28, 0x20, 0x20, 0x20, 0x20, 0x20,
      0x20, 0x20, 0x20, 0x20, 0x20, 0x20, 0x20, 0x20, 0x20, 0x20, 0x20, 0x20, 0x20, 0x88, 0x10, 0x10, 0x10, 0x10, 0x10, 0x10,
      0x10, 0x10, 0x10, 0x10, 0x10, 0x10, 0x10, 0x10, 0x10, 0x04, 0x04, 0x04, 0x04, 0x04, 0x04, 0x04, 0x04, 0x04, 0x04, 0x10,
      0x10, 0x10, 0x10, 0x10, 0x10, 0x10, 0x41, 0x41, 0x41, 0x41, 0x41, 0x41, 0x01, 0x01, 0x01, 0x01, 0x01, 0x01, 0x01, 0x01,
      0x01, 0x01, 0x01, 0x01, 0x01, 0x01, 0x01, 0x01, 0x01, 0x01, 0x01, 0x01, 0x10, 0x10, 0x10, 0x10, 0x10, 0x10, 0x42, 0x42,
      0x42, 0x42, 0x42, 0x42, 0x02, 0x02, 0x02, 0x02, 0x02, 0x02, 0x02, 0x02, 0x02, 0x02, 0x02, 0x02, 0x02, 0x02, 0x02, 0x02,
      0x02, 0x02, 0x02, 0x02, 0x10, 0x10, 0x10, 0x10, 0x20, 0x00, 0x00, 0x00, 0x00, 0x00, 0x00, 0x00, 0x00, 0x00, 0x00, 0x00,
      0x00, 0x00, 0x00, 0x00, 0x00, 0x00, 0x00, 0x00, 0x00, 0x00, 0x00, 0x00, 0x00, 0x00, 0x00, 0x00, 0x00, 0x00, 0x00, 0x00,
      0x00, 0x00, 0x00, 0x00, 0x00, 0x00, 0x00, 0x00, 0x00, 0x00, 0x00, 0x00, 0x00, 0x00, 0x00, 0x00, 0x00, 0x00, 0x00, 0x00,
      0x00, 0x00, 0x00, 0x00, 0x00, 0x00, 0x00, 0x00, 0x00, 0x00, 0x00, 0x00, 0x00, 0x00, 0x00, 0x00, 0x00, 0x00, 0x00, 0x00,
      0x00, 0x00, 0x00, 0x00, 0x00, 0x00, 0x00, 0x00, 0x00, 0x00, 0x00, 0x00, 0x00, 0x00, 0x00, 0x00, 0x00, 0x00, 0x00, 0x00,
      0x00, 0x00, 0x00, 0x00, 0x00, 0x00, 0x00, 0x00, 0x00, 0x00, 0x00, 0x00, 0x00, 0x00, 0x00, 0x00, 0x00, 0x00, 0x00, 0x00,
      0x00, 0x00, 0x00, 0x00, 0x00, 0x00, 0x00, 0x00, 0x00, 0x00, 0x00, 0x00, 0x00, 0x00, 0x00, 0x00, 0x00]"

text \<open>Conversion to \<open>unsigned\<close>.\<close>

definition uns :: "int \<Rightarrow> int" where "uns a = a mod 2 ^ 32"

definition isalpha_macro :: "int \<Rightarrow> bool" where "isalpha_macro a \<longleftrightarrow> uns ((uns a OR 32) - 97) < 26"
definition isdigit_macro :: "int \<Rightarrow> bool" where "isdigit_macro a \<longleftrightarrow> uns (uns a - 48) < 10"
definition islower_macro :: "int \<Rightarrow> bool" where "islower_macro a \<longleftrightarrow> uns (uns a - 97) < 26"
definition isupper_macro :: "int \<Rightarrow> bool" where "isupper_macro a \<longleftrightarrow> uns (uns a - 65) < 26"
definition isprint_macro :: "int \<Rightarrow> bool" where "isprint_macro a \<longleftrightarrow> uns (uns a - 0x20) < 0x5f"
definition isgraph_macro :: "int \<Rightarrow> bool" where "isgraph_macro a \<longleftrightarrow> uns (uns a - 0x21) < 0x5e"
definition isspace_macro :: "int \<Rightarrow> bool" where "isspace_macro a \<longleftrightarrow> a = 32 \<or> uns (uns a - 9) < 5"
definition isascii_macro :: "int \<Rightarrow> bool" where "isascii_macro a \<longleftrightarrow> uns a < 128"
definition tolower_macro :: "int \<Rightarrow> int" where "tolower_macro a = a OR 0x20"
definition toupper_macro :: "int \<Rightarrow> int" where "toupper_macro a = a AND 0x5f"

text \<open>The bits newlib gives to the classes: upper, lower, digit, space, punctuation, control, hexadecimal letter, blank.\<close>

definition class_agrees :: "int \<Rightarrow> int \<Rightarrow> bool" where
  "class_agrees a b \<longleftrightarrow>
     ((b AND 0x03 \<noteq> 0) = isalpha_macro a) \<and> ((b AND 0x04 \<noteq> 0) = isdigit_macro a) \<and> ((b AND 0x02 \<noteq> 0) = islower_macro a) \<and>
     ((b AND 0x01 \<noteq> 0) = isupper_macro a) \<and> ((b AND 0x97 \<noteq> 0) = isprint_macro a) \<and> ((b AND 0x17 \<noteq> 0) = isgraph_macro a) \<and>
     ((b AND 0x08 \<noteq> 0) = isspace_macro a) \<and> (isupper_macro a \<longrightarrow> islower_macro (tolower_macro a)) \<and>
     (islower_macro a \<longrightarrow> isupper_macro (toupper_macro a))"

fun classes_agree :: "int \<Rightarrow> int list \<Rightarrow> bool" where
  "classes_agree a [] \<longleftrightarrow> True"
| "classes_agree a (b # bs) \<longleftrightarrow> class_agrees a b \<and> classes_agree (a + 1) bs"

lemma classes_agree_nth: "classes_agree a bs \<Longrightarrow> i < length bs \<Longrightarrow> class_agrees (a + int i) (bs ! i)"
proof (induction bs arbitrary: a i)
  case (Cons b bs)
  show ?case
  proof (cases i)
    case (Suc j)
    then show ?thesis using Cons.IH [of "a + 1" j] Cons.prems by (simp add: add.assoc)
  qed (use Cons.prems in simp)
qed simp

lemma ctype_table_size: "length ctype_table = 257"
  by (simp add: ctype_table_def)

lemma ctype_table_agrees: "c < 256 \<Longrightarrow> class_agrees (int c) (ctype_table ! Suc c)"
proof -
  have "classes_agree 0 (tl ctype_table)" by code_simp
  then show "c < 256 \<Longrightarrow> ?thesis"
    using classes_agree_nth [of 0 "tl ctype_table" c] by (simp add: ctype_table_size nth_tl)
qed

text \<open>The end-of-file value -1 reads the first entry and is in no class.\<close>

lemma ctype_eof: "ctype_table ! 0 = 0"
  by (simp add: ctype_table_def)

end
