(* ===== verification/Posix_Misc.thy ===== *)
theory Posix_Misc
  imports C_String Vita_Descriptor
begin

text \<open>
  The functions of \<^verbatim>\<open>src/misc\<close> and \<^verbatim>\<open>src/prng\<close>: \<open>itoa\<close>, \<open>basename\<close> and \<open>dirname\<close>, the generator behind \<open>random\<close>,
  \<open>getentropy\<close>, \<open>arc4random\<close>, resource limits and usage, and \<open>nice\<close>. Resources are named, not numbered: the numbers are the SDK's.
\<close>

section \<open>itoa\<close>

text \<open>
  The digits go to the array \<open>tmp\<close> of 16 bytes, lowest first. \<open>None\<close> is behaviour that C leaves undefined: a store past
  the end of \<open>tmp\<close>, a division by a radix of zero, or the negation of the smallest \<open>int\<close>.
\<close>

definition itoa_digit :: "int \<Rightarrow> byte" where
  "itoa_digit i = (if i < 10 then word_of_int (i + 48) else word_of_int (i + 97 - 10))"

function itoa_loop :: "32 word \<Rightarrow> 32 word \<Rightarrow> byte list \<Rightarrow> byte list option" where
  "itoa_loop radix v tmp =
     (if v \<noteq> 0 \<or> tmp = [] then
        (if length tmp \<ge> 16 then None
         else itoa_loop radix (v div radix) (tmp @ [itoa_digit (sint (v mod radix))]))
      else Some tmp)"
  by pat_completeness auto
termination
  by (relation "measure (\<lambda>(radix, v, tmp). 16 - length tmp)") auto

declare itoa_loop.simps [simp del]

definition itoa :: "int \<Rightarrow> addr \<Rightarrow> int \<Rightarrow> memory \<Rightarrow> (int \<times> memory) option" where
  "itoa num sp radix m =
     (let sign = (radix = 10 \<and> num < 0);
          v = (if sign then word_of_int (- num) else word_of_int num) :: 32 word
      in if sign \<and> num = - (2 ^ 31) then None
         else if (word_of_int radix :: 32 word) = 0 then None
         else
           (case itoa_loop (word_of_int radix) v [] of
              None \<Rightarrow> None
            | Some tmp \<Rightarrow>
                (let len = int (length tmp) + (if sign then 1 else 0);
                     out = (if sign then [45] else []) @ rev tmp
                 in Some (len, mem_store sp out m))))"

section \<open>basename and dirname\<close>

text \<open>A path is the string up to its zero; writing a zero at index \<open>p\<close> cuts it there. The results are the string that
  is returned and the string left in the argument.\<close>

fun base_trim :: "nat \<Rightarrow> string \<Rightarrow> string + (nat \<times> string)" where
  "base_trim p path =
     (if path ! p = CHR ''/'' then (if p = 0 then Inl path else base_trim (p - 1) (take p path)) else Inr (p, path))"

fun base_scan :: "nat \<Rightarrow> string \<Rightarrow> nat" where
  "base_scan p path = (if path ! p \<noteq> CHR ''/'' then (if p = 0 then 0 else base_scan (p - 1) path) else p + 1)"

declare base_trim.simps [simp del] base_scan.simps [simp del]

definition basename :: "string option \<Rightarrow> string \<times> string option" where
  "basename path =
     (case path of
        None \<Rightarrow> (''.'', None)
      | Some path \<Rightarrow>
          if path = [] then (''.'', Some path)
          else
            (case base_trim (length path - 1) path of
               Inl path \<Rightarrow> (path, Some path)
             | Inr (p, path) \<Rightarrow> (drop (base_scan p path) path, Some path)))"

text \<open>The three loops of \<open>dirname\<close>: down while the condition holds; \<open>None\<close> is the return at index 0.\<close>

fun down :: "(char \<Rightarrow> bool) \<Rightarrow> nat \<Rightarrow> string \<Rightarrow> nat option" where
  "down P i s = (if P (s ! i) then (if i = 0 then None else down P (i - 1) s) else Some i)"

declare down.simps [simp del]

definition dirname :: "string option \<Rightarrow> string \<times> string option" where
  "dirname s =
     (case s of
        None \<Rightarrow> (''.'', None)
      | Some s \<Rightarrow>
          if s = [] then (''.'', Some s)
          else
            (case down (\<lambda>c. c = CHR ''/'') (length s - 1) s of
               None \<Rightarrow> (''/'', Some s)
             | Some i \<Rightarrow>
                 (case down (\<lambda>c. c \<noteq> CHR ''/'') i s of
                    None \<Rightarrow> (''.'', Some s)
                  | Some i \<Rightarrow>
                      (case down (\<lambda>c. c = CHR ''/'') i s of
                         None \<Rightarrow> (''/'', Some s)
                       | Some i \<Rightarrow> (take (i + 1) s, Some (take (i + 1) s))))))"

section \<open>Random numbers\<close>

record prng =
  rn_n :: nat
  rn_i :: nat
  rn_j :: nat
  rn_x :: "32 word list"

definition prng_init :: prng where
  "prng_init = \<lparr>rn_n = 31, rn_i = 3, rn_j = 0, rn_x =
     [0x5851f42d, 0xc0b18ccf, 0xcbb5f646, 0xc7033129, 0x30705b04, 0x20fd5db4, 0x9a8b7f78,
      0x502959d8, 0xab894868, 0x6c0356a7, 0x88cdb7ff, 0xb477d43f, 0x70a3a52b, 0xa8e4baf1, 0xfd8341fc,
      0x8ae16fd9, 0x742d2f7a, 0x0d1f0796, 0x76035e09, 0x40f7702c, 0x6fa72ca5, 0xaaa84157, 0x58a0df74,
      0xc74a0364, 0xae533cc4, 0x04185faf, 0x6de3b115, 0x0cab8628, 0xf043bfa4, 0x398150e9, 0x37521657]\<rparr>"

definition lcg31 :: "32 word \<Rightarrow> 32 word" where
  "lcg31 x = (1103515245 * x + 12345) AND 0x7fffffff"

definition random :: "prng \<Rightarrow> int \<times> prng" where
  "random g =
     (if rn_n g = 0 then
        (let x0 = lcg31 (rn_x g ! 0) in (sint x0, g\<lparr>rn_x := (rn_x g)[0 := x0]\<rparr>))
      else
        (let v = rn_x g ! rn_i g + rn_x g ! rn_j g;
             i = (if Suc (rn_i g) = rn_n g then 0 else Suc (rn_i g));
             j = (if Suc (rn_j g) = rn_n g then 0 else Suc (rn_j g))
         in (sint (drop_bit 1 v), g\<lparr>rn_x := (rn_x g)[rn_i g := v], rn_i := i, rn_j := j\<rparr>)))"

definition arc4random :: "'w services \<Rightarrow> addr \<Rightarrow> ('w, 'z) libc_scheme \<Rightarrow> 32 word \<times> ('w, 'z) libc_scheme" where
  "arc4random os v s =
     (let s = s\<lparr>mem := mem_store v [0, 0, 0, 0] (mem s)\<rparr>;
          (r, s) = sys os (Kernel (sceKernelGetRandomNumber v 4)) s
      in (load_word (mem s) v, s))"

fun entropy_loop :: "'w services \<Rightarrow> addr \<Rightarrow> nat \<Rightarrow> ('w, 'z) libc_scheme \<Rightarrow> (addr \<times> nat) option \<times> ('w, 'z) libc_scheme" where
  "entropy_loop os ptr target s =
     (if target > 64 then
        (let (r, s) = sys os (Kernel (sceKernelGetRandomNumber ptr 64)) s in
         if rp_ret r < 0 then (None, set_errno EIO s) else entropy_loop os (ptr + 64) (target - 64) s)
      else (Some (ptr, target), s))"

declare entropy_loop.simps [simp del]

definition getentropy :: "'w services \<Rightarrow> addr \<Rightarrow> size_t \<Rightarrow> ('w, 'z) libc_scheme \<Rightarrow> int \<times> ('w, 'z) libc_scheme" where
  "getentropy os ptr n s =
     (if unat n > 256 then (- 1, set_errno EIO s)
      else
        (case entropy_loop os ptr (unat n) s of
           (None, s) \<Rightarrow> (- 1, s)
         | (Some (ptr, target), s) \<Rightarrow>
             (let (r, s) = sys os (Kernel (sceKernelGetRandomNumber ptr (of_nat target))) s in
              if rp_ret r < 0 then (- 1, set_errno EIO s) else (0, s))))"

section \<open>Limits, usage and priority\<close>

datatype rlimit_resource =
    RLIMIT_CORE | RLIMIT_CPU | RLIMIT_DATA | RLIMIT_FSIZE | RLIMIT_NOFILE | RLIMIT_STACK | RLIMIT_AS
  | RLIMIT_other int

datatype rlim = RLIM_INFINITY | Rlim int

definition get_heap_size :: "'w services \<Rightarrow> ('w, 'z) libc_scheme \<Rightarrow> int \<times> ('w, 'z) libc_scheme" where
  "get_heap_size os s = (let (r, s) = sys os (Heap malloc_stats_fast) s in (outp r 0 0, s))"

text \<open>The two fields of \<open>rlim\<close> are always equal; \<open>None\<close> leaves them alone.\<close>

definition getrlimit ::
  "'w services \<Rightarrow> rlimit_resource \<Rightarrow> bool \<Rightarrow> ('w, 'z) libc_scheme \<Rightarrow> (int \<times> rlim option) \<times> ('w, 'z) libc_scheme" where
  "getrlimit os resource rlim s =
     (if \<not> rlim then ((- 1, None), set_errno EINVAL s)
      else
        (case resource of
           RLIMIT_CORE \<Rightarrow> ((0, Some (Rlim 0)), s)
         | RLIMIT_CPU \<Rightarrow> ((0, Some RLIM_INFINITY), s)
         | RLIMIT_DATA \<Rightarrow> (let (h, s) = get_heap_size os s in ((0, Some (Rlim h)), s))
         | RLIMIT_FSIZE \<Rightarrow> ((0, Some RLIM_INFINITY), s)
         | RLIMIT_NOFILE \<Rightarrow> ((0, Some (Rlim (int MAX_OPEN_FILES))), s)
         | RLIMIT_STACK \<Rightarrow>
             (let (r, s) = sys os (Kernel sceKernelGetThreadInfo) s in ((0, Some (Rlim (outp r 0 0))), s))
         | RLIMIT_AS \<Rightarrow> ((0, Some RLIM_INFINITY), s)
         | RLIMIT_other _ \<Rightarrow> ((- 1, None), set_errno EINVAL s)))"

definition setrlimit :: "('w, 'z) libc_scheme \<Rightarrow> int \<times> ('w, 'z) libc_scheme" where
  "setrlimit s = (- 1, set_errno ENOSYS s)"

text \<open>The condition assigns \<open>RUSAGE_SELF\<close>; the user time stored is seconds and microseconds as the code computes them.\<close>

definition getrusage ::
  "'w services \<Rightarrow> int \<Rightarrow> bool \<Rightarrow> ('w, 'z) libc_scheme \<Rightarrow> (int \<times> (int \<times> int) option) \<times> ('w, 'z) libc_scheme" where
  "getrusage os RUSAGE_SELF usage s =
     (if \<not> usage then ((- 1, None), set_errno EINVAL s)
      else if RUSAGE_SELF \<noteq> 0 then
        (let (r, s) = sys os (Kernel sceKernelGetThreadInfo) s; run = outp r 1 0
         in ((- 1, Some (run div 1000000, run - run div 1000000)), set_errno EINVAL s))
      else ((- 1, None), set_errno EINVAL s))"

definition getpriority :: "('w, 'z) libc_scheme \<Rightarrow> int \<times> ('w, 'z) libc_scheme" where
  "getpriority s = (- 1, set_errno ENOSYS s)"

definition setpriority :: "int \<Rightarrow> ('w, 'z) libc_scheme \<Rightarrow> int \<times> ('w, 'z) libc_scheme" where
  "setpriority prio s = (- 1, set_errno ENOSYS s)"

definition nice :: "int \<Rightarrow> ('w, 'z) libc_scheme \<Rightarrow> int \<times> ('w, 'z) libc_scheme" where
  "nice inc s =
     (let (prio, s) = (if inc > - 40 \<and> inc < 40 then (let (p, s) = getpriority s in (inc + p, s)) else (inc, s));
          prio = (if prio > 19 then 19 else prio);
          prio = (if prio < - 20 then - 20 else prio);
          (r, s) = setpriority prio s
      in if r \<noteq> 0 then (- 1, if errno s = EACCES then set_errno EPERM s else s) else (prio, s))"

section \<open>The digits of a number\<close>

function digs :: "nat \<Rightarrow> nat \<Rightarrow> nat list" where
  "digs r v = (if r < 2 \<or> v < r then [v] else v mod r # digs r (v div r))"
  by pat_completeness auto
termination
  by (relation "measure snd") auto

declare digs.simps [simp del]

lemma digs_value: "foldr (\<lambda>d a. d + r * a) (digs r v) 0 = v"
proof (induction r v rule: digs.induct)
  case (1 r v)
  then show ?case by (cases "r < 2 \<or> v < r") (simp_all add: digs.simps [of r v])
qed

lemma digs_less: "2 \<le> r \<Longrightarrow> d \<in> set (digs r v) \<Longrightarrow> d < r"
proof (induction r v rule: digs.induct)
  case (1 r v)
  then show ?case by (cases "v < r") (auto simp: digs.simps [of r v])
qed

lemma digs_length: "2 \<le> r \<Longrightarrow> length (digs r v) \<le> Suc k \<longleftrightarrow> v < r ^ Suc k"
proof (induction k arbitrary: v)
  case 0
  then show ?case by (simp add: digs.simps [of r v] digs.simps [of r "v div r"])
next
  case (Suc k)
  show ?case
  proof (cases "v < r")
    case True
    then have "v < r ^ Suc (Suc k)" using Suc.prems by (metis less_le_trans one_le_numeral order_trans power_increasing power_one_right
        Suc_le_mono le_add1 plus_1_eq_Suc)
    then show ?thesis using True by (simp add: digs.simps [of r v])
  next
    case False
    then have "length (digs r v) \<le> Suc (Suc k) \<longleftrightarrow> v div r < r ^ Suc k"
      using Suc by (simp add: digs.simps [of r v])
    also have "\<dots> \<longleftrightarrow> v < r ^ Suc (Suc k)" using Suc.prems by (simp add: div_less_iff_less_mult mult.commute mult.left_commute)
    finally show ?thesis .
  qed
qed

lemma sint_small: "uint w < 2 ^ 31 \<Longrightarrow> sint w = uint w" for w :: "32 word"
proof -
  assume "uint w < 2 ^ 31"
  moreover have "- (2 ^ 31) \<le> uint w" by (rule order_trans [OF _ unsigned_greater_eq]) simp
  ultimately show ?thesis using signed_take_bit_int_eq_self [of 31 "uint w"] by (simp add: sint_uint)
qed

lemma itoa_loop_digs:
  assumes "2 \<le> unat radix" "unat radix \<le> 2 ^ 31" "v \<noteq> 0 \<or> tmp = []" "length tmp \<le> 16"
  shows "itoa_loop radix v tmp =
    (if length tmp + length (digs (unat radix) (unat v)) \<le> 16
     then Some (tmp @ map (\<lambda>d. itoa_digit (int d)) (digs (unat radix) (unat v))) else None)"
  using assms(3,4)
proof (induction "16 - length tmp" arbitrary: tmp v)
  case 0
  then have "length tmp = 16" by simp
  moreover have "digs (unat radix) (unat v) \<noteq> []" by (simp add: digs.simps [of "unat radix"])
  ultimately show ?case using 0 by (auto simp: itoa_loop.simps [of radix v])
next
  case (Suc n)
  let ?d = "itoa_digit (sint (v mod radix))" and ?r = "unat radix"
  have m: "unat (v mod radix) = unat v mod ?r" "unat (v div radix) = unat v div ?r"
    by (simp_all add: unat_mod_distrib unat_div_distrib)
  have "unat v mod ?r < 2 ^ 31" using assms(1,2) by (metis less_le_trans mod_less_divisor not_less_iff_gr_or_eq not_numeral_le_zero gr0I)
  moreover have "uint (v mod radix) = int (unat v mod ?r)" using m(1) uint_nat [of "v mod radix"] by (simp only:)
  ultimately have "sint (v mod radix) = int (unat v mod ?r)"
    using sint_small [of "v mod radix"] by simp
  then have d: "?d = itoa_digit (int (unat v mod ?r))" by simp
  have step: "itoa_loop radix v tmp = itoa_loop radix (v div radix) (tmp @ [?d])"
  proof -
    have "length tmp < 16" using Suc.hyps(2) by simp
    then show ?thesis using Suc.prems(1) by (simp only: itoa_loop.simps [of radix v]) auto
  qed
  show ?case
  proof (cases "unat v < ?r")
    case True
    then have "v div radix = 0" using m(2) by (simp add: unat_eq_zero flip: unat_eq_0)
    then have "itoa_loop radix v tmp = Some (tmp @ [?d])" unfolding step by (simp add: itoa_loop.simps [of radix 0])
    then show ?thesis using True d Suc by (simp add: digs.simps [of ?r "unat v"])
  next
    case False
    then have "v div radix \<noteq> 0" using m(2) assms(1) by (metis div_greater_zero_iff gr0I not_less not_numeral_le_zero unat_0 less_numeral_extra(3))
    then have "itoa_loop radix (v div radix) (tmp @ [?d]) =
        (if length tmp + 1 + length (digs ?r (unat v div ?r)) \<le> 16
         then Some (tmp @ [?d] @ map (\<lambda>d. itoa_digit (int d)) (digs ?r (unat v div ?r))) else None)"
      using Suc.hyps(1) [of "tmp @ [?d]" "v div radix"] Suc.hyps(2) m(2) by simp
    then show ?thesis unfolding step using False assms(1) d by (simp add: digs.simps [of ?r "unat v"])
  qed
qed

text \<open>The magnitude that is printed: of a negative number its negation in base ten, otherwise its 32 bits.\<close>

definition itoa_mag :: "int \<Rightarrow> int \<Rightarrow> nat" where
  "itoa_mag num radix = nat ((if radix = 10 \<and> num < 0 then - num else num) mod 2 ^ 32)"

lemma itoa_mag_unat:
  "unat (if radix = 10 \<and> num < 0 then word_of_int (- num) else word_of_int num :: 32 word) = itoa_mag num radix"
proof -
  have u: "unat (word_of_int x :: 32 word) = nat (x mod 2 ^ 32)" for x by (simp add: unsigned_of_int take_bit_eq_mod)
  show ?thesis
  proof (cases "radix = 10 \<and> num < 0")
    case True
    show ?thesis unfolding itoa_mag_def if_P [OF True] by (rule u)
  next
    case False
    show ?thesis unfolding itoa_mag_def if_not_P [OF False] by (rule u)
  qed
qed

lemma itoa_result:
  assumes "2 \<le> radix" "radix \<le> 36"
  shows "itoa num sp radix m =
    (if \<not> (radix = 10 \<and> num = - (2 ^ 31)) \<and> itoa_mag num radix < nat radix ^ 16 then
       (let out = (if radix = 10 \<and> num < 0 then [45] else []) @ rev (map (\<lambda>d. itoa_digit (int d)) (digs (nat radix) (itoa_mag num radix)))
        in Some (int (length out), mem_store sp out m))
     else None)"
proof -
  let ?v = "if radix = 10 \<and> num < 0 then word_of_int (- num) else word_of_int num :: 32 word"
  have r: "unat (word_of_int radix :: 32 word) = nat radix" using assms by (simp add: unat_word_of_int32)
  then have ne: "(word_of_int radix :: 32 word) \<noteq> 0" using assms by auto
  have "itoa_loop (word_of_int radix) ?v [] =
      (if length (digs (nat radix) (itoa_mag num radix)) \<le> 16
       then Some (map (\<lambda>d. itoa_digit (int d)) (digs (nat radix) (itoa_mag num radix))) else None)"
    using itoa_loop_digs [of "word_of_int radix" ?v "[]"] assms unfolding itoa_mag_unat r by simp
  moreover have "length (digs (nat radix) (itoa_mag num radix)) \<le> 16 \<longleftrightarrow> itoa_mag num radix < nat radix ^ 16"
    using digs_length [of "nat radix" "itoa_mag num radix" 15] assms by simp
  ultimately show ?thesis using ne by (simp add: itoa_def Let_def)
qed

text \<open>From radix 4 on the array is long enough for every number; with radix 2 it overflows from 65536 on.\<close>

lemma itoa_mag_lt: "itoa_mag num radix < 2 ^ 32"
  by (simp add: itoa_mag_def nat_less_iff)

lemma itoa_fits: "4 \<le> radix \<Longrightarrow> itoa_mag num radix < nat radix ^ 16"
proof -
  assume "4 \<le> radix"
  then have "(4 :: nat) ^ 16 \<le> nat radix ^ 16" by (intro power_mono) simp_all
  then show ?thesis using itoa_mag_lt [of num radix] by simp
qed

lemma itoa_binary_overflows: "65536 \<le> num \<Longrightarrow> num < 2 ^ 31 \<Longrightarrow> itoa num sp 2 m = None"
  by (simp add: itoa_result itoa_mag_def)

section \<open>Splitting a path\<close>

definition rstrip :: "(char \<Rightarrow> bool) \<Rightarrow> string \<Rightarrow> string" where
  "rstrip P s = rev (dropWhile P (rev s))"

lemma rstrip_snoc [simp]: "rstrip P (s @ [c]) = (if P c then rstrip P s else s @ [c])"
  by (simp add: rstrip_def)

lemma rstrip_Nil [simp]: "rstrip P [] = []"
  by (simp add: rstrip_def)

lemma rstrip_one [simp]: "rstrip P [c] = (if P c then [] else [c])"
  by (simp add: rstrip_def)

lemma rstrip_take: "rstrip P s = take (length (rstrip P s)) s"
proof (induction s rule: rev_induct)
  case (snoc c s)
  have "length (rstrip P s) \<le> length s" by (metis snoc.IH length_take min.cobounded1)
  then show ?case using snoc by simp
qed simp

lemma rstrip_length: "length (rstrip P s) \<le> length s"
  by (metis rstrip_take length_take min.cobounded1)

lemma take_rstrip: "take n s = t \<Longrightarrow> take (length (rstrip P t)) s = rstrip P t"
proof -
  assume t: "take n s = t"
  have "length (rstrip P t) \<le> n" using rstrip_length [of P t] t by auto
  then have "take (length (rstrip P t)) s = take (length (rstrip P t)) (take n s)" by (simp add: min_absorb1)
  also have "\<dots> = rstrip P t" unfolding t by (rule rstrip_take [symmetric])
  finally show ?thesis .
qed

lemma down_rstrip:
  "i < length s \<Longrightarrow> down P i s = (let t = rstrip P (take (Suc i) s) in if t = [] then None else Some (length t - 1))"
proof (induction i)
  case 0
  then show ?case by (simp add: down.simps [of P 0] take_Suc_conv_app_nth Let_def)
next
  case (Suc i)
  then show ?case by (simp add: down.simps [of P "Suc i"] take_Suc_conv_app_nth [of "Suc i"] Let_def)
qed

lemma down_prefix:
  assumes "take (length t) s = t" "t \<noteq> []"
  shows "down P (length t - Suc 0) s = (if rstrip P t = [] then None else Some (length (rstrip P t) - Suc 0))"
proof -
  have "length t \<le> length s" by (metis assms(1) length_take min.cobounded1)
  then have "length t - Suc 0 < length s" using assms(2) by (cases t) auto
  then show ?thesis using down_rstrip [of "length t - Suc 0" s P] assms by (simp add: Let_def)
qed

lemma base_trim_rstrip:
  "path \<noteq> [] \<Longrightarrow> base_trim (length path - 1) path =
     (let t = rstrip (\<lambda>c. c = CHR ''/'') path in if t = [] then Inl (take 1 path) else Inr (length t - 1, t))"
proof (induction path rule: rev_induct)
  case (snoc c path)
  show ?case
  proof (cases "path = []")
    case True
    then show ?thesis by (simp add: base_trim.simps [of 0] Let_def)
  next
    case False
    then show ?thesis using snoc.IH
      by (simp add: base_trim.simps [of "length path"] nth_append Let_def Suc_le_eq)
  qed
qed simp

lemma base_scan_rstrip:
  "i < length s \<Longrightarrow> base_scan i s = length (rstrip (\<lambda>c. c \<noteq> CHR ''/'') (take (Suc i) s))"
proof (induction i)
  case 0
  then show ?case by (simp add: base_scan.simps [of 0] take_Suc_conv_app_nth)
next
  case (Suc i)
  then show ?case by (simp add: base_scan.simps [of "Suc i"] take_Suc_conv_app_nth [of "Suc i"])
qed

text \<open>
  The reference: the path without trailing slashes is a directory part that ends in a slash, if any, followed by a name.
\<close>

definition slash :: "char \<Rightarrow> bool" where "slash c \<longleftrightarrow> c = CHR ''/''"

definition path_stem :: "string \<Rightarrow> string" where "path_stem s = rstrip slash s"

definition path_dir :: "string \<Rightarrow> string" where "path_dir s = rstrip (\<lambda>c. \<not> slash c) (path_stem s)"

definition path_name :: "string \<Rightarrow> string" where "path_name s = drop (length (path_dir s)) (path_stem s)"

lemma path_stem_split: "path_stem s = path_dir s @ path_name s"
  using rstrip_take [of "\<lambda>c. \<not> slash c" "path_stem s"] by (simp add: path_dir_def path_name_def) (metis append_take_drop_id)

lemma basename_eq:
  assumes "s \<noteq> []"
  shows "basename (Some s) = (if path_stem s = [] then (''/'', Some ''/'') else (path_name s, Some (path_stem s)))"
proof -
  have sl: "slash = (\<lambda>c. c = CHR ''/'')" "(\<lambda>c. \<not> slash c) = (\<lambda>c. c \<noteq> CHR ''/'')" by (auto simp: slash_def fun_eq_iff)
  show ?thesis
  proof (cases "path_stem s = []")
    case True
    then have "\<forall>c \<in> set s. slash c" by (simp add: path_stem_def rstrip_def dropWhile_eq_Nil_conv)
    then have "take 1 s = ''/''" using assms by (cases s) (simp_all add: slash_def)
    then show ?thesis using assms True base_trim_rstrip [OF assms] by (simp add: basename_def path_stem_def sl Let_def)
  next
    case False
    then have "base_scan (length (path_stem s) - 1) (path_stem s) = length (path_dir s)"
      using base_scan_rstrip [of "length (path_stem s) - 1" "path_stem s"] by (simp add: path_dir_def sl)
    then show ?thesis
      using assms False base_trim_rstrip [OF assms] by (simp add: basename_def path_stem_def path_name_def sl Let_def)
  qed
qed

lemma dirname_eq:
  assumes "s \<noteq> []"
  shows "dirname (Some s) =
    (if path_stem s = [] then (''/'', Some s)
     else if path_dir s = [] then (''.'', Some s)
     else if path_stem (path_dir s) = [] then (''/'', Some s)
     else (path_stem (path_dir s), Some (path_stem (path_dir s))))"
proof -
  have sl: "slash = (\<lambda>c. c = CHR ''/'')" "(\<lambda>c. \<not> slash c) = (\<lambda>c. c \<noteq> CHR ''/'')" by (auto simp: slash_def fun_eq_iff)
  have pre: "take (length (path_stem s)) s = path_stem s"
    unfolding path_stem_def by (rule take_rstrip [of "length s"]) simp
  have pd: "take (length (path_dir s)) s = path_dir s" unfolding path_dir_def by (rule take_rstrip [OF pre])
  have d1: "down (\<lambda>c. c = CHR ''/'') (length s - Suc 0) s = (if path_stem s = [] then None else Some (length (path_stem s) - Suc 0))"
    using down_prefix [of s s] assms by (simp add: path_stem_def sl)
  have d2: "down (\<lambda>c. c \<noteq> CHR ''/'') (length (path_stem s) - Suc 0) s = (if path_dir s = [] then None else Some (length (path_dir s) - Suc 0))"
    if "path_stem s \<noteq> []"
    using down_prefix [OF pre that] by (simp add: path_dir_def sl)
  have d3: "down (\<lambda>c. c = CHR ''/'') (length (path_dir s) - Suc 0) s =
      (if path_stem (path_dir s) = [] then None else Some (length (path_stem (path_dir s)) - Suc 0))" if "path_dir s \<noteq> []"
    using down_prefix [OF pd that] by (simp add: path_stem_def sl)
  have t: "take (length (path_stem (path_dir s))) s = path_stem (path_dir s)"
    unfolding path_stem_def [of "path_dir s"] by (rule take_rstrip [OF pd])
  then have t': "take (Suc (length (path_stem (path_dir s)) - Suc 0)) s = path_stem (path_dir s)" if "path_stem (path_dir s) \<noteq> []"
    using that by (simp add: Suc_pred)
  show ?thesis
  proof (cases "path_stem s = []")
    case True
    then show ?thesis using assms by (simp add: dirname_def d1)
  next
    case False
    note e1 = d1 [unfolded if_not_P [OF False]] and e2 = d2 [OF False]
    show ?thesis
    proof (cases "path_dir s = []")
      case True
      then show ?thesis using assms False e2 by (simp add: dirname_def e1)
    next
      case dir: False
      then show ?thesis using assms False e2 d3 [OF dir] t' by (cases "path_stem (path_dir s) = []") (simp_all add: dirname_def e1)
    qed
  qed
qed

text \<open>A path is its directory part followed by its name: the two functions split it.\<close>

lemma path_name_no_slash: "CHR ''/'' \<notin> set (path_name s)"
proof -
  have "rev (path_stem s) = takeWhile (\<lambda>c. \<not> slash c) (rev (path_stem s)) @ rev (path_dir s)"
    by (simp add: path_dir_def rstrip_def)
  then have "path_stem s = path_dir s @ rev (takeWhile (\<lambda>c. \<not> slash c) (rev (path_stem s)))"
    by (metis rev_append rev_rev_ident)
  then have "path_name s = rev (takeWhile (\<lambda>c. \<not> slash c) (rev (path_stem s)))"
    using path_stem_split [of s] by (metis same_append_eq)
  then show ?thesis by (auto simp: slash_def dest: set_takeWhileD)
qed

section \<open>The generator and the entropy source\<close>

definition prng_ok :: "prng \<Rightarrow> bool" where
  "prng_ok g \<longleftrightarrow> rn_n g = 31 \<and> length (rn_x g) = 31 \<and> rn_j g < 31 \<and> rn_i g = (rn_j g + 3) mod 31"

lemma next_index:
  "j < 31 \<Longrightarrow>
   (if Suc ((j + 3) mod 31) = 31 then 0 else Suc ((j + 3) mod 31)) = ((if Suc j = 31 then 0 else Suc j) + 3) mod 31"
proof -
  have "list_all (\<lambda>j. (if Suc ((j + 3) mod 31) = 31 then 0 else Suc ((j + 3) mod 31)) =
      ((if Suc j = 31 then 0 else Suc j) + 3) mod 31) [0..<31]" by code_simp
  then show "j < 31 \<Longrightarrow> ?thesis" by (auto simp: list_all_iff)
qed

lemma random_keeps: "prng_ok g \<Longrightarrow> random g = (k, g') \<Longrightarrow> prng_ok g' \<and> 0 \<le> k \<and> k < 2 ^ 31"
proof -
  assume g: "prng_ok g" "random g = (k, g')"
  let ?v = "rn_x g ! rn_i g + rn_x g ! rn_j g"
  have k: "k = sint (drop_bit 1 ?v)" using g by (auto simp: random_def prng_ok_def Let_def)
  have "uint (drop_bit 1 ?v) = uint ?v div 2"
  proof -
    have "uint (drop_bit 1 ?v) = int (unat ?v div 2 ^ 1)" by (simp only: flip: drop_bit_eq_div unat_drop_bit_eq) simp
    then show ?thesis by (simp add: zdiv_int)
  qed
  moreover have "uint ?v < 2 ^ 32" using unsigned_less [of ?v, where 'a = int] by simp
  ultimately have u: "uint (drop_bit 1 ?v) < 2 ^ 31" by simp
  then have "k = uint (drop_bit 1 ?v)" unfolding k by (rule sint_small)
  moreover have "prng_ok g'"
    using g next_index [of "rn_j g"] by (auto simp: random_def prng_ok_def Let_def split: if_splits)
  ultimately show ?thesis using u by simp
qed

lemma prng_init_ok: "prng_ok prng_init"
  by (simp add: prng_ok_def prng_init_def)

text \<open>The buffers \<open>getentropy\<close> asks the platform to fill, in order: blocks of 64 bytes and a rest of at most 64.\<close>

fun entropy_blocks :: "addr \<Rightarrow> nat \<Rightarrow> (addr \<times> nat) list" where
  "entropy_blocks p n = (if n > 64 then (p, 64) # entropy_blocks (p + 64) (n - 64) else [(p, n)])"

declare entropy_blocks.simps [simp del]

fun fill_blocks :: "'w services \<Rightarrow> (addr \<times> nat) list \<Rightarrow> ('w, 'z) libc_scheme \<Rightarrow> ('w, 'z) libc_scheme" where
  "fill_blocks os [] s = s"
| "fill_blocks os ((p, n) # bs) s = fill_blocks os bs (snd (sys os (Kernel (sceKernelGetRandomNumber p (of_nat n))) s))"

lemma entropy_loop_fills:
  assumes "\<And>p n w. \<not> rp_ret (fst (os (Kernel (sceKernelGetRandomNumber p n)) w)) < 0"
  shows "\<exists>p k s1. entropy_loop os ptr n s = (Some (p, k), s1) \<and>
    fill_blocks os (entropy_blocks ptr n) s = snd (sys os (Kernel (sceKernelGetRandomNumber p (of_nat k))) s1)"
proof (induction n arbitrary: ptr s rule: less_induct)
  case (less n)
  show ?case
  proof (cases "n > 64")
    case True
    let ?s = "snd (sys os (Kernel (sceKernelGetRandomNumber ptr 64)) s)"
    have "entropy_loop os ptr n s = entropy_loop os (ptr + 64) (n - 64) ?s"
      using True assms [of ptr 64 "world s"] by (simp add: entropy_loop.simps [of os ptr n] case_prod_beta sys_ret_def)
    moreover have "fill_blocks os (entropy_blocks ptr n) s = fill_blocks os (entropy_blocks (ptr + 64) (n - 64)) ?s"
      using True by (simp add: entropy_blocks.simps [of ptr n])
    ultimately show ?thesis using less.IH [of "n - 64" "ptr + 64" ?s] True by simp
  qed (simp add: entropy_loop.simps [of os ptr n] entropy_blocks.simps [of ptr n])
qed

lemma getentropy_fills:
  assumes "\<And>p n w. \<not> rp_ret (fst (os (Kernel (sceKernelGetRandomNumber p n)) w)) < 0"
  shows "getentropy os ptr n s =
    (if unat n > 256 then (- 1, set_errno EIO s) else (0, fill_blocks os (entropy_blocks ptr (unat n)) s))"
proof (cases "unat n > 256")
  case False
  obtain p k s1 where "entropy_loop os ptr (unat n) s = (Some (p, k), s1)"
      "fill_blocks os (entropy_blocks ptr (unat n)) s = snd (sys os (Kernel (sceKernelGetRandomNumber p (of_nat k))) s1)"
    using entropy_loop_fills [of os, OF assms] by blast
  then show ?thesis using False assms [of p "of_nat k" "world s1"] by (simp add: getentropy_def case_prod_beta sys_ret_def)
qed (simp add: getentropy_def)

text \<open>\<open>getrusage\<close> and \<open>nice\<close> fail whatever they are asked.\<close>

lemma getrusage_fails: "fst (fst (getrusage os self u s)) = - 1 \<and> errno (snd (getrusage os self u s)) = EINVAL"
  by (simp add: getrusage_def Let_def case_prod_beta)

lemma nice_fails: "fst (nice inc s) = - 1 \<and> errno (snd (nice inc s)) = ENOSYS"
  by (simp add: nice_def getpriority_def setpriority_def Let_def)

section \<open>Properties\<close>

text \<open>C38 (functional): of a path that consists of a directory not ending in a slash, one or more slashes, a name without slash and any number
  of trailing slashes, \<open>dirname\<close> returns the directory and \<open>basename\<close> the name.\<close>
theorem dirname_basename_split:
  assumes "d \<noteq> []" "last d \<noteq> CHR ''/''" "n \<noteq> []" "CHR ''/'' \<notin> set n"
    and "path = d @ replicate (Suc k) (CHR ''/'') @ n @ replicate l (CHR ''/'')"
  shows "fst (dirname (Some path)) = d \<and> fst (basename (Some path)) = n"
proof -
  have strip: "path_stem (t @ replicate i (CHR ''/'')) = t" if "t \<noteq> []" "last t \<noteq> CHR ''/''" for t i
  proof (induction i)
    case 0
    then show ?case using that by (cases t rule: rev_cases) (simp_all add: path_stem_def slash_def)
  next
    case (Suc i)
    then show ?case by (simp add: path_stem_def slash_def flip: replicate_append_same append_assoc)
  qed
  let ?d = "d @ replicate (Suc k) (CHR ''/'')"
  have "last n \<noteq> CHR ''/''" using assms(3,4) by (metis last_in_set)
  then have st: "path_stem path = ?d @ n" using strip [of "?d @ n" l] assms(3,5) by simp
  have "rstrip (\<lambda>c. \<not> slash c) (?d @ n) = ?d"
    using assms(4)
  proof (induction n rule: rev_induct)
    case Nil
    have "?d = (d @ replicate k (CHR ''/'')) @ [CHR ''/'']" by (simp add: replicate_append_same)
    then show ?case by (simp only: append_Nil2 rstrip_snoc) (simp add: slash_def)
  next
    case (snoc c n)
    then have "\<not> slash c" "rstrip (\<lambda>c. \<not> slash c) (?d @ n) = ?d" by (auto simp: slash_def)
    then show ?case using rstrip_snoc [of "\<lambda>c. \<not> slash c" "?d @ n" c] by (simp only: append_assoc if_True not_False_eq_True)
  qed
  then have dir: "path_dir path = ?d" by (simp add: path_dir_def st)
  have "path_name path = n" using st dir by (simp add: path_name_def)
  moreover have "path_stem ?d = d" using strip [OF assms(1,2), of "Suc k"] .
  moreover have "path \<noteq> []" using assms(1,5) by simp
  ultimately show ?thesis using st dir assms(1) by (simp add: dirname_eq basename_eq)
qed

theorem dirname_basename_split_witness:
  "fst (dirname (Some ''ux0:data//save/'')) = ''ux0:data'' \<and> fst (basename (Some ''ux0:data//save/'')) = ''save''"
  using dirname_basename_split [of "''ux0:data''" "''save''" "''ux0:data//save/''" 1 1] by simp

text \<open>The characters of the digits.\<close>

definition numerals :: string where
  "numerals = ''0123456789abcdefghijklmnopqrstuvwxyz''"

lemma itoa_digit_numerals: "d < 36 \<Longrightarrow> itoa_digit (int d) = of_char (numerals ! d)"
proof -
  have "list_all (\<lambda>d. itoa_digit (int d) = of_char (numerals ! d)) [0..<36]" by code_simp
  then show "d < 36 \<Longrightarrow> ?thesis" by (simp add: list_all_iff)
qed

lemma itoa_mag_int:
  assumes "- (2 ^ 31) \<le> num" "num < 2 ^ 31"
  shows "itoa_mag num radix = (if radix = 10 then nat \<bar>num\<bar> else nat (num mod 2 ^ 32))"
  using assms by (auto simp: itoa_mag_def)

text \<open>C39 (bounds): for a number of type \<open>int\<close> and a radix from 2 to 36 \<open>itoa\<close> is defined, staying inside its array of 16 digits, exactly
  when the number is below the sixteenth power of the radix, as every number is from radix 4 on, and is not the
  smallest \<open>int\<close> in base ten. It then writes the text of the number, which is its absolute value in base ten and its 32 bits as an
  unsigned number otherwise: a minus sign where it is negative in base ten and its digits, highest first, from 0 to 9 and then
  from a to z; no terminating zero. It returns how many characters these are.\<close>
theorem itoa_digits:
  assumes "2 \<le> radix" "radix \<le> 36" "- (2 ^ 31) \<le> num" "num < 2 ^ 31" "r = nat radix"
    and "v = (if radix = 10 then nat \<bar>num\<bar> else nat (num mod 2 ^ 32))"
    and "out = (if radix = 10 \<and> num < 0 then ''-'' else []) @ rev (map ((!) ''0123456789abcdefghijklmnopqrstuvwxyz'') (digs r v))"
  shows "itoa num sp radix m =
      (if v < r ^ 16 \<and> (radix = 10 \<longrightarrow> num \<noteq> - (2 ^ 31)) then Some (int (length out), mem_store sp (map of_char out) m) else None) \<and>
    (4 \<le> radix \<longrightarrow> v < r ^ 16) \<and> foldr (\<lambda>d a. d + r * a) (digs r v) 0 = v \<and> (\<forall>d \<in> set (digs r v). d < r)"
proof -
  have v: "itoa_mag num radix = v" using itoa_mag_int [OF assms(3,4), of radix] assms(6) by simp
  have less: "\<forall>d \<in> set (digs r v). d < r" using digs_less [of r _ v] assms(1,5) by auto
  have "itoa_digit (int d) = of_char (numerals ! d)" if "d \<in> set (digs r v)" for d
  proof -
    have "d < 36" using less that assms(2,5) by force
    then show ?thesis by (rule itoa_digit_numerals)
  qed
  then have "map (\<lambda>d. itoa_digit (int d)) (digs r v) = map (of_char \<circ> (!) numerals) (digs r v)" by simp
  then have out: "(if radix = 10 \<and> num < 0 then [45] else []) @ rev (map (\<lambda>d. itoa_digit (int d)) (digs r v)) = map of_char out"
    unfolding assms(7) numerals_def by (simp add: rev_map comp_def)
  have res: "itoa num sp radix m =
      (if \<not> (radix = 10 \<and> num = - (2 ^ 31)) \<and> v < r ^ 16 then Some (int (length out), mem_store sp (map of_char out) m) else None)"
    unfolding itoa_result [OF assms(1,2)] v assms(5) [symmetric] Let_def out length_map ..
  have "v < r ^ 16 \<and> (radix = 10 \<longrightarrow> num \<noteq> - (2 ^ 31)) \<longleftrightarrow> \<not> (radix = 10 \<and> num = - (2 ^ 31)) \<and> v < r ^ 16" by blast
  moreover have "4 \<le> radix \<longrightarrow> v < r ^ 16" using itoa_fits [of radix num] unfolding v assms(5) by blast
  ultimately show ?thesis using res digs_value [of r v] less by (simp only: simp_thms)
qed

theorem itoa_digits_witness:
  "itoa (- 42) 64 10 (\<lambda>_. 0) = Some (3, mem_store 64 [45, 52, 50] (\<lambda>_. 0)) \<and>
   itoa 255 64 16 (\<lambda>_. 0) = Some (2, mem_store 64 [102, 102] (\<lambda>_. 0))"
  using itoa_digits [OF _ _ _ _ refl refl refl, of 10 "- 42" 64 "\<lambda>_. 0"] itoa_digits [OF _ _ _ _ refl refl refl, of 16 255 64 "\<lambda>_. 0"]
  by (simp add: digs.simps [of 10 42] digs.simps [of 10 4] digs.simps [of 16 255] digs.simps [of 16 15])

end
