(* ===== verification/Posix_Monetary.thy ===== *)
theory Posix_Monetary
  imports Posix_Prelude
begin

text \<open>
  \<open>strfmon\<close>, \<^verbatim>\<open>src/locale/strfmon.c\<close>, and the single locale of \<^verbatim>\<open>locale.c\<close>. The format is a string; the amounts are the list of
  variable arguments, of any type, and \<open>pr w p x\<close> is the text that \<open>snprintf\<close> makes of \<^verbatim>\<open>%*.*f\<close>. \<open>None\<close> is undefined behaviour:
  a format read past its end, or an argument that is not there.
\<close>

record mon_flags =
  mf_fill :: char
  mf_nogrp :: bool
  mf_negpar :: bool
  mf_nosym :: bool
  mf_left :: bool

definition mon_default :: mon_flags where
  "mon_default = \<lparr>mf_fill = CHR '' '', mf_nogrp = False, mf_negpar = False, mf_nosym = False, mf_left = False\<rparr>"

fun mon_parse_flags :: "string \<Rightarrow> mon_flags \<Rightarrow> (string \<times> mon_flags) option" where
  "mon_parse_flags [] f = Some ([], f)"
| "mon_parse_flags (c # fmt) f =
     (if c = CHR ''='' then (case fmt of [] \<Rightarrow> None | x # fmt \<Rightarrow> mon_parse_flags fmt (f\<lparr>mf_fill := x\<rparr>))
      else if c = CHR ''^'' then mon_parse_flags fmt (f\<lparr>mf_nogrp := True\<rparr>)
      else if c = CHR ''('' then mon_parse_flags fmt (f\<lparr>mf_negpar := True\<rparr>)
      else if c = CHR ''+'' then mon_parse_flags fmt f
      else if c = CHR ''!'' then mon_parse_flags fmt (f\<lparr>mf_nosym := True\<rparr>)
      else if c = CHR ''-'' then mon_parse_flags fmt (f\<lparr>mf_left := True\<rparr>)
      else Some (c # fmt, f))"

definition mon_digit :: "char \<Rightarrow> bool" where
  "mon_digit c \<longleftrightarrow> c \<in> set ''0123456789''"

fun mon_number :: "string \<Rightarrow> int \<Rightarrow> string \<times> int" where
  "mon_number [] n = ([], n)"
| "mon_number (c # fmt) n =
     (if mon_digit c then mon_number fmt (10 * n + (int (of_char c) - 48)) else (c # fmt, n))"

text \<open>Width and the digits left and right of the point; \<open>rp\<close> is 2 unless given.\<close>

definition mon_sizes :: "string \<Rightarrow> string \<times> int \<times> int \<times> int" where
  "mon_sizes fmt =
     (let (fmt, fw) = mon_number fmt 0;
          (fmt, lp) = (if take 1 fmt = ''#'' then mon_number (tl fmt) 0 else (fmt, 0));
          (fmt, rp) = (if take 1 fmt = ''.'' then mon_number (tl fmt) 0 else (fmt, 2))
      in (fmt, fw, lp, rp))"

lemma mon_parse_flags_shorter: "mon_parse_flags fmt f = Some (fmt', f') \<Longrightarrow> length fmt' \<le> length fmt"
  by (induction fmt f arbitrary: fmt' f' rule: mon_parse_flags.induct) (force split: if_splits list.splits)+

lemma mon_number_shorter: "length (fst (mon_number fmt n)) \<le> length fmt"
  by (induction fmt n rule: mon_number.induct) auto

lemma mon_option_shorter: "length (fst (if P then mon_number (tl fmt) n else (fmt, k))) \<le> length fmt"
  using mon_number_shorter [of "tl fmt" n] by (simp del: length_tl) (metis length_tl diff_le_self order_trans)

lemma mon_sizes_shorter: "length (fst (mon_sizes fmt)) \<le> length fmt"
  unfolding mon_sizes_def Let_def case_prod_beta fst_conv
  by (intro order_trans [OF mon_option_shorter] mon_number_shorter)

text \<open>The outer loop with the room \<open>n\<close>: the text written, or the error that it is too big.\<close>

datatype mon_result = Mon string | E2big

function vstrfmon ::
  "(int \<Rightarrow> int \<Rightarrow> 'd \<Rightarrow> string) \<Rightarrow> nat \<Rightarrow> string \<Rightarrow> 'd list \<Rightarrow> string \<Rightarrow> mon_result option" where
  "vstrfmon pr n fmt ap out =
     (if n = 0 \<or> fmt = [] then Some (Mon out)
      else if hd fmt \<noteq> CHR ''%'' then vstrfmon pr (n - 1) (tl fmt) ap (out @ [hd fmt])
      else if take 1 (tl fmt) = ''%'' then vstrfmon pr (n - 1) (tl (tl fmt)) ap (out @ ''%'')
      else
        (case mon_parse_flags (tl fmt) mon_default of
           None \<Rightarrow> None
         | Some (fmt1, f) \<Rightarrow>
             (let (fmt2, fw, lp, rp) = mon_sizes fmt1;
                  w = lp + 1 + rp; w = (if \<not> mf_left f \<and> fw > w then fw else w)
              in case ap of
                   [] \<Rightarrow> None
                 | x # ap \<Rightarrow>
                     (let t = pr w rp x in
                      if length t \<ge> n then Some E2big
                      else if fmt2 = [] then None
                      else vstrfmon pr (n - length t) (tl fmt2) ap (out @ t)))))"
  by pat_completeness auto
termination
proof (relation "measure (\<lambda>(pr, n, fmt, ap, out). length fmt)", goal_cases)
  case (4 pr n fmt ap out p fmt1 f q fmt2 r fw s lp rp w w' x ap' t)
  have "length fmt1 < length fmt" using mon_parse_flags_shorter [of "tl fmt"] 4 by (cases fmt) (auto simp: less_Suc_eq_le)
  moreover have "length fmt2 \<le> length fmt1" using mon_sizes_shorter [of fmt1] 4 by (metis fst_conv)
  ultimately show ?case by simp
qed auto

declare vstrfmon.simps [simp del]

definition strfmon :: "(int \<Rightarrow> int \<Rightarrow> 'd \<Rightarrow> string) \<Rightarrow> nat \<Rightarrow> string \<Rightarrow> 'd list \<Rightarrow> mon_result option" where
  "strfmon pr n fmt ap = vstrfmon pr n fmt ap []"

definition strfmon_l :: "(int \<Rightarrow> int \<Rightarrow> 'd \<Rightarrow> string) \<Rightarrow> nat \<Rightarrow> string \<Rightarrow> 'd list \<Rightarrow> mon_result option" where
  "strfmon_l pr n fmt ap = vstrfmon pr n fmt ap []"

definition locale_mb_cur_max :: int where "locale_mb_cur_max = 4"

definition setlocale :: "string option \<Rightarrow> string option" where
  "setlocale l =
     (case l of
        None \<Rightarrow> Some ''C''
      | Some t \<Rightarrow> if t \<noteq> ''POSIX'' \<and> t \<noteq> ''C'' \<and> t \<noteq> [] then None else Some ''C'')"

text \<open>The text never exceeds the room.\<close>

lemma vstrfmon_fits: "vstrfmon pr n fmt ap out = Some (Mon t) \<Longrightarrow> length t \<le> length out + n"
proof (induction "length fmt" arbitrary: n fmt ap out rule: less_induct)
  case less
  show ?case
  proof (cases "n = 0 \<or> fmt = []")
    case True
    then show ?thesis using less.prems by (simp add: vstrfmon.simps [of pr n])
  next
    case False
    show ?thesis
    proof (cases "hd fmt \<noteq> CHR ''%''")
      case True
      then have v: "vstrfmon pr (n - 1) (tl fmt) ap (out @ [hd fmt]) = Some (Mon t)"
        using less.prems False by (simp add: vstrfmon.simps [of pr n])
      have "length (tl fmt) < length fmt" using False by (cases fmt) auto
      from less.hyps [OF this v] show ?thesis using False by auto
    next
      case pc: False
      show ?thesis
      proof (cases "take 1 (tl fmt) = ''%''")
        case True
        then have v: "vstrfmon pr (n - 1) (tl (tl fmt)) ap (out @ ''%'') = Some (Mon t)"
          using less.prems False pc by (simp add: vstrfmon.simps [of pr n])
        have "length (tl (tl fmt)) < length fmt" using False by (cases fmt) auto
        from less.hyps [OF this v] show ?thesis using False by auto
      next
        case conv: False
        obtain fmt1 f where f: "mon_parse_flags (tl fmt) mon_default = Some (fmt1, f)"
          using less.prems False pc conv by (auto simp: vstrfmon.simps [of pr n] split: option.splits)
        obtain fmt2 fw lp rp where z: "mon_sizes fmt1 = (fmt2, fw, lp, rp)" by (metis prod_cases4)
        let ?w = "if \<not> mf_left f \<and> fw > lp + 1 + rp then fw else lp + 1 + rp"
        obtain x ap' where ap: "ap = x # ap'"
          using less.prems False pc conv f z by (cases ap) (auto simp: vstrfmon.simps [of pr n])
        have len: "length (tl fmt2) < length fmt"
          using mon_parse_flags_shorter [OF f] mon_sizes_shorter [of fmt1] z False by (cases fmt) auto
        have v: "length (pr ?w rp x) < n" "vstrfmon pr (n - length (pr ?w rp x)) (tl fmt2) ap' (out @ pr ?w rp x) = Some (Mon t)"
          using less.prems False pc conv f z ap by (auto simp: vstrfmon.simps [of pr n] Let_def split: if_splits)
        from less.hyps [OF len v(2)] show ?thesis using v(1) by simp
      qed
    qed
  qed
qed

end
