(* ===== verification/Posix_Time.thy ===== *)
theory Posix_Time
  imports Posix_Fs
begin

text \<open>
  Clocks and sleeping (\<^verbatim>\<open>src/time\<close>, \<^verbatim>\<open>src/unistd/sleep.c\<close>, \<^verbatim>\<open>usleep.c\<close>), the timers, which are not supported, and the functions that set
  file times and owners through a descriptor: \<open>utimensat\<close>, \<open>futimens\<close> and \<open>fchownat\<close>. Clocks are named, not numbered.
\<close>

section \<open>Clocks\<close>

datatype clockid = CLOCK_REALTIME | CLOCK_MONOTONIC | CLOCK_other int

text \<open>The time that is stored at \<open>tp\<close>, in seconds and nanoseconds.\<close>

definition clock_gettime ::
  "'w services \<Rightarrow> clockid \<Rightarrow> bool \<Rightarrow> ('w, 'z) libc_scheme \<Rightarrow> (int \<times> (int \<times> int) option) \<times> ('w, 'z) libc_scheme" where
  "clock_gettime os clk tp s =
     (if \<not> tp then ((- 1, None), set_errno EFAULT s)
      else
        (case clk of
           CLOCK_REALTIME \<Rightarrow>
             (let (d, s) = sys os (Rtc sceRtcGetCurrentClock) s;
                  date = map (\<lambda>i. outp d i 0) [0..<7];
                  (t, s) = sys os (Rtc (sceRtcGetTime_t date)) s
              in ((0, Some (outp t 0 0, date ! 6 * 1000)), s))
         | CLOCK_MONOTONIC \<Rightarrow>
             (let (t, s) = sys os (Kernel sceKernelGetProcessTimeWide) s
              in ((0, Some (rp_ret t div 1000000, rp_ret t mod 1000000 * 1000)), s))
         | CLOCK_other _ \<Rightarrow> ((- 1, None), set_errno EINVAL s)))"

definition clock_getres ::
  "clockid \<Rightarrow> bool \<Rightarrow> ('w, 'z) libc_scheme \<Rightarrow> (int \<times> (int \<times> int) option) \<times> ('w, 'z) libc_scheme" where
  "clock_getres clk res s =
     (if \<not> res then ((- 1, None), set_errno EFAULT s)
      else
        (case clk of
           CLOCK_REALTIME \<Rightarrow> ((0, Some (0, 1000)), s)
         | CLOCK_MONOTONIC \<Rightarrow> ((0, Some (0, 1000)), s)
         | CLOCK_other _ \<Rightarrow> ((- 1, None), set_errno EINVAL s)))"

definition clock_settime :: "bool \<Rightarrow> ('w, 'z) libc_scheme \<Rightarrow> int \<times> ('w, 'z) libc_scheme" where
  "clock_settime tp s = (if \<not> tp then (- 1, set_errno EFAULT s) else (- 1, set_errno EPERM s))"

definition gettimeofday ::
  "'w services \<Rightarrow> bool \<Rightarrow> ('w, 'z) libc_scheme \<Rightarrow> (int \<times> (int \<times> int) option) \<times> ('w, 'z) libc_scheme" where
  "gettimeofday os tv s =
     (if \<not> tv then ((0, None), s)
      else (let (r, s) = sys os (Kernel sceKernelLibcGettimeofday) s in ((0, Some (outp r 0 0, outp r 1 0)), s)))"

section \<open>Sleeping\<close>

text \<open>The delay is a number of microseconds in 32 bits.\<close>

definition nanosleep ::
  "'w services \<Rightarrow> (int \<times> int) option \<Rightarrow> ('w, 'z) libc_scheme \<Rightarrow> int \<times> ('w, 'z) libc_scheme" where
  "nanosleep os rqtp s =
     (case rqtp of
        None \<Rightarrow> (- 1, set_errno EFAULT s)
      | Some (sec, nsec) \<Rightarrow>
          if sec < 0 \<or> nsec < 0 \<or> nsec > 999999999 then (- 1, set_errno EINVAL s)
          else
            (let us = (sec * 1000000 + (nsec + 999) div 1000) mod 2 ^ 32
             in (0, snd (sys os (Kernel (sceKernelDelayThread us)) s))))"

definition usleep :: "'w services \<Rightarrow> 32 word \<Rightarrow> ('w, 'z) libc_scheme \<Rightarrow> int \<times> ('w, 'z) libc_scheme" where
  "usleep os useconds s = (let (r, s) = sys os (Kernel (sceKernelDelayThread (uint useconds))) s in (rp_ret r, s))"

definition sleep :: "'w services \<Rightarrow> 32 word \<Rightarrow> ('w, 'z) libc_scheme \<Rightarrow> 32 word \<times> ('w, 'z) libc_scheme" where
  "sleep os seconds s =
     (let (r, s) = sys os (Kernel (sceKernelDelayThread (uint (seconds * 1000 * 1000)))) s in (word_of_int (rp_ret r), s))"

section \<open>Timers\<close>

definition timer_create :: "('w, 'z) libc_scheme \<Rightarrow> int \<times> ('w, 'z) libc_scheme" where
  "timer_create s = (- 1, set_errno ENOTSUP s)"

definition timer_delete :: "('w, 'z) libc_scheme \<Rightarrow> int \<times> ('w, 'z) libc_scheme" where
  "timer_delete s = (- 1, set_errno EINVAL s)"

definition timer_getoverrun :: "('w, 'z) libc_scheme \<Rightarrow> int \<times> ('w, 'z) libc_scheme" where
  "timer_getoverrun s = (- 1, set_errno EINVAL s)"

definition timer_gettime :: "('w, 'z) libc_scheme \<Rightarrow> int \<times> ('w, 'z) libc_scheme" where
  "timer_gettime s = (- 1, set_errno EINVAL s)"

definition timer_settime :: "('w, 'z) libc_scheme \<Rightarrow> int \<times> ('w, 'z) libc_scheme" where
  "timer_settime s = (- 1, set_errno EINVAL s)"

section \<open>File times and owners\<close>

definition utime ::
  "'w services \<Rightarrow> (int \<Rightarrow> int) \<Rightarrow> sdk \<Rightarrow> char \<Rightarrow> int \<Rightarrow> string option \<Rightarrow> (int \<times> int) option \<Rightarrow>
     ('w, 'z) fs_state_scheme \<Rightarrow> (int \<times> ('w, 'z) fs_state_scheme) may" where
  "utime os net k below junk path buf =
     (case buf of
        Some (actime, modtime) \<Rightarrow> utimes os net k below junk path (Some ((actime, 0), (modtime, 0)))
      | None \<Rightarrow> utimes os net k below junk path None)"

text \<open>The markers in the nanoseconds and the bits of the two times are the SDK's.\<close>

record utime_sdk =
  UTIME_NOW :: int
  UTIME_OMIT :: int
  SCE_CST_AT :: int
  SCE_CST_MT :: int

text \<open>Division in C truncates towards zero.\<close>

definition utime_date ::
  "'w services \<Rightarrow> utime_sdk \<Rightarrow> int \<times> int \<Rightarrow> ('w, 'z) libc_scheme \<Rightarrow> (int \<times> int list) \<times> ('w, 'z) libc_scheme" where
  "utime_date os uk t s =
     (if snd t \<noteq> UTIME_NOW uk \<and> snd t \<noteq> UTIME_OMIT uk then
        (let (r, s) = sys os (Rtc (sceRtcConvertTime_tToDateTime (fst t))) s in 
         ((rp_ret r, with_microsecond r (sgn (snd t) * (\<bar>snd t\<bar> div 1000))), s))
      else (let (r, s) = sys os (Rtc sceRtcGetCurrentClockUtc) s in ((rp_ret r, map (\<lambda>i. outp r i 0) [0..<7]), s)))"

text \<open>The dates: \<open>Inl\<close> is the code of a conversion that failed.\<close>

definition utime_dates ::
  "'w services \<Rightarrow> utime_sdk \<Rightarrow> ((int \<times> int) \<times> (int \<times> int)) option \<Rightarrow> SceFiosStat \<Rightarrow> ('w, 'z) libc_scheme \<Rightarrow>
     (int + SceFiosStat) \<times> ('w, 'z) libc_scheme" where
  "utime_dates os uk ts st s =
     (case ts of
        Some (t0, t1) \<Rightarrow>
          (let ((r0, d0), s) = utime_date os uk t0 s in
           if r0 < 0 then (Inl r0, s)
           else
             (let ((r1, d1), s) = utime_date os uk t1 s in
              if r1 < 0 then (Inl r1, s)
              else
                (let (a, s) = sys os (Fios (sceFiosDateFromSceDateTime d0)) s;
                     (m, s) = sys os (Fios (sceFiosDateFromSceDateTime d1)) s
                 in (Inr (st\<lparr>fios_atime := rp_ret a, fios_mtime := rp_ret m\<rparr>), s))))
      | None \<Rightarrow>
          (let (r, s) = sys os (Rtc sceRtcGetCurrentClockUtc) s in
           if rp_ret r < 0 then (Inl (rp_ret r), s)
           else
             (let (a, s) = sys os (Fios (sceFiosDateFromSceDateTime (map (\<lambda>i. outp r i 0) [0..<7]))) s
              in (Inr (st\<lparr>fios_atime := rp_ret a, fios_mtime := rp_ret a\<rparr>), s))))"

definition utime_bits :: "utime_sdk \<Rightarrow> ((int \<times> int) \<times> (int \<times> int)) option \<Rightarrow> int" where
  "utime_bits uk ts =
     (let a = (case ts of None \<Rightarrow> True | Some (t0, _) \<Rightarrow> snd t0 \<noteq> UTIME_OMIT uk);
          m = (case ts of None \<Rightarrow> True | Some (_, t1) \<Rightarrow> snd t1 \<noteq> UTIME_OMIT uk);
          bits = (if a then 0 OR SCE_CST_AT uk else 0)
      in if m then bits OR SCE_CST_MT uk else bits)"

text \<open>Between grab and drop: the last code and the space it is translated from.\<close>

definition utimensat_work ::
  "'w services \<Rightarrow> utime_sdk \<Rightarrow> ((int \<times> int) \<times> (int \<times> int)) option \<Rightarrow> DescriptorTranslation \<Rightarrow>
     ('w, 'z) libc_scheme \<Rightarrow> (int \<times> ErrorType) \<times> ('w, 'z) libc_scheme" where
  "utimensat_work os uk ts d s =
     (let is_dir = (dtype d = VITA_DESCRIPTOR_DIRECTORY);
          ((ret, st), s) =
            (if is_dir then
               (let (q, s) = sys os (Fios (sceFiosDHGetPath (sce_uid d))) s;
                    (r, s) = sys os (Fios (sceFiosStatSync (rp_str q))) s in ((rp_ret r, stat_out r), s))
             else if dtype d = VITA_DESCRIPTOR_TTY \<or> dtype d = VITA_DESCRIPTOR_FILE then
               (let (r, s) = sys os (Fios (sceFiosFHStatSync (sce_uid d))) s in ((rp_ret r, stat_out r), s))
             else ((make_sce_errno EBADF, zero_stat), s))
      in if ret < 0 then ((ret, ERROR_FIOS), s)
         else
           (case utime_dates os uk ts st s of
              (Inl ret, s) \<Rightarrow> ((ret, ERROR_GENERIC), s)
            | (Inr st, s) \<Rightarrow>
                (let (q, s) = sys os (Fios ((if is_dir then sceFiosDHGetPath else sceFiosFHGetPath) (sce_uid d))) s;
                     (r, s) = sys os (Fios (sceFiosChangeStatSync (rp_str q) st (utime_bits uk ts))) s
                 in ((rp_ret r, ERROR_FIOS), s))))"

definition utimensat ::
  "'w services \<Rightarrow> (int \<Rightarrow> int) \<Rightarrow> utime_sdk \<Rightarrow> int \<Rightarrow> ((int \<times> int) \<times> (int \<times> int)) option \<Rightarrow>
     ('w, 'z) fd_state_scheme \<Rightarrow> int \<times> ('w, 'z) fd_state_scheme" where
  "utimensat os net uk fd ts s =
     with_fd os net fd
       (\<lambda>s. (- 1, set_errno EBADF s))
       (utimensat_work os uk ts)
       (\<lambda>(ret, et) s. if ret < 0 then (- 1, set_errno (sce_errno_to_errno net ret et) s) else (0, s)) s"

definition futimens ::
  "'w services \<Rightarrow> (int \<Rightarrow> int) \<Rightarrow> utime_sdk \<Rightarrow> int \<Rightarrow> ((int \<times> int) \<times> (int \<times> int)) option \<Rightarrow>
     ('w, 'z) fd_state_scheme \<Rightarrow> int \<times> ('w, 'z) fd_state_scheme" where
  "futimens os net uk fd ts s = utimensat os net uk fd ts s"

definition fchownat ::
  "'w services \<Rightarrow> (int \<Rightarrow> int) \<Rightarrow> int \<Rightarrow> ('w, 'z) fd_state_scheme \<Rightarrow> int \<times> ('w, 'z) fd_state_scheme" where
  "fchownat os net fd s =
     with_fd os net fd
       (\<lambda>s. (- 1, set_errno EBADF s))
       (\<lambda>d s. case dtype d of
            VITA_DESCRIPTOR_FILE \<Rightarrow>
              (let (q, s) = sys os (Fios (sceFiosFHGetPath (sce_uid d))) s;
                   (r, s) = sys os (Fios (sceFiosStatSync (rp_str q))) s in (rp_ret r, s))
          | VITA_DESCRIPTOR_DIRECTORY \<Rightarrow>
              (let (q, s) = sys os (Fios (sceFiosDHGetPath (sce_uid d))) s;
                   (r, s) = sys os (Fios (sceFiosStatSync (rp_str q))) s in (rp_ret r, s))
          | VITA_DESCRIPTOR_TTY \<Rightarrow> (make_sce_errno EBADF, s)
          | VITA_DESCRIPTOR_SOCKET \<Rightarrow> (make_sce_errno EBADF, s)
          | VITA_DESCRIPTOR_PIPE \<Rightarrow> (0, s))
       (\<lambda>ret s. if ret < 0 then (- 1, set_errno (sce_errno_to_errno net ret ERROR_FIOS) s) else (0, s)) s"

section \<open>The length of a sleep\<close>

text \<open>Up to 71 minutes a sleep is as long as asked for, rounded up to microseconds; then the 32 bits wrap.\<close>

lemma nanosleep_delay:
  assumes "0 \<le> sec" "sec \<le> 4293" "0 \<le> nsec" "nsec \<le> 999999999"
  shows "\<exists>us. nanosleep os (Some (sec, nsec)) s = (0, snd (sys os (Kernel (sceKernelDelayThread us)) s)) \<and>
    sec * 1000000000 + nsec \<le> us * 1000 \<and> us * 1000 < sec * 1000000000 + nsec + 1000"
proof -
  let ?u = "sec * 1000000 + (nsec + 999) div 1000"
  have "?u mod 2 ^ 32 = ?u" using assms by (intro mod_pos_pos_trivial) simp_all
  then have "nanosleep os (Some (sec, nsec)) s = (0, snd (sys os (Kernel (sceKernelDelayThread ?u)) s))"
    using assms by (simp add: nanosleep_def)
  moreover have "nsec \<le> (nsec + 999) div 1000 * 1000 \<and> (nsec + 999) div 1000 * 1000 < nsec + 1000"
    using div_mult_mod_eq [of "nsec + 999" 1000] pos_mod_bound [of 1000 "nsec + 999"] pos_mod_sign [of 1000 "nsec + 999"] by linarith
  ultimately show ?thesis by (intro exI [of _ ?u]) (simp add: algebra_simps)
qed

lemma sleep_wraps: "sleep os 4295 s = (let (r, s) = sys os (Kernel (sceKernelDelayThread 32704)) s in (word_of_int (rp_ret r), s))"
  by (simp add: sleep_def)

lemma nanosleep_wraps: "nanosleep os (Some (4295, 0)) s = (0, snd (sys os (Kernel (sceKernelDelayThread 32704)) s))"
  by (simp add: nanosleep_def)

section \<open>The descriptor table\<close>

lemma utime_dates_more: "libc.more (snd (utime_dates os uk ts st s)) = libc.more s"
  by (simp add: utime_dates_def utime_date_def Let_def case_prod_beta split: option.splits)

lemma utimensat_work_more: "libc.more (snd (utimensat_work os uk ts d s)) = libc.more s"
  by (simp add: utimensat_work_def Let_def case_prod_beta utime_dates_more split: sum.splits)

text \<open>Whatever happens between grab and drop, the table is left as it was.\<close>

lemma file_times_keep_table:
  assumes "fd_live s"
  shows "libc.more (snd (utimensat os net uk fd ts s)) = libc.more s"
    and "libc.more (snd (fchownat os net fd s)) = libc.more s"
  unfolding utimensat_def fchownat_def
  by (rule with_fd_more [OF assms];
      simp add: utimensat_work_more Let_def case_prod_beta split: DescriptorTypes.splits)+

text \<open>A pipe has no owner, but is not refused.\<close>

lemma fchownat_pipe:
  assumes "fd_live s" "is_fd_valid fd s" "dtype (fdmap_pool s (the (fdmap s (nat fd)))) = VITA_DESCRIPTOR_PIPE"
  shows "fst (fchownat os net fd s) = 0"
  unfolding fchownat_def
  by (subst with_fd_valid [OF assms(1,2)])
     (simp_all add: table_blind_def assms(3) Let_def case_prod_beta sys_set_entry sys_ret_def split: DescriptorTypes.splits)

end
