(* ===== verification/Posix_Conf.thy ===== *)
theory Posix_Conf
  imports Posix_Fs Posix_Misc
begin

text \<open>
  Configuration limits, \<^verbatim>\<open>src/conf\<close>. The names are constructors instead of the numbers of \<^verbatim>\<open>unistd.h\<close>. Which limits the
  headers define, and as what, is the parameter \<open>lim\<close>: a branch of \<^verbatim>\<open>#ifdef\<close> is a case on it.
\<close>

datatype pc_name =
    PC_LINK_MAX | PC_MAX_CANON | PC_MAX_INPUT | PC_NAME_MAX | PC_PATH_MAX | PC_PIPE_BUF | PC_CHOWN_RESTRICTED
  | PC_NO_TRUNC | PC_VDISABLE | PC_SYNC_IO | PC_ASYNC_IO | PC_PRIO_IO | PC_FILESIZEBITS | PC_REC_INCR_XFER_SIZE
  | PC_REC_MAX_XFER_SIZE | PC_REC_MIN_XFER_SIZE | PC_REC_XFER_ALIGN | PC_ALLOC_SIZE_MIN | PC_SYMLINK_MAX | PC_other int

record limits =
  LINK_MAX :: "int option"
  MAX_CANON :: "int option"
  MAX_INPUT :: "int option"
  NAME_MAX :: "int option"
  PATH_MAX_def :: "int option"
  PIPE_BUF :: "int option"
  POSIX_CHOWN_RESTRICTED :: "int option"
  POSIX_NO_TRUNC :: "int option"
  POSIX_VDISABLE :: "int option"
  POSIX_SYNC_IO :: "int option"
  POSIX_ASYNC_IO :: bool
  POSIX_PRIO_IO :: "int option"
  FILESIZEBITS :: "int option"

definition defined_or :: "int option \<Rightarrow> int \<Rightarrow> int" where
  "defined_or v d = (case v of Some x \<Rightarrow> x | None \<Rightarrow> d)"

text \<open>The switch that \<open>pathconf\<close> and \<open>fpathconf\<close> share; \<open>async\<close> is the case of asynchronous I/O when the headers have it.\<close>

definition conf_switch ::
  "limits \<Rightarrow> (('w, 'z) libc_scheme \<Rightarrow> (int \<times> ('w, 'z) libc_scheme) may) \<Rightarrow> pc_name \<Rightarrow> ('w, 'z) libc_scheme \<Rightarrow>
     (int \<times> ('w, 'z) libc_scheme) may" where
  "conf_switch lim async name s =
     (case name of
        PC_other _ \<Rightarrow> Some (- 1, set_errno EINVAL s)
      | PC_LINK_MAX \<Rightarrow> Some (defined_or (LINK_MAX lim) (- 1), s)
      | PC_MAX_CANON \<Rightarrow> Some (defined_or (MAX_CANON lim) (- 1), s)
      | PC_MAX_INPUT \<Rightarrow> Some (defined_or (MAX_INPUT lim) (- 1), s)
      | PC_NAME_MAX \<Rightarrow> Some (defined_or (NAME_MAX lim) (- 1), s)
      | PC_PATH_MAX \<Rightarrow> Some (defined_or (PATH_MAX_def lim) (- 1), s)
      | PC_PIPE_BUF \<Rightarrow> Some (defined_or (PIPE_BUF lim) (- 1), s)
      | PC_CHOWN_RESTRICTED \<Rightarrow> Some (defined_or (POSIX_CHOWN_RESTRICTED lim) (- 1), s)
      | PC_NO_TRUNC \<Rightarrow> Some (defined_or (POSIX_NO_TRUNC lim) (- 1), s)
      | PC_VDISABLE \<Rightarrow> Some (defined_or (POSIX_VDISABLE lim) (- 1), s)
      | PC_SYNC_IO \<Rightarrow> Some (defined_or (POSIX_SYNC_IO lim) (- 1), s)
      | PC_ASYNC_IO \<Rightarrow> if POSIX_ASYNC_IO lim then async s else Some (- 1, s)
      | PC_PRIO_IO \<Rightarrow> Some (defined_or (POSIX_PRIO_IO lim) (- 1), s)
      | PC_FILESIZEBITS \<Rightarrow> Some (defined_or (FILESIZEBITS lim) 32, s)
      | PC_REC_INCR_XFER_SIZE \<Rightarrow> Some (64, s)
      | PC_REC_MAX_XFER_SIZE \<Rightarrow> Some (- 1, s)
      | PC_REC_MIN_XFER_SIZE \<Rightarrow> Some (- 1, s)
      | PC_REC_XFER_ALIGN \<Rightarrow> Some (64, s)
      | PC_ALLOC_SIZE_MIN \<Rightarrow> Some (- 1, s)
      | PC_SYMLINK_MAX \<Rightarrow> Some (0, s))"

text \<open>Regular files and block devices: 1; anything else, and a failed \<open>stat\<close>: -1.\<close>

definition aio_allowed :: "int \<times> stat option \<Rightarrow> int" where
  "aio_allowed r =
     (if fst r < 0 then - 1
      else
        (case snd r of
           None \<Rightarrow> - 1
         | Some st \<Rightarrow> let t = st_mode st AND 0xf000 in if t \<noteq> 0x8000 \<and> t \<noteq> 0x6000 then - 1 else 1))"

definition pathconf ::
  "'w services \<Rightarrow> (int \<Rightarrow> int) \<Rightarrow> sdk \<Rightarrow> char \<Rightarrow> limits \<Rightarrow> string \<Rightarrow> pc_name \<Rightarrow> ('w, 'z) fs_state_scheme \<Rightarrow>
     (int \<times> ('w, 'z) fs_state_scheme) may" where
  "pathconf os net k below lim path name s =
     (if path = [] then Some (- 1, set_errno ENOENT s)
      else
        conf_switch lim
          (\<lambda>s. map_option (\<lambda>(r, s). (aio_allowed r, s)) (posix_stat os net k below (Some path) s)) name s)"

definition fpathconf ::
  "'w services \<Rightarrow> (int \<Rightarrow> int) \<Rightarrow> sdk \<Rightarrow> limits \<Rightarrow> int \<Rightarrow> pc_name \<Rightarrow> ('w, 'z) fs_state_scheme \<Rightarrow>
     (int \<times> ('w, 'z) fs_state_scheme) may" where
  "fpathconf os net k lim fd name s =
     (if fd < 0 then Some (- 1, set_errno EBADF s)
      else conf_switch lim (\<lambda>s. let (r, s) = fstat os net k fd s in Some (aio_allowed r, s)) name s)"

datatype sc_name =
    SC_ARG_MAX | SC_CHILD_MAX | SC_CLK_TCK | SC_NGROUPS_MAX | SC_OPEN_MAX | SC_SEM_NSEMS_MAX | SC_SEM_VALUE_MAX
  | SC_THREAD_KEYS_MAX | SC_THREAD_STACK_MIN | SC_THREAD_THREADS_MAX | SC_SEMAPHORES | SC_THREADS
  | SC_THREAD_ATTR_STACKSIZE | SC_THREAD_SAFE_FUNCTIONS | SC_VERSION | SC_other int

definition sysconf :: "int \<Rightarrow> sc_name \<Rightarrow> ('w, 'z) libc_scheme \<Rightarrow> int \<times> ('w, 'z) libc_scheme" where
  "sysconf CLK_TCK name s =
     (case name of
        SC_ARG_MAX \<Rightarrow> (65536, s)
      | SC_CHILD_MAX \<Rightarrow> (40, s)
      | SC_CLK_TCK \<Rightarrow> (CLK_TCK, s)
      | SC_NGROUPS_MAX \<Rightarrow> (16, s)
      | SC_OPEN_MAX \<Rightarrow> (64, s)
      | SC_SEM_NSEMS_MAX \<Rightarrow> (256, s)
      | SC_SEM_VALUE_MAX \<Rightarrow> (32767, s)
      | SC_THREAD_KEYS_MAX \<Rightarrow> (128, s)
      | SC_THREAD_STACK_MIN \<Rightarrow> (4096, s)
      | SC_THREAD_THREADS_MAX \<Rightarrow> (128, s)
      | SC_SEMAPHORES \<Rightarrow> (1, s)
      | SC_THREADS \<Rightarrow> (1, s)
      | SC_THREAD_ATTR_STACKSIZE \<Rightarrow> (1, s)
      | SC_THREAD_SAFE_FUNCTIONS \<Rightarrow> (1, s)
      | SC_VERSION \<Rightarrow> (200809, s)
      | SC_other _ \<Rightarrow> (- 1, set_errno EINVAL s))"

text \<open>
  The two limits on open files disagree: \<open>sysconf\<close> says 64, \<open>getrlimit\<close> the size of the descriptor table.
\<close>

lemma open_max_disagree:
  "fst (sysconf c SC_OPEN_MAX s) = 64 \<and> fst (getrlimit os RLIMIT_NOFILE True s) = (0, Some (Rlim 256))"
  by (simp add: sysconf_def getrlimit_def MAX_OPEN_FILES_def)

text \<open>Apart from asynchronous I/O a name of a path and the same name of a descriptor have the same value.\<close>

lemma pathconf_fpathconf:
  assumes "path \<noteq> []" "0 \<le> fd" "name \<noteq> PC_ASYNC_IO"
  shows "pathconf os net k below lim path name s = fpathconf os net k lim fd name s"
  using assms by (cases name) (simp_all add: pathconf_def fpathconf_def conf_switch_def)

lemma fpathconf_keeps_table:
  assumes "fd_live s" "fpathconf os net k lim fd name s = Some (r, s')"
  shows "libc.more s' = libc.more s"
  using assms(2) fstat_more [OF assms(1), of os net k fd]
  by (cases name) (auto simp: fpathconf_def conf_switch_def case_prod_beta split: if_splits)

end
