(* ===== verification/Vita_Mman.thy ===== *)
theory Vita_Mman
  imports Unistd_IO
begin

text \<open>
  The region table behind \<open>mmap\<close>, \<^verbatim>\<open>src/internal/vitamman.c\<close>. The used part of the array
  \<open>_regions\<close> is a list, a pointer into it an index. The mutex is the number of times it is held.
  Each function has the body between lock and unlock as a definition of its own where the source
  leaves it by \<open>goto out\<close>.
\<close>

definition MMAN_MAX_REGIONS :: nat where "MMAN_MAX_REGIONS = 256"
definition MMAN_VM_POOL_SIZE :: size_t where "MMAN_VM_POOL_SIZE = 16 * 1024 * 1024"
definition MMAN_PAGE_SIZE :: size_t where "MMAN_PAGE_SIZE = 0x1000"

definition MMAN_PAGE_ALIGN :: "size_t \<Rightarrow> size_t" where
  "MMAN_PAGE_ALIGN x = (x + MMAN_PAGE_SIZE - 1) AND NOT (MMAN_PAGE_SIZE - 1)"

abbreviation (input) PROT_READ :: int where "PROT_READ \<equiv> 1"
abbreviation (input) PROT_WRITE :: int where "PROT_WRITE \<equiv> 2"
abbreviation (input) PROT_EXEC :: int where "PROT_EXEC \<equiv> 4"

record mman_region =
  r_addr :: addr
  r_len :: size_t
  r_uid :: int
  r_prot :: int

record 'w mman_state = "'w fd_state" +
  regions :: "mman_region list"
  mman_mutex :: int
  mman_ready :: bool
  have_kubridge :: bool
  vm_uid :: int
  vm_base :: addr

definition set_regions ::
  "mman_region list \<Rightarrow> ('w, 'z) mman_state_scheme \<Rightarrow> ('w, 'z) mman_state_scheme" where
  "set_regions rs s = s\<lparr>regions := rs\<rparr>"

definition lock_mman :: "('w, 'z) mman_state_scheme \<Rightarrow> ('w, 'z) mman_state_scheme" where
  "lock_mman s = s\<lparr>mman_mutex := mman_mutex s + 1\<rparr>"

definition unlock_mman :: "('w, 'z) mman_state_scheme \<Rightarrow> ('w, 'z) mman_state_scheme" where
  "unlock_mman s = s\<lparr>mman_mutex := mman_mutex s - 1\<rparr>"

section \<open>Initialisation\<close>

definition module_loaded ::
  "'w services \<Rightarrow> string \<Rightarrow> ('w, 'z) mman_state_scheme \<Rightarrow> bool \<times> ('w, 'z) mman_state_scheme" where
  "module_loaded os name s =
     (let (r, s) = sys os (Kernel (vshKernelSearchModuleByName name)) s in (rp_ret r \<ge> 0, s))"

text \<open>The third word of an import stub, little endian; bit 0 of the address is the Thumb bit.\<close>

definition load32 :: "addr \<Rightarrow> memory \<Rightarrow> 32 word" where
  "load32 p m = ucast (m p) OR push_bit 8 (ucast (m (p + 1))) OR
     push_bit 16 (ucast (m (p + 2))) OR push_bit 24 (ucast (m (p + 3)))"

definition import_resolved :: "addr \<Rightarrow> 32 word \<Rightarrow> ('w, 'z) mman_state_scheme \<Rightarrow> bool" where
  "import_resolved fn nid s =
     (let target = load32 ((fn AND NOT 1) + 8) (mem s) in target \<noteq> 0 \<and> target \<noteq> nid)"

text \<open>\<open>stub\<close> gives the address of the import stub of each kubridge function.\<close>

datatype ku_import = KuMemReserve | KuMemCommit | KuMemDecommit | KuMemProtect

definition kubridge_usable ::
  "'w services \<Rightarrow> (ku_import \<Rightarrow> addr) \<Rightarrow> ('w, 'z) mman_state_scheme \<Rightarrow> bool \<times> ('w, 'z) mman_state_scheme" where
  "kubridge_usable os stub s =
     (let (loaded, s) = module_loaded os ''kubridge'' s in
      if \<not> loaded then (False, s)
      else (import_resolved (stub KuMemReserve) 0xced3608c s \<and>
            import_resolved (stub KuMemCommit) 0x9c0cd758 s \<and>
            import_resolved (stub KuMemDecommit) 0x9bdf5881 s \<and>
            import_resolved (stub KuMemProtect) 0x566d2af1 s, s))"

definition init_mman ::
  "'w services \<Rightarrow> (ku_import \<Rightarrow> addr) \<Rightarrow> ('w, 'z) mman_state_scheme \<Rightarrow> ('w, 'z) mman_state_scheme" where
  "init_mman os stub s =
     (let s = s\<lparr>mman_mutex := 1\<rparr>; (u, s) = kubridge_usable os stub s
      in unlock_mman (s\<lparr>have_kubridge := u, regions := [], mman_ready := True\<rparr>))"

fun fini_loop ::
  "'w services \<Rightarrow> mman_region list \<Rightarrow> mman_region list \<Rightarrow> ('w, 'z) mman_state_scheme \<Rightarrow>
     ('w, 'z) mman_state_scheme" where
  "fini_loop os before [] s = s"
| "fini_loop os before (r # rs) s =
     (if r_uid r < 0 then fini_loop os (before @ [r]) rs s
      else
        (let s = snd (sys os (Ku (kuKernelMemDecommit (r_addr r) (r_len r))) s);
             seen = (\<exists>q \<in> set before. r_uid q = r_uid r);
             s = (if \<not> seen then snd (sys os (Kernel (sceKernelFreeMemBlock (r_uid r))) s) else s)
         in fini_loop os (before @ [r]) rs s))"

definition fini_mman :: "'w services \<Rightarrow> ('w, 'z) mman_state_scheme \<Rightarrow> ('w, 'z) mman_state_scheme" where
  "fini_mman os s =
     (if \<not> mman_ready s then s
      else
        (let s = lock_mman s;
             s = set_regions [] (fini_loop os [] (regions s) s);
             s = (if vm_uid s \<ge> 0 then
                    (let s = snd (sys os (Kernel sceKernelCloseVMDomain) s);
                         s = snd (sys os (Kernel (sceKernelFreeMemBlockForVM (vm_uid s))) s)
                     in s\<lparr>vm_uid := - 1\<rparr>)
                  else s)
         in unlock_mman (s\<lparr>mman_ready := False\<rparr>)))"

definition to_ku_prot :: "int \<Rightarrow> ku_prot" where
  "to_ku_prot prot =
     \<lparr>ku_read = (prot AND PROT_READ \<noteq> 0), ku_write = (prot AND PROT_WRITE \<noteq> 0),
      ku_exec = (prot AND PROT_EXEC \<noteq> 0)\<rparr>"

section \<open>The table\<close>

definition region_find :: "addr \<Rightarrow> mman_region list \<Rightarrow> nat option" where
  "region_find a rs =
     first_index (\<lambda>i. a \<ge> r_addr (rs ! i) \<and> a < r_addr (rs ! i) + r_len (rs ! i)) 0 (length rs)"

text \<open>The loop that shifts the entries behind the new one, from the end.\<close>

fun insert_index :: "mman_region list \<Rightarrow> addr \<Rightarrow> nat \<Rightarrow> nat" where
  "insert_index rs a 0 = 0"
| "insert_index rs a (Suc i) = (if r_addr (rs ! i) > a then insert_index rs a i else Suc i)"

definition region_insert :: "mman_region \<Rightarrow> mman_region list \<Rightarrow> mman_region list option" where
  "region_insert r rs =
     (if length rs \<ge> MMAN_MAX_REGIONS then None
      else (let i = insert_index rs (r_addr r) (length rs) in Some (take i rs @ r # drop i rs)))"

definition region_remove :: "nat \<Rightarrow> mman_region list \<Rightarrow> mman_region list" where
  "region_remove i rs = take i rs @ drop (Suc i) rs"

definition release_reservation ::
  "'w services \<Rightarrow> int \<Rightarrow> ('w, 'z) mman_state_scheme \<Rightarrow> ('w, 'z) mman_state_scheme" where
  "release_reservation os uid s =
     (if uid < 0 then s
      else if \<exists>r \<in> set (regions s). r_uid r = uid then s
      else snd (sys os (Kernel (sceKernelFreeMemBlock uid)) s))"

section \<open>The pool\<close>

definition vm_pool_init ::
  "'w services \<Rightarrow> ('w, 'z) mman_state_scheme \<Rightarrow> int \<times> ('w, 'z) mman_state_scheme" where
  "vm_pool_init os s =
     (if vm_uid s \<ge> 0 then (0, s)
      else
        (let (r, s) = sys os (Kernel (sceKernelAllocMemBlockForVM ''SceLibcPosix_mman'' MMAN_VM_POOL_SIZE)) s;
             uid = rp_ret r
         in if uid < 0 then (uid, s)
            else
              (let (r, s) = sys os (Kernel (sceKernelGetMemBlockBase uid)) s; ret = rp_ret r in
               if ret < 0 then (ret, snd (sys os (Kernel (sceKernelFreeMemBlockForVM uid)) s))
               else
                 (let s = snd (sys os (Kernel sceKernelOpenVMDomain) s)
                  in (0, s\<lparr>vm_uid := uid, vm_base := word_of_int (outp r 0 0)\<rparr>)))))"

fun pool_scan :: "mman_region list \<Rightarrow> size_t \<Rightarrow> addr \<Rightarrow> addr" where
  "pool_scan [] len cand = cand"
| "pool_scan (r # rs) len cand =
     (if r_uid r \<ge> 0 then pool_scan rs len cand
      else if r_addr r \<ge> cand + len then cand
      else
        (let after = r_addr r + r_len r
         in pool_scan rs len (if after > cand then after else cand)))"

definition vm_pool_alloc :: "size_t \<Rightarrow> ('w, 'z) mman_state_scheme \<Rightarrow> addr" where
  "vm_pool_alloc len s =
     (let cand = pool_scan (regions s) len (vm_base s); pool_end = vm_base s + MMAN_VM_POOL_SIZE
      in if cand > pool_end \<or> pool_end - cand < len then 0 else cand)"

section \<open>The operations\<close>

text \<open>The result of \<open>__mman_map\<close> is the address (0 is \<open>NULL\<close>) and the error stored in \<open>*err\<close>.\<close>

definition map_kubridge ::
  "'w services \<Rightarrow> addr \<Rightarrow> size_t \<Rightarrow> int \<Rightarrow> ('w, 'z) mman_state_scheme \<Rightarrow>
     (addr \<times> int) \<times> ('w, 'z) mman_state_scheme" where
  "map_kubridge os hint len prot s =
     (let (r, s) = sys os (Ku (kuKernelMemReserve hint len)) s;
          uid = rp_ret r; base = word_of_int (outp r 0 (uint hint))
      in if uid < 0 then ((0, ENOMEM), s)
         else
           (let (c, s) = sys os (Ku (kuKernelMemCommit base len (to_ku_prot prot))) s in
            if rp_ret c < 0 then
              ((0, ENOMEM), snd (sys os (Kernel (sceKernelFreeMemBlock uid)) s))
            else
              (case region_insert \<lparr>r_addr = base, r_len = len, r_uid = uid, r_prot = prot\<rparr> (regions s) of
                 None \<Rightarrow>
                   (let s = snd (sys os (Ku (kuKernelMemDecommit base len)) s)
                    in ((0, ENOMEM), snd (sys os (Kernel (sceKernelFreeMemBlock uid)) s)))
               | Some rs \<Rightarrow> ((base, 0), set_regions rs s))))"

definition map_pool ::
  "'w services \<Rightarrow> size_t \<Rightarrow> int \<Rightarrow> ('w, 'z) mman_state_scheme \<Rightarrow>
     (addr \<times> int) \<times> ('w, 'z) mman_state_scheme" where
  "map_pool os len prot s =
     (let (i, s) = vm_pool_init os s in
      if i < 0 then ((0, ENOMEM), s)
      else
        (let p = vm_pool_alloc len s in
         if p = 0 then ((0, ENOMEM), s)
         else
           (case region_insert \<lparr>r_addr = p, r_len = len, r_uid = - 1, r_prot = prot\<rparr> (regions s) of
              None \<Rightarrow> ((0, ENOMEM), s)
            | Some rs \<Rightarrow> ((p, 0), set_regions rs s))))"

definition mman_map ::
  "'w services \<Rightarrow> addr \<Rightarrow> size_t \<Rightarrow> int \<Rightarrow> ('w, 'z) mman_state_scheme \<Rightarrow>
     (addr \<times> int) \<times> ('w, 'z) mman_state_scheme" where
  "mman_map os hint len prot s =
     (let len = MMAN_PAGE_ALIGN len in
      if len = 0 then ((0, EINVAL), s)
      else if \<not> mman_ready s then ((0, ENOMEM), s)
      else if hint \<noteq> 0 \<and> \<not> have_kubridge s then ((0, ENOTSUP), s)
      else
        (let s = lock_mman s;
             (r, s) = (if have_kubridge s then map_kubridge os hint len prot s
                       else map_pool os len prot s)
         in (r, unlock_mman s)))"

lemma regions_simps [simp]:
  "regions (snd (sys os c s)) = regions s" "regions (set_regions rs s) = rs"
  "regions (lock_mman s) = regions s" "regions (unlock_mman s) = regions s"
  "regions (set_errno e s) = regions s" "regions (set_mem m s) = regions s"
  "regions (release_reservation os uid s) = regions s"
  by (simp_all add: sys_def set_regions_def lock_mman_def unlock_mman_def set_errno_def set_mem_def
      release_reservation_def split: prod.splits)

text \<open>
  One round of the loop of \<open>__mman_unmap\<close> on the range from \<open>a\<close> to \<open>e\<close>: the next index, whether
  the loop goes on, the value of \<open>ret\<close> and the state.
\<close>

definition unmap_round ::
  "'w services \<Rightarrow> addr \<Rightarrow> addr \<Rightarrow> nat \<Rightarrow> int \<Rightarrow> ('w, 'z) mman_state_scheme \<Rightarrow>
     nat \<times> bool \<times> int \<times> ('w, 'z) mman_state_scheme" where
  "unmap_round os a e i ret s =
     (let r = regions s ! i; rs = r_addr r; re = rs + r_len r in
      if re \<le> a \<or> rs \<ge> e then (Suc i, True, ret, s)
      else
        (let us = (if a > rs then a else rs); ue = (if e < re then e else re); uid = r_uid r;
             s = (if uid \<ge> 0 then snd (sys os (Ku (kuKernelMemDecommit us (ue - us))) s) else s)
         in if us = rs \<and> ue = re then
              (i, True, 0, release_reservation os uid (set_regions (region_remove i (regions s)) s))
            else if us = rs then
              (Suc i, True, 0, set_regions ((regions s)[i := r\<lparr>r_addr := ue, r_len := re - ue\<rparr>]) s)
            else if ue = re then
              (Suc i, True, 0, set_regions ((regions s)[i := r\<lparr>r_len := us - rs\<rparr>]) s)
            else
              (let cut = (regions s)[i := r\<lparr>r_len := us - rs\<rparr>] in
               case region_insert \<lparr>r_addr = ue, r_len = re - ue, r_uid = uid, r_prot = r_prot r\<rparr> cut of
                 None \<Rightarrow> (i, False, ret, set_regions (cut[i := r\<lparr>r_len := re - rs\<rparr>]) s)
               | Some rs' \<Rightarrow> (i, False, 0, set_regions rs' s))))"

lemma unmap_round_decreases:
  assumes "i < length (regions s)" "unmap_round os a e i ret s = (j, True, ret', s')"
  shows "length (regions s') - j < length (regions s) - i"
  using assms by (auto simp: unmap_round_def Let_def region_remove_def split: if_splits option.splits)

function unmap_loop ::
  "'w services \<Rightarrow> addr \<Rightarrow> addr \<Rightarrow> nat \<Rightarrow> int \<Rightarrow> ('w, 'z) mman_state_scheme \<Rightarrow>
     int \<times> ('w, 'z) mman_state_scheme" where
  "unmap_loop os a e i ret s =
     (if i < length (regions s) then
        (case unmap_round os a e i ret s of
           (j, True, ret, s) \<Rightarrow> unmap_loop os a e j ret s
         | (j, False, ret, s) \<Rightarrow> (ret, s))
      else (ret, s))"
  by pat_completeness auto
termination
  by (relation "measure (\<lambda>(os, a, e, i, ret, s). length (regions s) - i)")
     (auto intro: unmap_round_decreases [OF _ sym])

declare unmap_loop.simps [simp del]

definition mman_unmap ::
  "'w services \<Rightarrow> addr \<Rightarrow> size_t \<Rightarrow> ('w, 'z) mman_state_scheme \<Rightarrow> int \<times> ('w, 'z) mman_state_scheme" where
  "mman_unmap os a len s =
     (let len = MMAN_PAGE_ALIGN len in
      if len = 0 \<or> \<not> mman_ready s then (- 1, s)
      else (let (ret, s) = unmap_loop os a (a + len) 0 (- 1) (lock_mman s) in (ret, unlock_mman s)))"

definition mman_prot_of :: "addr \<Rightarrow> ('w, 'z) mman_state_scheme \<Rightarrow> int \<times> ('w, 'z) mman_state_scheme" where
  "mman_prot_of a s =
     (if \<not> mman_ready s then (- 1, s)
      else
        (let s = lock_mman s;
             prot = (case region_find a (regions s) of None \<Rightarrow> - 1 | Some i \<Rightarrow> r_prot (regions s ! i))
         in (prot, unlock_mman s)))"

definition resize_grow ::
  "nat \<Rightarrow> addr \<Rightarrow> size_t \<Rightarrow> size_t \<Rightarrow> ('w, 'z) mman_state_scheme \<Rightarrow> int \<times> ('w, 'z) mman_state_scheme" where
  "resize_grow i a old_len new_len s =
     (let grow_s = a + old_len; grow_e = a + new_len in
      if grow_e > vm_base s + MMAN_VM_POOL_SIZE then (- 1, s)
      else if \<exists>j<length (regions s). j \<noteq> i \<and>
                r_addr (regions s ! j) < grow_e \<and> r_addr (regions s ! j) + r_len (regions s ! j) > grow_s
        then (- 1, s)
      else
        (let s = set_mem (mem_set grow_s 0 (grow_e - grow_s) (mem s)) s
         in (0, set_regions ((regions s)[i := (regions s ! i)\<lparr>r_len := new_len\<rparr>]) s)))"

definition resize_body ::
  "'w services \<Rightarrow> addr \<Rightarrow> size_t \<Rightarrow> size_t \<Rightarrow> ('w, 'z) mman_state_scheme \<Rightarrow>
     int \<times> ('w, 'z) mman_state_scheme" where
  "resize_body os a old_len new_len s =
     (case region_find a (regions s) of
        None \<Rightarrow> (- 1, s)
      | Some i \<Rightarrow>
          (let r = regions s ! i in
           if r_addr r \<noteq> a \<or> r_len r \<noteq> old_len then (- 1, s)
           else if new_len = old_len then (0, s)
           else if new_len < old_len then
             (let s = (if r_uid r \<ge> 0
                       then snd (sys os (Ku (kuKernelMemDecommit (a + new_len) (old_len - new_len))) s) else s)
              in (0, set_regions ((regions s)[i := r\<lparr>r_len := new_len\<rparr>]) s))
           else if r_uid r \<ge> 0 then (- 1, s)
           else resize_grow i a old_len new_len s))"

definition mman_resize ::
  "'w services \<Rightarrow> addr \<Rightarrow> size_t \<Rightarrow> size_t \<Rightarrow> ('w, 'z) mman_state_scheme \<Rightarrow>
     int \<times> ('w, 'z) mman_state_scheme" where
  "mman_resize os a old_len new_len s =
     (if \<not> mman_ready s then (- 1, s)
      else
        (let (ret, s) = resize_body os a (MMAN_PAGE_ALIGN old_len) (MMAN_PAGE_ALIGN new_len) (lock_mman s)
         in (ret, unlock_mman s)))"

definition protect_region :: "addr \<Rightarrow> addr \<Rightarrow> int \<Rightarrow> mman_region \<Rightarrow> mman_region" where
  "protect_region a e prot r =
     (if r_addr r \<ge> a \<and> r_addr r + r_len r \<le> e then r\<lparr>r_prot := prot\<rparr> else r)"

definition mman_protect ::
  "'w services \<Rightarrow> addr \<Rightarrow> size_t \<Rightarrow> int \<Rightarrow> ('w, 'z) mman_state_scheme \<Rightarrow>
     int \<times> ('w, 'z) mman_state_scheme" where
  "mman_protect os a len prot s =
     (if \<not> mman_ready s then (- 1, s)
      else
        (let len = MMAN_PAGE_ALIGN len; s = lock_mman s;
             s = set_regions (map (protect_region a (a + len) prot) (regions s)) s;
             (ret, s) =
               (if have_kubridge s
                then (let (r, s) = sys os (Ku (kuKernelMemProtect a len (to_ku_prot prot))) s in (rp_ret r, s))
                else (0, s))
         in (ret, unlock_mman s)))"

text \<open>The loop of \<open>__mman_mapped\<close>; \<open>None\<close> would be a loop that never ends.\<close>

partial_function (option) mapped_loop :: "mman_region list \<Rightarrow> addr \<Rightarrow> addr \<Rightarrow> bool option" where
  "mapped_loop rs p e =
     (if p < e then
        (case region_find p rs of
           None \<Rightarrow> Some False
         | Some i \<Rightarrow> mapped_loop rs (r_addr (rs ! i) + r_len (rs ! i)) e)
      else Some True)"

declare mapped_loop.simps [code]

definition mman_mapped ::
  "addr \<Rightarrow> size_t \<Rightarrow> ('w, 'z) mman_state_scheme \<Rightarrow> (bool \<times> ('w, 'z) mman_state_scheme) option" where
  "mman_mapped a len s =
     (if \<not> mman_ready s then Some (False, s)
      else
        (let s = lock_mman s in
         case mapped_loop (regions s) a (MMAN_PAGE_ALIGN (a + len)) of
           None \<Rightarrow> None
         | Some ret \<Rightarrow> Some (ret, unlock_mman s)))"

definition discard_body ::
  "'w services \<Rightarrow> addr \<Rightarrow> size_t \<Rightarrow> ('w, 'z) mman_state_scheme \<Rightarrow> int \<times> ('w, 'z) mman_state_scheme" where
  "discard_body os a len s =
     (case region_find a (regions s) of
        None \<Rightarrow> (- 1, s)
      | Some i \<Rightarrow>
          (let r = regions s ! i; rs = r_addr r; re = rs + r_len r;
               ds = a AND NOT (MMAN_PAGE_SIZE - 1); de = MMAN_PAGE_ALIGN (a + len);
               ds = (if ds < rs then rs else ds); de = (if de > re then re else de)
           in if de \<le> ds then (- 1, s)
              else if r_uid r \<ge> 0 then
                (let prot = r_prot r;
                     s = snd (sys os (Ku (kuKernelMemDecommit ds (de - ds))) s);
                     (c, s) = sys os (Ku (kuKernelMemCommit ds (de - ds) (to_ku_prot (prot OR PROT_WRITE)))) s
                 in if rp_ret c < 0 then (- 1, s)
                    else
                      (let s = set_mem (mem_set ds 0 (de - ds) (mem s)) s;
                           s = (if prot OR PROT_WRITE \<noteq> prot
                                then snd (sys os (Ku (kuKernelMemProtect ds (de - ds) (to_ku_prot prot))) s) else s)
                       in (0, s)))
              else (0, set_mem (mem_set ds 0 (de - ds) (mem s)) s)))"

definition mman_discard ::
  "'w services \<Rightarrow> addr \<Rightarrow> size_t \<Rightarrow> ('w, 'z) mman_state_scheme \<Rightarrow> int \<times> ('w, 'z) mman_state_scheme" where
  "mman_discard os a len s =
     (if \<not> mman_ready s then (- 1, s)
      else (let (ret, s) = discard_body os a len (lock_mman s) in (ret, unlock_mman s)))"

definition mman_sync ::
  "'w services \<Rightarrow> addr \<Rightarrow> size_t \<Rightarrow> ('w, 'z) mman_state_scheme \<Rightarrow> int \<times> ('w, 'z) mman_state_scheme" where
  "mman_sync os a len s =
     (if \<not> mman_ready s then (- 1, s)
      else if have_kubridge s then (0, snd (sys os (Ku (kuKernelFlushCaches a len)) s))
      else if vm_uid s < 0 then (0, s)
      else (let (r, s) = sys os (Kernel (sceKernelSyncVMDomain (vm_uid s) a len)) s in (rp_ret r, s)))"

text \<open>What the basic steps leave alone.\<close>

lemma mman_frame [simp]:
  "mman_mutex (snd (sys os c s)) = mman_mutex s" "mman_mutex (set_regions rs s) = mman_mutex s"
  "mman_mutex (release_reservation os uid s) = mman_mutex s" "mman_mutex (set_mem m s) = mman_mutex s"
  "mman_mutex (lock_mman s) = mman_mutex s + 1" "mman_mutex (unlock_mman s) = mman_mutex s - 1"
  "mman_mutex (set_errno x s) = mman_mutex s"
  "mman_ready (snd (sys os c s)) = mman_ready s" "mman_ready (set_regions rs s) = mman_ready s"
  "mman_ready (release_reservation os uid s) = mman_ready s" "mman_ready (set_mem m s) = mman_ready s"
  "mman_ready (lock_mman s) = mman_ready s" "mman_ready (unlock_mman s) = mman_ready s"
  "mman_ready (set_errno x s) = mman_ready s"
  "have_kubridge (snd (sys os c s)) = have_kubridge s" "have_kubridge (set_regions rs s) = have_kubridge s"
  "have_kubridge (release_reservation os uid s) = have_kubridge s" "have_kubridge (set_mem m s) = have_kubridge s"
  "have_kubridge (lock_mman s) = have_kubridge s" "have_kubridge (unlock_mman s) = have_kubridge s"
  "have_kubridge (set_errno x s) = have_kubridge s"
  "vm_uid (snd (sys os c s)) = vm_uid s" "vm_uid (set_regions rs s) = vm_uid s"
  "vm_uid (release_reservation os uid s) = vm_uid s" "vm_uid (set_mem m s) = vm_uid s"
  "vm_uid (lock_mman s) = vm_uid s" "vm_uid (unlock_mman s) = vm_uid s" "vm_uid (set_errno x s) = vm_uid s"
  "vm_base (snd (sys os c s)) = vm_base s" "vm_base (set_regions rs s) = vm_base s"
  "vm_base (release_reservation os uid s) = vm_base s" "vm_base (set_mem m s) = vm_base s"
  "vm_base (lock_mman s) = vm_base s" "vm_base (unlock_mman s) = vm_base s" "vm_base (set_errno x s) = vm_base s"
  by (simp_all add: sys_def set_regions_def lock_mman_def unlock_mman_def set_errno_def set_mem_def
      release_reservation_def split: prod.splits)

lemma mman_libc_frame [simp]:
  "mem (set_regions rs s) = mem s" "mem (lock_mman s) = mem s" "mem (unlock_mman s) = mem s"
  "mem (set_mem m t) = m" "errno (set_mem m t) = errno t"
  "world (set_regions rs s) = world s" "world (lock_mman s) = world s" "world (unlock_mman s) = world s"
  "world (set_mem m t) = world t"
  "errno (set_regions rs s) = errno s" "errno (lock_mman s) = errno s" "errno (unlock_mman s) = errno s"
  by (simp_all add: set_regions_def lock_mman_def unlock_mman_def set_mem_def)

end
