(* ===== verification/Mman_Regions.thy ===== *)
theory Mman_Regions
  imports Vita_Mman
begin

text \<open>
  The region table as an address space. \<open>regions_wf\<close> is the invariant of the table (sorted,
  pairwise disjoint, page aligned, no region at the end of the address space); \<open>space\<close> is what
  the table means: the reservation and protection of each mapped address. The lemmas show that
  insertion, removal and the pool allocator implement updates of that map.
\<close>

section \<open>Regions as intervals of natural numbers\<close>

definition rb :: "mman_region \<Rightarrow> nat" where "rb r = unat (r_addr r)"
definition re :: "mman_region \<Rightarrow> nat" where "re r = unat (r_addr r) + unat (r_len r)"

definition page_aligned :: "32 word \<Rightarrow> bool" where
  "page_aligned x \<longleftrightarrow> 4096 dvd unat x"

definition region_ok :: "mman_region \<Rightarrow> bool" where
  "region_ok r \<longleftrightarrow> r_len r \<noteq> 0 \<and> re r < 2 ^ 32 \<and> page_aligned (r_addr r) \<and> page_aligned (r_len r)"

definition regions_wf :: "mman_region list \<Rightarrow> bool" where
  "regions_wf rs \<longleftrightarrow> length rs \<le> MMAN_MAX_REGIONS \<and> (\<forall>r \<in> set rs. region_ok r) \<and>
     sorted_wrt (\<lambda>r q. re r \<le> rb q) rs"

definition covers :: "mman_region \<Rightarrow> addr \<Rightarrow> bool" where
  "covers r a \<longleftrightarrow> rb r \<le> unat a \<and> unat a < re r"

definition region_val :: "mman_region \<Rightarrow> int \<times> int" where
  "region_val r = (r_uid r, r_prot r)"

definition space :: "mman_region list \<Rightarrow> addr \<Rightarrow> (int \<times> int) option" where
  "space rs a = map_option (\<lambda>i. region_val (rs ! i)) (region_find a rs)"

lemma unat_add32: "unat x + unat y < 2 ^ 32 \<Longrightarrow> unat (x + y :: 32 word) = unat x + unat y"
  by (simp add: unat_word_ariths)

lemma unat_region_end: "region_ok r \<Longrightarrow> unat (r_addr r + r_len r) = re r"
  by (simp add: region_ok_def re_def unat_add32)

lemma region_ok_nonempty: "region_ok r \<Longrightarrow> rb r < re r"
  by (simp add: region_ok_def rb_def re_def unat_gt_0)

lemma covers_word:
  "region_ok r \<Longrightarrow> covers r a \<longleftrightarrow> a \<ge> r_addr r \<and> a < r_addr r + r_len r"
  by (simp add: covers_def rb_def word_le_nat_alt word_less_nat_alt unat_region_end)

lemma region_find_covers:
  assumes "\<forall>r \<in> set rs. region_ok r"
  shows "region_find a rs = first_index (\<lambda>i. covers (rs ! i) a) 0 (length rs)"
proof -
  have "region_find a rs = Some i \<longleftrightarrow> first_index (\<lambda>i. covers (rs ! i) a) 0 (length rs) = Some i" for i
  proof
    assume "region_find a rs = Some i"
    then have "first_index (\<lambda>i. a \<ge> r_addr (rs ! i) \<and> a < r_addr (rs ! i) + r_len (rs ! i)) 0 (length rs) = Some i"
      by (simp add: region_find_def)
    from first_index_Some [OF this] show "first_index (\<lambda>i. covers (rs ! i) a) 0 (length rs) = Some i"
      by (intro first_index_eqI) (use assms in \<open>auto simp: covers_word\<close>)
  next
    assume "first_index (\<lambda>i. covers (rs ! i) a) 0 (length rs) = Some i"
    from first_index_Some [OF this] show "region_find a rs = Some i"
      unfolding region_find_def by (intro first_index_eqI) (use assms in \<open>auto simp: covers_word\<close>)
  qed
  then show ?thesis by (metis not_Some_eq)
qed

lemma regions_wf_ok [dest]: "regions_wf rs \<Longrightarrow> \<forall>r \<in> set rs. region_ok r"
  by (simp add: regions_wf_def)

lemma regions_wf_order:
  "regions_wf rs \<Longrightarrow> i < j \<Longrightarrow> j < length rs \<Longrightarrow> re (rs ! i) \<le> rb (rs ! j)"
  using sorted_wrt_nth_less [of "\<lambda>r q. re r \<le> rb q" rs i j] by (simp add: regions_wf_def)

lemma covers_unique:
  assumes "regions_wf rs" "i < length rs" "j < length rs" "covers (rs ! i) a" "covers (rs ! j) a"
  shows "i = j"
proof (rule ccontr)
  assume "i \<noteq> j"
  then consider "i < j" | "j < i" by linarith
  then show False
    using regions_wf_order [OF assms(1), of i j] regions_wf_order [OF assms(1), of j i] assms
    by cases (simp_all add: covers_def)
qed

lemma region_find_Some:
  assumes "regions_wf rs"
  shows "region_find a rs = Some i \<longleftrightarrow> i < length rs \<and> covers (rs ! i) a"
proof
  assume "region_find a rs = Some i"
  then show "i < length rs \<and> covers (rs ! i) a"
    using first_index_Some assms by (fastforce simp: region_find_covers regions_wf_ok)
next
  assume h: "i < length rs \<and> covers (rs ! i) a"
  have "first_index (\<lambda>i. covers (rs ! i) a) 0 (length rs) = Some i"
  proof (rule first_index_eqI)
    show "\<not> covers (rs ! j) a" if "j < i" for j using covers_unique [OF assms, of i j a] h that by auto
  qed (use h in auto)
  then show "region_find a rs = Some i" using assms by (simp add: region_find_covers regions_wf_ok)
qed

lemma region_find_None:
  "regions_wf rs \<Longrightarrow> region_find a rs = None \<longleftrightarrow> (\<forall>r \<in> set rs. \<not> covers r a)"
  by (simp add: region_find_covers regions_wf_ok first_index_None all_set_conv_all_nth)

text \<open>The meaning of a well-formed table depends only on the set of its regions.\<close>

lemma space_Some:
  "regions_wf rs \<Longrightarrow> space rs a = Some v \<longleftrightarrow> (\<exists>r \<in> set rs. covers r a \<and> region_val r = v)"
  by (force simp: space_def region_find_Some in_set_conv_nth)

lemma space_None: "regions_wf rs \<Longrightarrow> space rs a = None \<longleftrightarrow> (\<forall>r \<in> set rs. \<not> covers r a)"
  by (simp add: space_def region_find_None)

lemma space_covers: "regions_wf rs \<Longrightarrow> r \<in> set rs \<Longrightarrow> covers r a \<Longrightarrow> space rs a = Some (region_val r)"
  using space_Some by blast

lemma space_eqI:
  assumes "regions_wf rs" "\<And>v. f a = Some v \<longleftrightarrow> (\<exists>r \<in> set rs. covers r a \<and> region_val r = v)"
  shows "space rs a = f a"
  using space_Some [OF assms(1), of a] assms(2) by (metis not_Some_eq)

text \<open>Two regions with no common address.\<close>

definition region_apart :: "mman_region \<Rightarrow> mman_region \<Rightarrow> bool" where
  "region_apart r q \<longleftrightarrow> re r \<le> rb q \<or> re q \<le> rb r"

lemma apart_no_common:
  assumes "region_ok r" "region_ok q" "\<And>a. covers r a \<Longrightarrow> \<not> covers q a"
  shows "region_apart r q"
proof (rule ccontr)
  assume "\<not> region_apart r q"
  then have lt: "rb q < re r" "rb r < re q" by (simp_all add: region_apart_def)
  define a :: addr where "a = (if r_addr r \<le> r_addr q then r_addr q else r_addr r)"
  have "covers r a" "covers q a"
    using lt region_ok_nonempty assms(1,2) by (auto simp: a_def covers_def rb_def word_le_nat_alt)
  with assms(3) show False by blast
qed

section \<open>Insertion\<close>

lemma insert_index_le: "insert_index rs a n \<le> n"
  by (induction n) auto

lemma insert_index_below:
  assumes "regions_wf rs" "n \<le> length rs" "j < insert_index rs a n"
  shows "r_addr (rs ! j) \<le> a"
  using assms(2,3)
proof (induction n)
  case (Suc n)
  show ?case
  proof (cases "r_addr (rs ! n) > a")
    case False
    then have le: "r_addr (rs ! n) \<le> a" by simp
    have jn: "j \<le> n" using Suc.prems False by simp
    have "rb (rs ! j) \<le> rb (rs ! n)"
    proof (cases "j = n")
      case False
      then have "re (rs ! j) \<le> rb (rs ! n)" using jn Suc.prems by (intro regions_wf_order [OF assms(1)]) auto
      then show ?thesis by (simp add: re_def rb_def)
    qed simp
    then show ?thesis using le by (simp add: rb_def word_le_nat_alt)
  qed (use Suc in simp)
qed simp

lemma insert_index_above:
  "insert_index rs a n \<le> j \<Longrightarrow> j < n \<Longrightarrow> r_addr (rs ! j) > a"
  by (induction n) (auto simp: less_Suc_eq split: if_splits)

lemma region_insert_wf:
  assumes "regions_wf rs" "region_ok r" "\<forall>q \<in> set rs. region_apart r q" "region_insert r rs = Some rs'"
  shows "regions_wf rs' \<and> set rs' = insert r (set rs)"
proof -
  define i where "i = insert_index rs (r_addr r) (length rs)"
  have len: "length rs < MMAN_MAX_REGIONS" and rs': "rs' = take i rs @ r # drop i rs"
    using assms(4) by (auto simp: region_insert_def i_def Let_def split: if_splits)
  have i: "i \<le> length rs" by (simp add: i_def insert_index_le)
  have below: "re q \<le> rb r" if h: "q \<in> set (take i rs)" for q
  proof -
    obtain j where "j < length (take i rs)" "take i rs ! j = q"
      using h unfolding in_set_conv_nth by blast
    then have j: "j < i" "q = rs ! j" by simp_all
    have "r_addr q \<le> r_addr r" using insert_index_below [OF assms(1) le_refl, of j "r_addr r"] j by (simp add: i_def)
    moreover have "q \<in> set rs" using h by (rule in_set_takeD)
    ultimately show ?thesis
      using assms(1,3) region_ok_nonempty [OF assms(2)] region_ok_nonempty [of q]
      by (force simp: region_apart_def rb_def word_le_nat_alt)
  qed
  have above: "re r \<le> rb q" if h: "q \<in> set (drop i rs)" for q
  proof -
    obtain k where "k < length (drop i rs)" "drop i rs ! k = q"
      using h unfolding in_set_conv_nth by blast
    then have j: "i \<le> i + k" "i + k < length rs" "q = rs ! (i + k)" using i by auto
    have "r_addr r < r_addr q" using insert_index_above [of rs "r_addr r" "length rs" "i + k"] j by (simp add: i_def)
    moreover have "q \<in> set rs" using h by (rule in_set_dropD)
    ultimately show ?thesis
      using assms(1,3) region_ok_nonempty [of q]
      by (force simp: region_apart_def rb_def word_less_nat_alt)
  qed
  have srt: "sorted_wrt (\<lambda>r q. re r \<le> rb q) (take i rs @ drop i rs)"
    using assms(1) by (simp add: regions_wf_def)
  then have "sorted_wrt (\<lambda>r q. re r \<le> rb q) rs'"
    unfolding rs' sorted_wrt_append sorted_wrt.simps using below above region_ok_nonempty [OF assms(2)]
    by (auto simp: sorted_wrt_append)
  moreover have "set rs' = insert r (set rs)" using set_append [of "take i rs" "drop i rs"] by (auto simp: rs')
  ultimately show ?thesis
    using assms(1,2) len i by (auto simp: regions_wf_def rs')
qed

lemma region_insert_space:
  assumes "regions_wf rs" "region_ok r" "\<forall>q \<in> set rs. region_apart r q" "region_insert r rs = Some rs'"
  shows "space rs' a = (if covers r a then Some (region_val r) else space rs a)"
proof -
  note w = region_insert_wf [OF assms]
  have "\<not> covers q a" if "q \<in> set rs" "covers r a" for q
    using that assms(3) by (force simp: region_apart_def covers_def)
  then show ?thesis
    using w space_Some [OF assms(1), of a] space_None [OF assms(1), of a]
    by (intro space_eqI) (auto simp: w)
qed

section \<open>Shrinking and removing\<close>

lemma regions_wf_update:
  assumes "regions_wf rs" "i < length rs" "region_ok q" "rb (rs ! i) \<le> rb q" "re q \<le> re (rs ! i)"
  shows "regions_wf (rs[i := q])"
proof -
  have "sorted_wrt (\<lambda>r q. re r \<le> rb q) (rs[i := q])"
    unfolding sorted_wrt_iff_nth_less
  proof (intro allI impI)
    fix j k assume jk: "j < k" "k < length (rs[i := q])"
    then have "re (rs ! j) \<le> rb (rs ! k)" by (intro regions_wf_order [OF assms(1)]) auto
    then show "re (rs[i := q] ! j) \<le> rb (rs[i := q] ! k)"
      using assms jk by (auto simp: nth_list_update)
  qed
  moreover have "\<forall>r \<in> set (rs[i := q]). region_ok r"
    using assms(1,3) set_update_subset_insert [of rs i q] by (auto simp: regions_wf_def)
  ultimately show ?thesis using assms(1) by (simp add: regions_wf_def)
qed

lemma space_nth_Some:
  "regions_wf rs \<Longrightarrow> space rs a = Some v \<longleftrightarrow> (\<exists>i<length rs. covers (rs ! i) a \<and> region_val (rs ! i) = v)"
  by (simp add: space_Some Bex_def in_set_conv_nth) blast

lemma space_nth_None: "regions_wf rs \<Longrightarrow> space rs a = None \<longleftrightarrow> (\<forall>i<length rs. \<not> covers (rs ! i) a)"
  by (simp add: space_None all_set_conv_all_nth)

lemma space_update:
  assumes "regions_wf rs" "i < length rs" "region_ok q" "rb (rs ! i) \<le> rb q" "re q \<le> re (rs ! i)"
    and "region_val q = region_val (rs ! i)"
  shows "space (rs[i := q]) a = (if covers (rs ! i) a \<and> \<not> covers q a then None else space rs a)"
proof -
  have w: "regions_wf (rs[i := q])" using assms(1-5) by (rule regions_wf_update)
  have sub: "covers q a \<Longrightarrow> covers (rs ! i) a" using assms(4,5) by (simp add: covers_def)
  show ?thesis
  proof (cases "covers (rs ! i) a")
    case True
    then have "\<not> covers (rs ! j) a" if "j < length rs" "j \<noteq> i" for j
      using covers_unique [OF assms(1), of i j a] assms(2) that by auto
    then have "space (rs[i := q]) a = None" if "\<not> covers q a"
      using that assms(2) by (auto simp: space_nth_None [OF w] nth_list_update split: if_splits)
    moreover have "space (rs[i := q]) a = space rs a" if "covers q a"
      using that assms(2,6) space_covers [OF w, of q a] space_covers [OF assms(1) nth_mem [OF assms(2)] True]
      by (simp add: set_update_memI)
    ultimately show ?thesis using True by simp
  next
    case False
    then have "covers (rs[i := q] ! j) a \<longleftrightarrow> covers (rs ! j) a" if "j < length rs" for j
      using sub that assms(2) False by (auto simp: nth_list_update)
    moreover have "region_val (rs[i := q] ! j) = region_val (rs ! j)" if "j < length rs" for j
      using that assms(2,6) by (auto simp: nth_list_update)
    ultimately have "space (rs[i := q]) a = Some v \<longleftrightarrow> space rs a = Some v" for v
      using space_nth_Some [OF w, of a v] space_nth_Some [OF assms(1), of a v] by auto
    then have "space (rs[i := q]) a = space rs a" by (metis not_Some_eq)
    then show ?thesis using False by simp
  qed
qed

lemma region_remove_wf:
  assumes "regions_wf rs" "i < length rs"
  shows "regions_wf (region_remove i rs)"
    and "space (region_remove i rs) a = (if covers (rs ! i) a then None else space rs a)"
proof -
  have split: "rs = take i rs @ rs ! i # drop (Suc i) rs" using assms(2) by (rule id_take_nth_drop)
  have s: "sorted_wrt (\<lambda>r q. re r \<le> rb q) (take i rs @ rs ! i # drop (Suc i) rs)"
    using assms(1) split by (simp add: regions_wf_def)
  have sub: "set (region_remove i rs) \<subseteq> set rs"
    unfolding region_remove_def by (auto dest: in_set_takeD in_set_dropD)
  show w: "regions_wf (region_remove i rs)"
    using s sub assms by (auto simp: regions_wf_def region_remove_def sorted_wrt_append)
  have all: "set rs = insert (rs ! i) (set (region_remove i rs))"
    unfolding region_remove_def using arg_cong [OF split, of set] by auto
  have "\<not> covers q a" if "q \<in> set (region_remove i rs)" "covers (rs ! i) a" for q
    using s that by (auto simp: region_remove_def sorted_wrt_append covers_def)
  then show "space (region_remove i rs) a = (if covers (rs ! i) a then None else space rs a)"
    using all by (intro space_eqI [OF w]) (auto simp: space_Some [OF assms(1)])
qed

section \<open>The pool allocator\<close>

lemma pool_scan_ge: "cand \<le> pool_scan rs len cand"
  by (induction rs len cand rule: pool_scan.induct) (auto simp: Let_def intro: order.trans less_imp_le)

lemma pool_scan_apart:
  assumes "sorted_wrt (\<lambda>r q. re r \<le> rb q) rs" "\<forall>r \<in> set rs. region_ok r \<and> r_uid r < 0"
    and "unat (pool_scan rs len cand) + unat len < 2 ^ 32" "r \<in> set rs"
  shows "re r \<le> unat (pool_scan rs len cand) \<or> unat (pool_scan rs len cand) + unat len \<le> rb r"
  using assms
proof (induction rs len cand rule: pool_scan.induct)
  case (1 len cand)
  then show ?case by simp
next
  case (2 q rs len cand)
  have q: "region_ok q" "r_uid q < 0" using 2(4) by simp_all
  show ?case
  proof (cases "r_addr q \<ge> cand + len")
    case True
    then have c: "pool_scan (q # rs) len cand = cand" using q by simp
    then have "unat (cand + len) = unat cand + unat len" using 2(5) by (simp add: unat_add32)
    then have "unat cand + unat len \<le> rb q" using True by (simp add: rb_def word_le_nat_alt)
    moreover have "rb q \<le> rb r"
      using 2(3,6) region_ok_nonempty [OF q(1)] by fastforce
    ultimately show ?thesis using c by simp
  next
    case False
    let ?c = "if r_addr q + r_len q > cand then r_addr q + r_len q else cand"
    have eq: "pool_scan (q # rs) len cand = pool_scan rs len ?c" using q False by (simp add: Let_def)
    have "re q \<le> unat ?c"
      using unat_region_end [OF q(1)] by (auto simp: word_less_nat_alt not_less)
    also have "\<dots> \<le> unat (pool_scan rs len ?c)" using pool_scan_ge [of ?c rs len] by (simp add: word_le_nat_alt)
    finally have "re q \<le> unat (pool_scan (q # rs) len cand)" using eq by simp
    then show ?thesis using 2(2) [OF _ False refl] 2(3-6) q eq by (cases "r = q") auto
  qed
qed

lemma pool_scan_first_fit:
  assumes "\<forall>r \<in> set rs. region_ok r \<and> (re r \<le> p \<or> p + unat len \<le> rb r)"
    and "unat cand \<le> p" "p + unat len < 2 ^ 32"
  shows "unat (pool_scan rs len cand) \<le> p"
  using assms
proof (induction rs len cand rule: pool_scan.induct)
  case (2 q rs len cand)
  have q: "region_ok q" "re q \<le> p \<or> p + unat len \<le> rb q" using 2(3) by simp_all
  show ?case
  proof (cases "r_uid q \<ge> 0 \<or> r_addr q \<ge> cand + len")
    case True
    then show ?thesis using 2 by auto
  next
    case False
    let ?c = "if r_addr q + r_len q > cand then r_addr q + r_len q else cand"
    have "unat (cand + len) = unat cand + unat len" using 2(4,5) by (simp add: unat_add32)
    then have "rb q < unat cand + unat len" using False by (simp add: rb_def word_less_nat_alt not_le)
    then have "re q \<le> p" using q(2) 2(4) by linarith
    then have "unat ?c \<le> p" using 2(4) unat_region_end [OF q(1)] by simp
    then show ?thesis using 2(2) [of "r_addr q + r_len q"] 2(3,5) False by (simp add: Let_def)
  qed
qed simp

section \<open>Page arithmetic\<close>

lemma and_not_page: "x AND NOT (MMAN_PAGE_SIZE - 1) = x - take_bit 12 x"
proof -
  have "x AND NOT (MMAN_PAGE_SIZE - 1) = push_bit 12 (drop_bit 12 x)"
  proof (rule bit_word_eqI)
    fix n :: nat assume "n < LENGTH(32)"
    have "MMAN_PAGE_SIZE - 1 = (mask 12 :: 32 word)" by (simp add: MMAN_PAGE_SIZE_def mask_eq_exp_minus_1)
    then show "bit (x AND NOT (MMAN_PAGE_SIZE - 1)) n = bit (push_bit 12 (drop_bit 12 x)) n"
      using \<open>n < LENGTH(32)\<close>
      by (auto simp: bit_and_iff bit_not_iff bit_mask_iff bit_push_bit_iff bit_drop_bit_eq)
  qed
  also have "\<dots> = x - take_bit 12 x" using bits_ident [of 12 x] by (simp add: eq_diff_eq)
  finally show ?thesis .
qed

lemma unat_and_not_page: "unat (x AND NOT (MMAN_PAGE_SIZE - 1)) = unat x - unat x mod 4096"
proof -
  have t: "unat (take_bit 12 x) = unat x mod 4096" by (simp only: unsigned_take_bit_eq) (simp add: take_bit_eq_mod)
  then have "take_bit 12 x \<le> x" by (simp add: word_le_nat_alt)
  then show ?thesis unfolding and_not_page by (simp add: unat_sub t word_le_nat_alt)
qed

lemma page_aligned_and_not [simp]: "page_aligned (x AND NOT (MMAN_PAGE_SIZE - 1))"
  by (simp add: page_aligned_def unat_and_not_page minus_mod_eq_mult_div)

lemma page_align_aligned [simp]: "page_aligned (MMAN_PAGE_ALIGN x)"
  by (simp add: MMAN_PAGE_ALIGN_def)

text \<open>Rounding up, for values at least a page below the end of the address space.\<close>

lemma unat_page_align:
  assumes "unat x + 4095 < 2 ^ 32"
  shows "unat (MMAN_PAGE_ALIGN x) = (unat x + 4095) div 4096 * 4096"
proof -
  have "x + MMAN_PAGE_SIZE - 1 = x + 4095" by (simp add: MMAN_PAGE_SIZE_def)
  moreover have "unat (4095 :: 32 word) = 4095" by simp
  then have "unat (x + 4095) = unat x + 4095" using assms unat_add32 [of x 4095] by (simp only: )
  ultimately have "unat (x + MMAN_PAGE_SIZE - 1) = unat x + 4095" by (simp only: )
  then show ?thesis
    by (simp add: MMAN_PAGE_ALIGN_def unat_and_not_page minus_mod_eq_div_mult)
qed

lemma page_align_ge: "unat x + 4095 < 2 ^ 32 \<Longrightarrow> unat x \<le> unat (MMAN_PAGE_ALIGN x)"
  using div_mult_mod_eq [of "unat x + 4095" 4096] mod_less_divisor [of 4096 "unat x + 4095"]
  by (simp only: unat_page_align)

lemma page_align_lt: "unat x + 4095 < 2 ^ 32 \<Longrightarrow> unat (MMAN_PAGE_ALIGN x) < unat x + 4096"
  using div_mult_mod_eq [of "unat x + 4095" 4096] mod_less_divisor [of 4096 "unat x + 4095"]
  by (simp only: unat_page_align)

lemma page_align_least:
  assumes "unat x + 4095 < 2 ^ 32" "page_aligned y" "unat x \<le> unat y"
  shows "unat (MMAN_PAGE_ALIGN x) \<le> unat y"
proof -
  obtain k where k: "unat y = 4096 * k" using assms(2) by (auto simp: page_aligned_def elim: dvdE)
  have "(unat x + 4095) div 4096 \<le> (4096 * k + 4095) div 4096" using assms(3) k by (intro div_le_mono) simp
  also have "\<dots> = k" by simp
  finally show ?thesis using k by (simp add: unat_page_align [OF assms(1)])
qed

lemma page_align_id: "page_aligned x \<Longrightarrow> unat x + 4095 < 2 ^ 32 \<Longrightarrow> MMAN_PAGE_ALIGN x = x"
  using page_align_ge [of x] page_align_least [of x x]
  by (intro word_unat_eq_iff [THEN iffD2]) simp

lemma page_aligned_diff:
  "page_aligned x \<Longrightarrow> page_aligned y \<Longrightarrow> y \<le> x \<Longrightarrow> page_aligned (x - y)"
  by (simp add: page_aligned_def unat_sub word_le_nat_alt dvd_diff_nat)

lemma page_aligned_add:
  "page_aligned x \<Longrightarrow> page_aligned y \<Longrightarrow> unat x + unat y < 2 ^ 32 \<Longrightarrow> page_aligned (x + y)"
  by (simp add: page_aligned_def unat_add32)

section \<open>The contract of the table\<close>

text \<open>
  What the operations that create mappings rely on: inserting a region at addresses that are
  free keeps the table well-formed and changes the meaning at exactly those addresses.
\<close>

locale region_store =
  fixes wf :: "'t \<Rightarrow> bool"
    and meaning :: "'t \<Rightarrow> 'a \<Rightarrow> 'v option"
    and at :: "'r \<Rightarrow> 'a \<Rightarrow> bool"
    and good :: "'r \<Rightarrow> bool"
    and val :: "'r \<Rightarrow> 'v"
    and ins :: "'r \<Rightarrow> 't \<Rightarrow> 't option"
  assumes ins_wf: "wf t \<Longrightarrow> good r \<Longrightarrow> (\<And>a. at r a \<Longrightarrow> meaning t a = None) \<Longrightarrow> ins r t = Some t' \<Longrightarrow> wf t'"
    and ins_meaning: "wf t \<Longrightarrow> good r \<Longrightarrow> (\<And>a. at r a \<Longrightarrow> meaning t a = None) \<Longrightarrow> ins r t = Some t' \<Longrightarrow>
      meaning t' a = (if at r a then Some (val r) else meaning t a)"
begin

lemma insert_extends:
  assumes "wf t" "good r" "\<And>a. at r a \<Longrightarrow> meaning t a = None" "ins r t = Some t'" "meaning t a = Some v"
  shows "meaning t' a = Some v"
  using ins_meaning [OF assms(1-4), of a] assms(3) [of a] assms(5) by auto

lemma two_inserts_apart:
  assumes "wf t" "good r" "\<And>a. at r a \<Longrightarrow> meaning t a = None" "ins r t = Some t'"
    and "\<And>a. at q a \<Longrightarrow> meaning t' a = None"
  shows "\<not> (at r a \<and> at q a)"
  using ins_meaning [OF assms(1-4), of a] assms(5) [of a] by auto

end

lemma free_region_apart:
  assumes "regions_wf rs" "region_ok r" "\<And>a. covers r a \<Longrightarrow> space rs a = None"
  shows "\<forall>q \<in> set rs. region_apart r q"
  using assms by (auto intro!: apart_no_common simp: space_None dest: regions_wf_ok)

interpretation table: region_store regions_wf space covers region_ok region_val region_insert
proof unfold_locales
  fix t t' r a
  assume "regions_wf t" "region_ok r" "\<And>a. covers r a \<Longrightarrow> space t a = None" "region_insert r t = Some t'"
  then show "regions_wf t'" "space t' a = (if covers r a then Some (region_val r) else space t a)"
    using region_insert_wf [of t r t'] region_insert_space [of t r t' a] free_region_apart [of t r] by blast+
qed

end
