(* ===== verification/Mman_Unmap.thy ===== *)
theory Mman_Unmap
  imports Mman_Regions
begin

text \<open>
  \<open>__mman_unmap\<close> implements the removal of an address range from the address space, with regions
  removed, trimmed at either end or split.
\<close>

text \<open>The region has no address in the range from \<open>a\<close> to \<open>e\<close>.\<close>

definition out_of :: "addr \<Rightarrow> addr \<Rightarrow> mman_region \<Rightarrow> bool" where
  "out_of a e r \<longleftrightarrow> re r \<le> unat a \<or> unat e \<le> rb r"

lemma out_of_word:
  "region_ok r \<Longrightarrow> r_addr r + r_len r \<le> a \<or> r_addr r \<ge> e \<longleftrightarrow> out_of a e r"
  by (simp add: out_of_def word_le_nat_alt unat_region_end rb_def)

lemma out_of_covers: "out_of a e r \<Longrightarrow> covers r x \<Longrightarrow> \<not> (a \<le> x \<and> x < e)"
  by (auto simp: out_of_def covers_def word_le_nat_alt word_less_nat_alt)

lemma not_out_of: "region_ok r \<Longrightarrow> a < e \<Longrightarrow> \<not> out_of a e r \<Longrightarrow> \<exists>x. covers r x \<and> a \<le> x \<and> x < e"
  using region_ok_nonempty [of r]
  by (intro exI [of _ "if a \<le> r_addr r then r_addr r else a"])
     (auto simp: out_of_def covers_def word_le_nat_alt word_less_nat_alt rb_def)

text \<open>The pieces that a cut leaves, with their bounds.\<close>

lemma upper_piece:
  assumes "region_ok r" "rb r < unat e" "unat e < re r" "page_aligned e"
    and "r_addr q = e" "r_len q = r_addr r + r_len r - e"
  shows "region_ok q \<and> rb q = unat e \<and> re q = re r"
proof -
  have u: "unat (r_addr r + r_len r) = re r" using assms(1) by (rule unat_region_end)
  then have le: "e \<le> r_addr r + r_len r" using assms(3) by (simp add: word_le_nat_alt)
  have l: "unat (r_len q) = re r - unat e" using u le assms(6) by (simp add: unat_sub)
  have "page_aligned (r_addr r + r_len r)"
    using assms(1) by (intro page_aligned_add) (auto simp: region_ok_def re_def)
  then have "page_aligned (r_len q)" using assms(4,6) le by (simp add: page_aligned_diff)
  moreover have "r_len q \<noteq> 0" using l assms(3) by (metis unat_0 zero_less_diff less_irrefl)
  moreover have "re r < 2 ^ 32" using assms(1) by (simp add: region_ok_def)
  ultimately show ?thesis using l assms(3-5) by (simp add: region_ok_def rb_def re_def)
qed

lemma lower_piece:
  assumes "region_ok r" "rb r < unat a" "unat a < re r" "page_aligned a"
    and "r_addr q = r_addr r" "r_len q = a - r_addr r"
  shows "region_ok q \<and> rb q = rb r \<and> re q = unat a"
proof -
  have le: "r_addr r \<le> a" using assms(2) by (simp add: rb_def word_le_nat_alt)
  then have l: "unat (r_len q) = unat a - rb r" using assms(6) by (simp add: unat_sub rb_def)
  have "page_aligned (r_len q)" using assms(1,4,6) le by (simp add: region_ok_def page_aligned_diff)
  moreover have "r_len q \<noteq> 0" using l assms(2) by (metis unat_0 zero_less_diff less_irrefl)
  moreover have "re r < 2 ^ 32" using assms(1) by (simp add: region_ok_def)
  ultimately show ?thesis using l assms(1,2,3,5) by (simp add: region_ok_def rb_def re_def)
qed

lemma space_cut:
  assumes "regions_wf rs" "i < length rs" "region_ok q" "rb (rs ! i) \<le> rb q" "re q \<le> re (rs ! i)"
    and "region_val q = region_val (rs ! i)"
    and "\<And>x. covers (rs ! i) x \<Longrightarrow> covers q x \<longleftrightarrow> \<not> (a \<le> x \<and> x < e)"
  shows "regions_wf (rs[i := q]) \<and>
    space (rs[i := q]) x = (if covers (rs ! i) x \<and> a \<le> x \<and> x < e then None else space rs x)"
  using regions_wf_update [OF assms(1-5)] space_update [OF assms(1-6), of x] assms(7) [of x] by auto

lemma space_split:
  assumes "regions_wf rs" "i < length rs" "unat a < unat e"
    and lo: "region_ok lo" "rb lo = rb (rs ! i)" "re lo = unat a" "region_val lo = region_val (rs ! i)"
    and hi: "region_ok hi" "rb hi = unat e" "re hi = re (rs ! i)" "region_val hi = region_val (rs ! i)"
    and ins: "region_insert hi (rs[i := lo]) = Some rs'"
  shows "regions_wf rs' \<and> space rs' x = (if a \<le> x \<and> x < e then None else space rs x)"
proof -
  have "rb lo < re lo" "rb hi < re hi" using lo(1) hi(1) by (simp_all add: region_ok_nonempty)
  then have sub: "rb (rs ! i) \<le> rb lo" "re lo \<le> re (rs ! i)" using lo hi assms(3) by simp_all
  note wf = regions_wf_update [OF assms(1,2) lo(1) sub]
  note sp = space_update [OF assms(1,2) lo(1) sub lo(4)]
  have free: "space (rs[i := lo]) y = None" if "covers hi y" for y
    using that sp [of y] lo hi sub(1) assms(3) \<open>rb lo < re lo\<close> by (auto simp: covers_def)
  have "space rs' x = (if covers hi x then Some (region_val hi) else space (rs[i := lo]) x)"
    by (rule table.ins_meaning [OF wf hi(1) free ins])
  moreover have "space rs x = Some (region_val (rs ! i))" if "covers (rs ! i) x"
    using space_covers [OF assms(1) nth_mem [OF assms(2)] that] .
  moreover have "regions_wf rs'" by (rule table.ins_wf [OF wf hi(1) free ins])
  ultimately show ?thesis
    using sp [of x] lo hi assms(3) \<open>rb lo < re lo\<close> \<open>rb hi < re hi\<close>
    by (auto simp: covers_def word_le_nat_alt word_less_nat_alt)
qed

text \<open>One round, by what it finds at the index.\<close>

lemma unmap_round_cases:
  assumes "regions_wf (regions s)" "i < length (regions s)" "a < e" "page_aligned a" "page_aligned e"
    and "unmap_round os a e i ret s = (j, c, ret', s')"
  obtains (out) "out_of a e (regions s ! i)" "j = Suc i" "c" "ret' = ret" "s' = s"
  | (cut) "\<not> out_of a e (regions s ! i)" "c" "ret' = 0" "regions_wf (regions s')"
      "\<And>x. space (regions s') x = (if covers (regions s ! i) x \<and> a \<le> x \<and> x < e then None else space (regions s) x)"
      "j = i \<or> j = Suc i \<and> i < length (regions s') \<and> out_of a e (regions s' ! i)"
      "\<And>k. k < i \<Longrightarrow> regions s' ! k = regions s ! k"
  | (split) "\<not> c" "ret' = 0" "regions_wf (regions s')"
      "\<And>x. space (regions s') x = (if a \<le> x \<and> x < e then None else space (regions s) x)"
      "rb (regions s ! i) < unat a" "unat e < re (regions s ! i)"
  | (full) "\<not> c" "ret' = ret" "regions s' = regions s" "length (regions s) = MMAN_MAX_REGIONS"
      "rb (regions s ! i) < unat a" "unat e < re (regions s ! i)"
proof -
  define r where "r = regions s ! i"
  define us where "us = (if a > r_addr r then a else r_addr r)"
  define ue where "ue = (if e < r_addr r + r_len r then e else r_addr r + r_len r)"
  define s1 where "s1 = (if r_uid r \<ge> 0 then snd (sys os (Ku (kuKernelMemDecommit us (ue - us))) s) else s)"
  have rin: "r \<in> set (regions s)" using assms(2) by (simp add: r_def)
  then have ok: "region_ok r" using assms(1) by (auto simp: regions_wf_def)
  have u: "unat (r_addr r + r_len r) = re r" "unat (r_addr r) = rb r"
    using ok by (simp_all add: unat_region_end rb_def)
  have s1: "regions s1 = regions s" by (simp add: s1_def)
  have run: "unmap_round os a e i ret s =
     (if out_of a e r then (Suc i, True, ret, s)
      else if us = r_addr r \<and> ue = r_addr r + r_len r then
              (i, True, 0, release_reservation os (r_uid r) (set_regions (region_remove i (regions s)) s1))
      else if us = r_addr r then
              (Suc i, True, 0, set_regions ((regions s)[i := r\<lparr>r_addr := ue, r_len := r_addr r + r_len r - ue\<rparr>]) s1)
      else if ue = r_addr r + r_len r then
              (Suc i, True, 0, set_regions ((regions s)[i := r\<lparr>r_len := us - r_addr r\<rparr>]) s1)
      else (case region_insert \<lparr>r_addr = ue, r_len = r_addr r + r_len r - ue, r_uid = r_uid r, r_prot = r_prot r\<rparr>
                   ((regions s)[i := r\<lparr>r_len := us - r_addr r\<rparr>]) of
                 None \<Rightarrow> (i, False, ret, set_regions ((regions s)[i := r\<lparr>r_len := us - r_addr r\<rparr>, i := r\<lparr>r_len := r_addr r + r_len r - r_addr r\<rparr>]) s1)
               | Some rs' \<Rightarrow> (i, False, 0, set_regions rs' s1)))"
    unfolding unmap_round_def Let_def r_def [symmetric] us_def [symmetric] ue_def [symmetric] s1_def [symmetric]
      out_of_word [OF ok] s1 by (rule refl)
  show ?thesis
  proof (cases "out_of a e r")
    case True
    then show ?thesis using out run assms(6) by (simp add: r_def)
  next
    case False
    then have ov: "unat a < re r" "rb r < unat e" by (simp_all add: out_of_def)
    have ae: "unat a < unat e" using assms(3) by (simp add: word_less_nat_alt)
    have us: "us = r_addr r \<longleftrightarrow> unat a \<le> rb r" "rb r < unat a \<Longrightarrow> us = a"
      by (auto simp: us_def word_less_nat_alt rb_def)
    have ue: "ue = r_addr r + r_len r \<longleftrightarrow> re r \<le> unat e" "unat e < re r \<Longrightarrow> ue = e"
      using u by (auto simp: ue_def word_less_nat_alt)
    let ?lo = "r\<lparr>r_len := us - r_addr r\<rparr>"
    let ?hi = "r\<lparr>r_addr := ue, r_len := r_addr r + r_len r - ue\<rparr>"
    have lo: "region_ok ?lo \<and> rb ?lo = rb r \<and> re ?lo = unat a" if "rb r < unat a"
      using lower_piece [OF ok that ov(1) assms(4), of ?lo] us(2) [OF that] by simp
    have hi: "region_ok ?hi \<and> rb ?hi = unat e \<and> re ?hi = re r" if "unat e < re r"
      using upper_piece [OF ok ov(2) that assms(5), of ?hi] ue(2) [OF that] by simp
    note word = covers_def word_le_nat_alt word_less_nat_alt
    consider (whole) "unat a \<le> rb r" "re r \<le> unat e" | (head) "unat a \<le> rb r" "unat e < re r"
      | (tail) "rb r < unat a" "re r \<le> unat e" | (inner) "rb r < unat a" "unat e < re r" by linarith
    then show ?thesis
    proof cases
      case whole
      then have rs': "regions s' = region_remove i (regions s)" "j = i" "c" "ret' = 0"
        using run assms(6) False us(1) ue(1) by auto
      show ?thesis
      proof (rule cut)
        show "space (regions s') x = (if covers (regions s ! i) x \<and> a \<le> x \<and> x < e then None else space (regions s) x)" for x
          using whole region_remove_wf(2) [OF assms(1,2), of x] rs' by (auto simp: word simp flip: r_def)
      qed (use rs' region_remove_wf(1) [OF assms(1,2)] False assms(2) in
            \<open>auto simp: region_remove_def nth_append r_def\<close>)
    next
      case head
      then have rs': "regions s' = (regions s)[i := ?hi]" "j = Suc i" "c" "ret' = 0"
        using run assms(6) False us(1) ue(1) by auto
      have cv: "covers r x \<Longrightarrow> covers ?hi x \<longleftrightarrow> \<not> (a \<le> x \<and> x < e)" for x
        using hi [OF head(2)] head by (auto simp: word)
      have sc: "regions_wf ((regions s)[i := ?hi]) \<and> space ((regions s)[i := ?hi]) x =
          (if covers (regions s ! i) x \<and> a \<le> x \<and> x < e then None else space (regions s) x)" for x
        using hi [OF head(2)] ov(2) cv
        by (intro space_cut [OF assms(1,2)]) (auto simp: region_val_def simp flip: r_def)
      show ?thesis
      proof (rule cut)
        show "j = i \<or> j = Suc i \<and> i < length (regions s') \<and> out_of a e (regions s' ! i)"
          using rs' assms(2) hi [OF head(2)] by (simp add: out_of_def)
      qed (use rs' sc False in \<open>auto simp: r_def\<close>)
    next
      case tail
      then have rs': "regions s' = (regions s)[i := ?lo]" "j = Suc i" "c" "ret' = 0"
        using run assms(6) False us(1) ue(1) by auto
      have cv: "covers r x \<Longrightarrow> covers ?lo x \<longleftrightarrow> \<not> (a \<le> x \<and> x < e)" for x
        using lo [OF tail(1)] tail by (auto simp: word)
      have sc: "regions_wf ((regions s)[i := ?lo]) \<and> space ((regions s)[i := ?lo]) x =
          (if covers (regions s ! i) x \<and> a \<le> x \<and> x < e then None else space (regions s) x)" for x
        using lo [OF tail(1)] ov(1) cv
        by (intro space_cut [OF assms(1,2)]) (auto simp: region_val_def simp flip: r_def)
      show ?thesis
      proof (rule cut)
        show "j = i \<or> j = Suc i \<and> i < length (regions s') \<and> out_of a e (regions s' ! i)"
          using rs' assms(2) lo [OF tail(1)] by (simp add: out_of_def)
      qed (use rs' sc False in \<open>auto simp: r_def\<close>)
    next
      case inner
      let ?rs = "(regions s)[i := ?lo]"
      let ?h = "\<lparr>r_addr = ue, r_len = r_addr r + r_len r - ue, r_uid = r_uid r, r_prot = r_prot r\<rparr>"
      have h: "?h = ?hi" by (cases r) simp
      have restore: "?rs[i := r\<lparr>r_len := r_addr r + r_len r - r_addr r\<rparr>] = regions s"
        using assms(2) by (simp add: r_def)
      have ne: "us \<noteq> r_addr r" "ue \<noteq> r_addr r + r_len r" using inner us(1) ue(1) by auto
      show ?thesis
      proof (cases "region_insert ?h ?rs")
        case None
        then have "length (regions s) \<ge> MMAN_MAX_REGIONS"
          by (simp add: region_insert_def Let_def split: if_splits)
        then have "length (regions s) = MMAN_MAX_REGIONS" using assms(1) by (simp add: regions_wf_def)
        then show ?thesis
          using full run assms(6) False None ne restore inner by (simp add: r_def)
      next
        case (Some rs')
        then have ins: "region_insert ?hi ?rs = Some rs'" unfolding h .
        have "regions_wf rs' \<and> space rs' x = (if a \<le> x \<and> x < e then None else space (regions s) x)" for x
          using space_split [OF assms(1,2) ae, of ?lo ?hi rs' x] lo [OF inner(1)] hi [OF inner(2)] ins
          by (simp add: region_val_def flip: r_def)
        then show ?thesis
          using split run assms(6) False Some ne inner by (simp add: r_def)
      qed
    qed
  qed
qed

section \<open>The loop\<close>

text \<open>The two outcomes of unmapping, from the value \<open>ret\<close> and the table \<open>rs\<close> on.\<close>

definition unmap_outcome ::
  "addr \<Rightarrow> addr \<Rightarrow> int \<Rightarrow> mman_region list \<Rightarrow> int \<Rightarrow> mman_region list \<Rightarrow> bool" where
  "unmap_outcome a e ret rs ret' rs' \<longleftrightarrow>
     (regions_wf rs' \<and> (\<forall>x. space rs' x = (if a \<le> x \<and> x < e then None else space rs x)) \<and>
      ret' = (if \<exists>x. a \<le> x \<and> x < e \<and> space rs x \<noteq> None then 0 else ret)) \<or>
     (length rs = MMAN_MAX_REGIONS \<and> (\<exists>r \<in> set rs. rb r < unat a \<and> unat e < re r) \<and> rs' = rs \<and> ret' = ret)"

lemma unmap_loop_spec:
  assumes "regions_wf (regions s)" "a < e" "page_aligned a" "page_aligned e"
    and "\<forall>k<i. k < length (regions s) \<longrightarrow> out_of a e (regions s ! k)"
    and "unmap_loop os a e i ret s = (ret', s')"
  shows "unmap_outcome a e ret (regions s) ret' (regions s')"
  using assms
proof (induction os a e i ret s arbitrary: ret' s' rule: unmap_loop.induct)
  case (1 os a e i ret s)
  note IH = "1.IH" and wf = "1.prems"(1) and ae = "1.prems"(2) and out = "1.prems"(5)
  show ?case
  proof (cases "i < length (regions s)")
    case False
    then have all: "\<forall>r \<in> set (regions s). out_of a e r" using out by (auto simp: in_set_conv_nth)
    have none: "space (regions s) x = None" if "a \<le> x \<and> x < e" for x
      using all that out_of_covers by (fastforce simp: space_None [OF wf])
    show ?thesis using False none wf "1.prems"(6) by (auto simp: unmap_loop.simps [of os a e i] unmap_outcome_def)
  next
    case True
    obtain j c r1 s1 where round: "unmap_round os a e i ret s = (j, c, r1, s1)" by (metis prod_cases4)
    have loop: "(ret', s') = (if c then unmap_loop os a e j r1 s1 else (r1, s1))"
      using "1.prems"(6) True round by (simp add: unmap_loop.simps [of os a e i] split: bool.splits)
    have hit: "\<exists>x. a \<le> x \<and> x < e \<and> covers (regions s ! i) x" if "\<not> out_of a e (regions s ! i)"
      using not_out_of [of "regions s ! i", OF _ ae that] wf True by (auto simp: regions_wf_def)
    have mapped: "covers (regions s ! i) x \<Longrightarrow> space (regions s) x \<noteq> None" for x
      using space_covers [OF wf nth_mem [OF True]] by simp
    from wf True ae "1.prems"(3,4) round show ?thesis
    proof (cases rule: unmap_round_cases)
      case o: out
      then have "\<forall>k<Suc i. k < length (regions s) \<longrightarrow> out_of a e (regions s ! k)"
        using out by (auto simp: less_Suc_eq)
      then show ?thesis
        using IH [OF True round [symmetric] refl _ refl, of ret' s'] o(2-5) wf ae "1.prems"(3,4) loop by simp
    next
      case cut
      have "\<forall>k<j. k < length (regions s1) \<longrightarrow> out_of a e (regions s1 ! k)"
        using out cut(6,7) True by (auto simp: less_Suc_eq)
      then have ih: "(regions_wf (regions s') \<and>
            (\<forall>x. space (regions s') x = (if a \<le> x \<and> x < e then None else space (regions s1) x)) \<and> ret' = 0) \<or>
          (\<exists>r \<in> set (regions s1). rb r < unat a \<and> unat e < re r)"
        using IH [OF True round [symmetric] refl _ refl, of ret' s'] cut(2-4) loop ae "1.prems"(3,4)
        unfolding unmap_outcome_def by auto
      obtain x where x: "a \<le> x" "x < e" "covers (regions s ! i) x" using hit cut(1) by blast
      have "space (regions s1) x = None" using cut(5) x by simp
      then have "\<not> (\<exists>r \<in> set (regions s1). rb r < unat a \<and> unat e < re r)"
        using x by (auto simp: space_None [OF cut(4)] covers_def word_le_nat_alt word_less_nat_alt)
      then have "regions_wf (regions s')" "ret' = 0"
          "\<And>x. space (regions s') x = (if a \<le> x \<and> x < e then None else space (regions s) x)"
        using ih cut(5) by auto
      moreover have "\<exists>x. a \<le> x \<and> x < e \<and> space (regions s) x \<noteq> None" using x mapped by blast
      ultimately show ?thesis unfolding unmap_outcome_def by simp
    next
      case split
      have "a \<le> a" "a < e" "covers (regions s ! i) a"
        using split(5,6) ae by (auto simp: covers_def word_less_nat_alt)
      then have "\<exists>x. a \<le> x \<and> x < e \<and> space (regions s) x \<noteq> None" using mapped by blast
      then show ?thesis using split(1-4) loop unfolding unmap_outcome_def by simp
    next
      case full
      then show ?thesis using loop nth_mem [OF True] unfolding unmap_outcome_def by auto
    qed
  qed
qed

lemma mutex_round: "mman_mutex (snd (snd (snd (unmap_round os a e i ret s)))) = mman_mutex s"
  by (simp add: unmap_round_def Let_def mman_frame split: option.splits)

lemma mutex_loop: "mman_mutex (snd (unmap_loop os a e i ret s)) = mman_mutex s"
proof (induction os a e i ret s rule: unmap_loop.induct)
  case (1 os a e i ret s)
  obtain j c r1 s1 where round: "unmap_round os a e i ret s = (j, c, r1, s1)" by (metis prod_cases4)
  show ?case using 1 [OF _ round [symmetric] refl _ refl] mutex_round [of os a e i ret s] round
    by (simp add: unmap_loop.simps [of os a e i ret s] split: bool.splits)
qed

lemma mman_unmap_outcome:
  assumes "regions_wf (regions s)" "mman_ready s" "page_aligned a" "MMAN_PAGE_ALIGN len \<noteq> 0"
    and "unat a + unat (MMAN_PAGE_ALIGN len) < 2 ^ 32" "mman_unmap os a len s = (ret, s')"
  shows "unmap_outcome a (a + MMAN_PAGE_ALIGN len) (- 1) (regions s) ret (regions s')"
proof -
  let ?e = "a + MMAN_PAGE_ALIGN len"
  have e: "unat ?e = unat a + unat (MMAN_PAGE_ALIGN len)" using assms(5) by (rule unat_add32)
  have ae: "a < ?e" using e assms(4) by (simp add: word_less_nat_alt unat_gt_0)
  have al: "page_aligned ?e" using assms(3,5) by (intro page_aligned_add) auto
  obtain s1 where l: "unmap_loop os a ?e 0 (- 1) (lock_mman s) = (ret, s1)" "s' = unlock_mman s1"
    using assms(2,4,6) by (auto simp: mman_unmap_def Let_def split: prod.splits)
  then show ?thesis
    using unmap_loop_spec [of "lock_mman s" a ?e 0 os "- 1" ret s1] assms(1,3) ae al by simp
qed

section \<open>Properties\<close>

text \<open>C16 (refinement): \<^verbatim>\<open>__mman_unmap\<close> on a page-aligned range that does not wrap removes exactly
  that range, rounded up to pages, from the address space and keeps the table well-formed; it
  returns 0 exactly when some address of the range was mapped. The one exception: when the table
  is full and the range lies strictly inside a region, splitting fails and \<open>-1\<close> is returned with
  the table unchanged.\<close>

theorem mman_unmap_removes:
  assumes "regions_wf (regions s)" "mman_ready s" "page_aligned a" "MMAN_PAGE_ALIGN len \<noteq> 0"
    and "unat a + unat (MMAN_PAGE_ALIGN len) < 2 ^ 32" "mman_unmap os a len s = (ret, s')"
  shows "(regions_wf (regions s') \<and>
      (\<forall>x. space (regions s') x =
         (if a \<le> x \<and> x < a + MMAN_PAGE_ALIGN len then None else space (regions s) x)) \<and>
      (ret = 0 \<longleftrightarrow> (\<exists>x. a \<le> x \<and> x < a + MMAN_PAGE_ALIGN len \<and> space (regions s) x \<noteq> None)) \<and>
      ret \<in> {0, - 1}) \<or>
    (ret = - 1 \<and> regions s' = regions s \<and> length (regions s) = MMAN_MAX_REGIONS \<and>
      (\<exists>r \<in> set (regions s). rb r < unat a \<and> unat a + unat (MMAN_PAGE_ALIGN len) < re r))"
  using mman_unmap_outcome [OF assms] unat_add32 [OF assms(5)]
  unfolding unmap_outcome_def by (elim disjE) (simp_all split: if_splits)

text \<open>A table with one mapping of three pages, for the witnesses.\<close>

definition demo_mman :: "unit mman_state" where
  "demo_mman = fd_state.extend (blank_state ())
     \<lparr>regions = [\<lparr>r_addr = 0x80000000, r_len = 0x3000, r_uid = - 1, r_prot = 3\<rparr>], mman_mutex = 0,
      mman_ready = True, have_kubridge = False, vm_uid = 7, vm_base = 0x80000000\<rparr>"

lemma demo_mman_simps [simp]:
  "regions demo_mman = [\<lparr>r_addr = 0x80000000, r_len = 0x3000, r_uid = - 1, r_prot = 3\<rparr>]"
  "mman_ready demo_mman" "\<not> have_kubridge demo_mman" "vm_uid demo_mman = 7"
  "vm_base demo_mman = 0x80000000" "mman_mutex demo_mman = 0"
  by (simp_all add: demo_mman_def fd_state.defs blank_state_def)

lemma demo_wf: "regions_wf (regions demo_mman)"
  by (simp add: regions_wf_def region_ok_def page_aligned_def re_def MMAN_MAX_REGIONS_def)

lemma demo_space: "space (regions demo_mman) a = (if 0x80000000 \<le> a \<and> a < 0x80003000 then Some (- 1, 3) else None)"
  by (simp add: space_def region_find_def first_index.simps region_val_def)

lemma align_1: "MMAN_PAGE_ALIGN 1 = 0x1000"
  by (simp add: MMAN_PAGE_ALIGN_def MMAN_PAGE_SIZE_def)

theorem mman_unmap_removes_witness:
  "fst (mman_unmap quiet_os 0x80001000 1 demo_mman) = 0 \<and>
   space (regions (snd (mman_unmap quiet_os 0x80001000 1 demo_mman))) 0x80001800 = None \<and>
   space (regions (snd (mman_unmap quiet_os 0x80001000 1 demo_mman))) 0x80002000 = Some (- 1, 3)"
proof -
  have "page_aligned 0x80001000" by (simp add: page_aligned_def)
  moreover have "\<exists>x. 0x80001000 \<le> x \<and> x < 0x80002000 \<and> space (regions demo_mman) x \<noteq> None"
    by (rule exI [of _ "0x80001000"]) (simp only: demo_space, simp)
  ultimately show ?thesis
    using mman_unmap_removes [OF demo_wf demo_mman_simps(2), where a = "0x80001000" and len = 1
        and os = quiet_os, OF _ _ _ prod.collapse [symmetric]]
    unfolding demo_space by (simp add: align_1 MMAN_MAX_REGIONS_def)
qed

end
