(* ===== verification/Mman_Ops.thy ===== *)
theory Mman_Ops
  imports Mman_Unmap
begin

text \<open>
  Creating, resizing, protecting and querying mappings: \<open>__mman_map\<close> with its two allocators,
  \<open>__mman_resize\<close>, \<open>__mman_protect\<close>, \<open>__mman_mapped\<close> and \<open>__mman_discard\<close> against the address
  space of \<open>Mman_Regions\<close>.
\<close>

section \<open>The invariant of the component\<close>

definition pool_ok :: "addr \<Rightarrow> bool" where
  "pool_ok b \<longleftrightarrow> b \<noteq> 0 \<and> page_aligned b \<and> unat b + unat MMAN_VM_POOL_SIZE < 2 ^ 32"

definition in_pool :: "addr \<Rightarrow> mman_region \<Rightarrow> bool" where
  "in_pool b r \<longleftrightarrow> unat b \<le> rb r \<and> re r \<le> unat b + unat MMAN_VM_POOL_SIZE"

definition mman_wf :: "('w, 'z) mman_state_scheme \<Rightarrow> bool" where
  "mman_wf s \<longleftrightarrow> regions_wf (regions s) \<and> (0 \<le> vm_uid s \<longrightarrow> pool_ok (vm_base s)) \<and>
     (\<forall>r \<in> set (regions s). if have_kubridge s then 0 \<le> r_uid r
        else r_uid r < 0 \<and> 0 \<le> vm_uid s \<and> in_pool (vm_base s) r)"

text \<open>
  What the platform promises: the base of a VM block is a page-aligned address with the whole
  pool below the end of the address space; a successful reservation is page aligned, does not
  reach the end of the address space and shares no address with a region in use.
\<close>

definition pool_contract :: "'w services \<Rightarrow> bool" where
  "pool_contract os \<longleftrightarrow>
     (\<forall>uid w. 0 \<le> rp_ret (fst (os (Kernel (sceKernelGetMemBlockBase uid)) w)) \<longrightarrow>
        pool_ok (word_of_int (outp (fst (os (Kernel (sceKernelGetMemBlockBase uid)) w)) 0 0)))"

definition reserve_contract :: "'w services \<Rightarrow> addr \<Rightarrow> size_t \<Rightarrow> ('w, 'z) mman_state_scheme \<Rightarrow> bool" where
  "reserve_contract os hint len s \<longleftrightarrow>
     (let r = fst (os (Ku (kuKernelMemReserve hint len)) (world s));
          base = word_of_int (outp r 0 (uint hint))
      in 0 \<le> rp_ret r \<longrightarrow> base \<noteq> 0 \<and> page_aligned base \<and> unat base + unat len < 2 ^ 32 \<and>
           (\<forall>x. base \<le> x \<and> x < base + len \<longrightarrow> space (regions s) x = None))"

section \<open>Creating mappings\<close>

text \<open>The outcome of a mapping operation: failure changes nothing, success maps fresh addresses.\<close>

definition maps_fresh ::
  "size_t \<Rightarrow> int \<Rightarrow> ('w, 'z) mman_state_scheme \<Rightarrow> addr \<times> int \<Rightarrow> ('w, 'z) mman_state_scheme \<Rightarrow> bool" where
  "maps_fresh len prot s res s' \<longleftrightarrow>
     (fst res = 0 \<and> snd res \<noteq> 0 \<and> regions s' = regions s) \<or>
     (fst res \<noteq> 0 \<and> snd res = 0 \<and> page_aligned (fst res) \<and> unat (fst res) + unat len < 2 ^ 32 \<and>
      (\<forall>x. fst res \<le> x \<and> x < fst res + len \<longrightarrow> space (regions s) x = None) \<and>
      (\<exists>uid. (0 \<le> uid \<longleftrightarrow> have_kubridge s) \<and>
         (\<forall>x. space (regions s') x =
            (if fst res \<le> x \<and> x < fst res + len then Some (uid, prot) else space (regions s) x))) \<and>
      (\<exists>r \<in> set (regions s'). r_addr r = fst res \<and> r_len r = len))"

lemma covers_new:
  assumes "r_addr r = p" "r_len r = len" "unat p + unat len < 2 ^ 32"
  shows "covers r x \<longleftrightarrow> p \<le> x \<and> x < p + len"
  using assms unat_add32 [of p len] by (auto simp: covers_def rb_def re_def word_le_nat_alt word_less_nat_alt)

lemma insert_maps_fresh:
  assumes "regions_wf (regions s)" "page_aligned p" "page_aligned len" "len \<noteq> 0" "p \<noteq> 0"
    and "unat p + unat len < 2 ^ 32" "\<forall>x. p \<le> x \<and> x < p + len \<longrightarrow> space (regions s) x = None"
    and "region_insert \<lparr>r_addr = p, r_len = len, r_uid = uid, r_prot = prot\<rparr> (regions s) = Some rs"
    and "0 \<le> uid \<longleftrightarrow> have_kubridge s" "regions s' = rs"
  shows "regions_wf rs \<and> set rs = insert \<lparr>r_addr = p, r_len = len, r_uid = uid, r_prot = prot\<rparr> (set (regions s)) \<and>
    maps_fresh len prot s (p, 0) s'"
proof -
  let ?r = "\<lparr>r_addr = p, r_len = len, r_uid = uid, r_prot = prot\<rparr>"
  have ok: "region_ok ?r" using assms(2-4,6) by (simp add: region_ok_def re_def)
  have cv: "covers ?r x \<longleftrightarrow> p \<le> x \<and> x < p + len" for x using covers_new [of ?r p len] assms(6) by simp
  have free: "covers ?r x \<Longrightarrow> space (regions s) x = None" for x using cv assms(7) by blast
  have "space rs x = (if covers ?r x then Some (uid, prot) else space (regions s) x)" for x
    using table.ins_meaning [OF assms(1) ok free assms(8), of x] by (simp add: region_val_def)
  moreover have "set rs = insert ?r (set (regions s))" "regions_wf rs"
    using region_insert_wf [OF assms(1) ok free_region_apart [OF assms(1) ok free] assms(8)] by simp_all
  ultimately show ?thesis
    using assms(2,5,6,7,9,10) by (auto simp: maps_fresh_def cv)
qed

lemma map_kubridge_spec:
  assumes "mman_wf s" "have_kubridge s" "page_aligned len" "len \<noteq> 0" "reserve_contract os hint len s"
    and "map_kubridge os hint len prot s = (res, s')"
  shows "mman_wf s' \<and> maps_fresh len prot s res s'"
proof -
  let ?r = "fst (os (Ku (kuKernelMemReserve hint len)) (world s))"
  let ?base = "word_of_int (outp ?r 0 (uint hint)) :: addr"
  let ?n = "\<lparr>r_addr = ?base, r_len = len, r_uid = rp_ret ?r, r_prot = prot\<rparr>"
  have wf: "regions_wf (regions s)" using assms(1) by (simp add: mman_wf_def)
  have fail: "mman_wf s' \<and> maps_fresh len prot s res s'"
    if "res = (0, ENOMEM)" "regions s' = regions s" "vm_uid s' = vm_uid s" "vm_base s' = vm_base s"
      "have_kubridge s' = have_kubridge s"
    using that assms(1) by (simp add: mman_wf_def maps_fresh_def)
  show ?thesis
  proof (cases "0 \<le> rp_ret ?r \<and> fst res \<noteq> 0")
    case False
    then have "res = (0, ENOMEM) \<and> regions s' = regions s \<and> vm_uid s' = vm_uid s \<and> vm_base s' = vm_base s \<and>
        have_kubridge s' = have_kubridge s"
      using assms(5,6)
      by (auto simp: map_kubridge_def Let_def case_prod_beta fst_sys_world sys_ret_def reserve_contract_def
          split: if_splits option.splits)
    then show ?thesis using fail by blast
  next
    case True
    then have c: "?base \<noteq> 0" "page_aligned ?base" "unat ?base + unat len < 2 ^ 32"
      "\<forall>x. ?base \<le> x \<and> x < ?base + len \<longrightarrow> space (regions s) x = None"
      using assms(5) by (auto simp: reserve_contract_def Let_def)
    from True obtain rs where rs: "region_insert ?n (regions s) = Some rs" "res = (?base, 0)" "regions s' = rs"
        "vm_uid s' = vm_uid s" "vm_base s' = vm_base s" "have_kubridge s' = have_kubridge s"
      using assms(6)
      by (auto simp: map_kubridge_def Let_def case_prod_beta fst_sys_world sys_ret_def split: if_splits option.splits)
    have "regions_wf rs \<and> set rs = insert ?n (set (regions s)) \<and> maps_fresh len prot s (?base, 0) s'"
      using True assms(2) rs by (intro insert_maps_fresh [OF wf c(2) assms(3,4) c(1,3,4)]) auto
    then show ?thesis using assms(1,2) rs True by (auto simp: mman_wf_def)
  qed
qed

lemma vm_pool_init_spec:
  assumes "mman_wf s" "pool_contract os" "vm_pool_init os s = (i, s1)"
  shows "regions s1 = regions s \<and> have_kubridge s1 = have_kubridge s \<and>
    (vm_uid s \<ge> 0 \<longrightarrow> s1 = s \<and> i = 0) \<and> (0 \<le> i \<longrightarrow> 0 \<le> vm_uid s1 \<and> pool_ok (vm_base s1)) \<and>
    (i < 0 \<longrightarrow> vm_uid s1 = vm_uid s \<and> vm_base s1 = vm_base s)"
  using assms
  by (auto simp: vm_pool_init_def Let_def case_prod_beta sys_ret_def fst_sys_world pool_contract_def mman_wf_def
      split: if_splits)

lemma pool_scan_aligned:
  "page_aligned cand \<Longrightarrow> \<forall>r \<in> set rs. region_ok r \<Longrightarrow> page_aligned (pool_scan rs len cand)"
proof (induction rs len cand rule: pool_scan.induct)
  case (2 r rs len cand)
  have "page_aligned (r_addr r + r_len r)"
    using 2(4) by (intro page_aligned_add) (auto simp: region_ok_def re_def)
  then show ?case using 2 by (simp add: Let_def)
qed simp

lemma unat_pool_end: "pool_ok b \<Longrightarrow> unat (b + MMAN_VM_POOL_SIZE) = unat b + unat MMAN_VM_POOL_SIZE"
  by (simp add: pool_ok_def unat_add32)

lemma vm_pool_alloc_nonzero:
  assumes "pool_ok (vm_base s)"
  shows "vm_pool_alloc len s \<noteq> 0 \<longleftrightarrow>
    unat (pool_scan (regions s) len (vm_base s)) + unat len \<le> unat (vm_base s) + unat MMAN_VM_POOL_SIZE"
    and "vm_pool_alloc len s \<noteq> 0 \<Longrightarrow> vm_pool_alloc len s = pool_scan (regions s) len (vm_base s)"
proof -
  let ?c = "pool_scan (regions s) len (vm_base s)" and ?e = "vm_base s + MMAN_VM_POOL_SIZE"
  have "vm_base s \<noteq> 0" using assms by (simp add: pool_ok_def)
  then have nz: "?c \<noteq> 0" using pool_scan_ge [of "vm_base s" "regions s" len] by (metis word_le_0_iff)
  have "?c > ?e \<or> ?e - ?c < len \<longleftrightarrow> \<not> unat ?c + unat len \<le> unat ?e"
    by (auto simp: word_less_nat_alt word_le_nat_alt unat_sub_if' split: if_splits)
  then show "vm_pool_alloc len s \<noteq> 0 \<longleftrightarrow> unat ?c + unat len \<le> unat (vm_base s) + unat MMAN_VM_POOL_SIZE"
    using nz unat_pool_end [OF assms] by (auto simp: vm_pool_alloc_def Let_def)
  show "vm_pool_alloc len s \<noteq> 0 \<Longrightarrow> vm_pool_alloc len s = ?c"
    by (auto simp: vm_pool_alloc_def Let_def split: if_splits)
qed

lemma vm_pool_alloc_spec:
  assumes "regions_wf (regions s)" "\<forall>r \<in> set (regions s). r_uid r < 0" "pool_ok (vm_base s)"
    and "vm_pool_alloc len s = p" "p \<noteq> 0"
  shows "page_aligned p \<and> unat (vm_base s) \<le> unat p \<and>
    unat p + unat len \<le> unat (vm_base s) + unat MMAN_VM_POOL_SIZE \<and>
    (\<forall>r \<in> set (regions s). re r \<le> unat p \<or> unat p + unat len \<le> rb r)"
proof -
  have nz: "vm_pool_alloc len s \<noteq> 0" using assms(4,5) by simp
  have p: "p = pool_scan (regions s) len (vm_base s)"
    using vm_pool_alloc_nonzero(2) [OF assms(3) nz] assms(4) by simp
  have le: "unat p + unat len \<le> unat (vm_base s) + unat MMAN_VM_POOL_SIZE"
    unfolding p by (rule vm_pool_alloc_nonzero(1) [OF assms(3), THEN iffD1, OF nz])
  then have lt: "unat p + unat len < 2 ^ 32" using assms(3) by (simp add: pool_ok_def)
  have "\<forall>r \<in> set (regions s). re r \<le> unat p \<or> unat p + unat len \<le> rb r"
    using pool_scan_apart [of "regions s" len "vm_base s"] assms(1,2) lt p by (auto simp: regions_wf_def)
  moreover have "page_aligned p"
    using pool_scan_aligned assms(1,3) p by (auto simp: pool_ok_def regions_wf_def)
  ultimately show ?thesis
    using le pool_scan_ge [of "vm_base s" "regions s" len] p by (simp add: word_le_nat_alt)
qed

lemma map_pool_spec:
  assumes "mman_wf s" "\<not> have_kubridge s" "page_aligned len" "len \<noteq> 0" "pool_contract os"
    and "map_pool os len prot s = (res, s')"
  shows "mman_wf s' \<and> maps_fresh len prot s res s'"
proof -
  obtain i s1 where init: "vm_pool_init os s = (i, s1)" by fastforce
  note i = vm_pool_init_spec [OF assms(1,5) init]
  have wf: "regions_wf (regions s)" "\<forall>r \<in> set (regions s). r_uid r < 0 \<and> 0 \<le> vm_uid s \<and> in_pool (vm_base s) r"
    using assms(1,2) by (auto simp: mman_wf_def)
  have wf1: "mman_wf s1" using assms(1,2) i by (auto simp: mman_wf_def) 
  let ?p = "vm_pool_alloc len s1"
  let ?n = "\<lparr>r_addr = ?p, r_len = len, r_uid = - 1, r_prot = prot\<rparr>"
  show ?thesis
  proof (cases "0 \<le> i \<and> ?p \<noteq> 0 \<and> region_insert ?n (regions s1) \<noteq> None")
    case False
    then have "res = (0, ENOMEM) \<and> s' = s1"
      using assms(6) init by (auto simp: map_pool_def Let_def split: if_splits option.splits)
    then show ?thesis using wf1 i by (simp add: maps_fresh_def)
  next
    case True
    then obtain rs where rs: "region_insert ?n (regions s1) = Some rs" "res = (?p, 0)" "s' = set_regions rs s1"
      using assms(6) init by (auto simp: map_pool_def Let_def split: if_splits option.splits)
    have pool: "pool_ok (vm_base s1)" "0 \<le> vm_uid s1" using i True by auto
    have a: "page_aligned ?p" "unat (vm_base s1) \<le> unat ?p"
        "unat ?p + unat len \<le> unat (vm_base s1) + unat MMAN_VM_POOL_SIZE"
        "\<forall>r \<in> set (regions s). re r \<le> unat ?p \<or> unat ?p + unat len \<le> rb r"
      using vm_pool_alloc_spec [of s1 len ?p] wf i pool True by auto
    have lt: "unat ?p + unat len < 2 ^ 32" using a(3) pool(1) by (simp add: pool_ok_def)
    have "\<forall>x. ?p \<le> x \<and> x < ?p + len \<longrightarrow> space (regions s) x = None"
      using a(4) unat_add32 [OF lt]
      by (fastforce simp: space_None [OF wf(1)] covers_def word_le_nat_alt word_less_nat_alt)
    then have "regions_wf rs \<and> set rs = insert ?n (set (regions s)) \<and> maps_fresh len prot s (?p, 0) s'"
      using insert_maps_fresh [OF wf(1) a(1) assms(3,4) _ lt, of "- 1" prot rs s'] True rs i assms(2) by auto
    moreover have "in_pool (vm_base s1) ?n" using a(2,3) by (simp add: in_pool_def rb_def re_def)
    ultimately show ?thesis using rs wf1 pool i assms(2) by (auto simp: mman_wf_def)
  qed
qed

lemma lock_transparent [simp]:
  "mman_wf (lock_mman s) = mman_wf s" "mman_wf (unlock_mman s) = mman_wf s"
  "maps_fresh len prot (lock_mman s) res s' = maps_fresh len prot s res s'"
  "maps_fresh len prot s res (unlock_mman s') = maps_fresh len prot s res s'"
  by (simp_all add: mman_wf_def maps_fresh_def)

section \<open>Queries\<close>

lemma unlock_lock_mman [simp]: "unlock_mman (lock_mman s) = s"
  by (simp add: unlock_mman_def lock_mman_def)

lemma mapped_loop_spec:
  assumes "regions_wf rs"
  shows "mapped_loop rs p e = Some (\<forall>x. p \<le> x \<and> x < e \<longrightarrow> space rs x \<noteq> None)"
proof (induction "unat e - unat p" arbitrary: p rule: less_induct)
  case less
  show ?case
  proof (cases "p < e")
    case False
    then show ?thesis by (auto simp: mapped_loop.simps [of rs p e])
  next
    case True
    show ?thesis
    proof (cases "region_find p rs")
      case None
      then have "space rs p = None" by (simp add: space_def)
      then show ?thesis using True None by (auto simp: mapped_loop.simps [of rs p e])
    next
      case (Some i)
      let ?r = "rs ! i" and ?q = "r_addr (rs ! i) + r_len (rs ! i)"
      have i: "i < length rs" "covers ?r p" using Some region_find_Some [OF assms] by blast+
      then have ok: "region_ok ?r" using assms by (auto simp: regions_wf_def)
      have pq: "unat p < unat ?q" using i(2) unat_region_end [OF ok] by (simp add: covers_def)
      have cov: "space rs x \<noteq> None" if "p \<le> x" "x < ?q" for x
        using that i unat_region_end [OF ok] space_covers [OF assms nth_mem [OF i(1)], of x]
        by (auto simp: covers_def word_le_nat_alt word_less_nat_alt)
      have "mapped_loop rs ?q e = Some (\<forall>x. ?q \<le> x \<and> x < e \<longrightarrow> space rs x \<noteq> None)"
        using pq True by (intro less) (simp add: word_less_nat_alt)
      moreover have "(\<forall>x. ?q \<le> x \<and> x < e \<longrightarrow> space rs x \<noteq> None) = (\<forall>x. p \<le> x \<and> x < e \<longrightarrow> space rs x \<noteq> None)"
        using cov pq by (metis (no_types) le_less_linear less_imp_le order.trans word_less_nat_alt)
      ultimately show ?thesis using True Some by (simp add: mapped_loop.simps [of rs p e])
    qed
  qed
qed

lemma mman_map_spec:
  assumes "mman_wf s" "pool_contract os" "reserve_contract os hint (MMAN_PAGE_ALIGN len) (lock_mman s)"
    and "mman_map os hint len prot s = (res, s')"
  shows "mman_wf s' \<and> maps_fresh (MMAN_PAGE_ALIGN len) prot s res s'"
proof (cases "MMAN_PAGE_ALIGN len = 0 \<or> \<not> mman_ready s \<or> (hint \<noteq> 0 \<and> \<not> have_kubridge s)")
  case True
  then have "s' = s \<and> fst res = 0 \<and> snd res \<noteq> 0" using assms(4) by (auto simp: mman_map_def Let_def split: if_splits)
  then show ?thesis using assms(1) by (simp add: maps_fresh_def)
next
  case False
  let ?n = "MMAN_PAGE_ALIGN len"
  obtain s1 where s1: "(if have_kubridge s then map_kubridge os hint ?n prot (lock_mman s)
      else map_pool os ?n prot (lock_mman s)) = (res, s1)" "s' = unlock_mman s1"
    using assms(4) False by (auto simp: mman_map_def Let_def split: prod.splits if_splits)
  have wf: "mman_wf (lock_mman s)" using assms(1) by simp
  have "mman_wf s1 \<and> maps_fresh ?n prot (lock_mman s) res s1"
  proof (cases "have_kubridge s")
    case True
    then show ?thesis
      using map_kubridge_spec [OF wf _ page_align_aligned _ assms(3), of prot res s1] s1(1) False by simp
  next
    case f: False
    then show ?thesis
      using map_pool_spec [OF wf _ page_align_aligned _ assms(2), of len prot res s1] s1(1) False by simp
  qed
  then show ?thesis using s1(2) by simp
qed

section \<open>Properties\<close>

text \<open>C17 (refinement): \<^verbatim>\<open>__mman_map\<close> keeps the invariant of the component; it either fails with an
  error number and an unchanged table, or returns a page-aligned address different from \<open>NULL\<close>
  such that the whole range, rounded up to pages, was unmapped before, and afterwards exactly that
  range is mapped in addition, with the requested protection.\<close>

theorem mman_map_fresh:
  assumes "mman_wf s" "pool_contract os" "reserve_contract os hint (MMAN_PAGE_ALIGN len) (lock_mman s)"
    and "mman_map os hint len prot s = (res, s')"
  shows "mman_wf s' \<and> maps_fresh (MMAN_PAGE_ALIGN len) prot s res s'"
  using assms by (rule mman_map_spec)

lemma demo_mman_wf: "mman_wf demo_mman"
proof -
  have "unat MMAN_VM_POOL_SIZE = 0x1000000" by (simp add: MMAN_VM_POOL_SIZE_def)
  then show ?thesis
    using demo_wf by (simp add: mman_wf_def in_pool_def pool_ok_def page_aligned_def rb_def re_def)
qed

text \<open>A platform with a VM block and no kubridge reservations.\<close>

definition pool_os :: "sce_call \<Rightarrow> unit \<Rightarrow> reply \<times> unit" where
  "pool_os c w = (case c of
       Kernel (sceKernelGetMemBlockBase uid) \<Rightarrow> ((ret_reply 0)\<lparr>rp_out := [0x80000000]\<rparr>, w)
     | Ku (kuKernelMemReserve hint len) \<Rightarrow> (ret_reply (- 1), w)
     | _ \<Rightarrow> (ret_reply 0, w))"

lemma pool_os_contract: "pool_contract pool_os" "reserve_contract pool_os hint len s"
  by (simp_all add: pool_contract_def reserve_contract_def pool_os_def pool_ok_def page_aligned_def
      MMAN_VM_POOL_SIZE_def outp_def)

theorem mman_map_fresh_witness:
  "maps_fresh 0x1000 1 demo_mman (fst (mman_map pool_os 0 1 1 demo_mman)) (snd (mman_map pool_os 0 1 1 demo_mman))"
  using mman_map_fresh [OF demo_mman_wf pool_os_contract prod.collapse [symmetric], of 0 1 1] by (simp add: align_1)

text \<open>C18 (functional): the pool allocator is first fit: with the pool in place and room in the table,
  whenever some page range of the size is free in the pool, \<^verbatim>\<open>__mman_map\<close> succeeds, and the
  address it returns is at most the start of that range.\<close>

theorem mman_map_first_fit:
  assumes "mman_wf s" "mman_ready s" "\<not> have_kubridge s" "0 \<le> vm_uid s" "length (regions s) < MMAN_MAX_REGIONS"
    and "MMAN_PAGE_ALIGN len \<noteq> 0" "unat (vm_base s) \<le> q"
    and "q + unat (MMAN_PAGE_ALIGN len) \<le> unat (vm_base s) + unat MMAN_VM_POOL_SIZE"
    and "\<forall>r \<in> set (regions s). re r \<le> q \<or> q + unat (MMAN_PAGE_ALIGN len) \<le> rb r"
  shows "\<exists>p s'. mman_map os 0 len prot s = ((p, 0), s') \<and> p \<noteq> 0 \<and> unat (vm_base s) \<le> unat p \<and> unat p \<le> q"
proof -
  let ?n = "MMAN_PAGE_ALIGN len" and ?s = "lock_mman s"
  let ?c = "pool_scan (regions s) ?n (vm_base s)"
  have pool: "pool_ok (vm_base s)" using assms(1,4) by (simp add: mman_wf_def)
  have lt: "q + unat ?n < 2 ^ 32" using assms(8) pool by (simp add: pool_ok_def)
  have le: "unat ?c \<le> q"
    using assms(1,9) lt by (intro pool_scan_first_fit [OF _ assms(7)]) (auto simp: mman_wf_def regions_wf_def)
  have nz: "vm_pool_alloc ?n ?s \<noteq> 0"
    using vm_pool_alloc_nonzero(1) [of ?s ?n] pool le assms(8) by simp
  have p: "vm_pool_alloc ?n ?s = ?c" using vm_pool_alloc_nonzero(2) [of ?s ?n] pool nz by simp
  have ge: "unat (vm_base s) \<le> unat ?c" using pool_scan_ge by (simp add: word_le_nat_alt [symmetric])
  obtain rs where "region_insert \<lparr>r_addr = ?c, r_len = ?n, r_uid = - 1, r_prot = prot\<rparr> (regions s) = Some rs"
    using assms(5) by (auto simp: region_insert_def Let_def)
  then have "map_pool os ?n prot ?s = ((?c, 0), set_regions rs ?s)"
    using nz p assms(4) by (simp add: map_pool_def vm_pool_init_def Let_def)
  then show ?thesis using assms(2,3,6) le ge nz p by (simp add: mman_map_def Let_def)
qed

theorem mman_map_first_fit_witness:
  "\<exists>p s'. mman_map pool_os 0 1 1 demo_mman = ((p, 0), s') \<and> p \<noteq> 0 \<and> unat p \<le> 0x80003000"
proof -
  have "unat MMAN_VM_POOL_SIZE = 0x1000000" by (simp add: MMAN_VM_POOL_SIZE_def)
  then show ?thesis
    using mman_map_first_fit [OF demo_mman_wf, where len = 1 and q = "0x80003000" and os = pool_os and prot = 1]
    by (fastforce simp: align_1 MMAN_MAX_REGIONS_def re_def rb_def)
qed

text \<open>C19 (termination): on a well-formed table \<^verbatim>\<open>__mman_mapped\<close> always returns, leaves the state
  as it was and answers whether every address from the start to the page-aligned end is mapped. When
  the rounded end wraps to or below the start it answers yes without looking at the table.\<close>

theorem mman_mapped_decides:
  assumes "regions_wf (regions s)" "mman_ready s"
  shows "mman_mapped a len s =
      Some (\<forall>x. a \<le> x \<and> x < MMAN_PAGE_ALIGN (a + len) \<longrightarrow> space (regions s) x \<noteq> None, s) \<and>
    (MMAN_PAGE_ALIGN (a + len) \<le> a \<longrightarrow> mman_mapped a len s = Some (True, s))"
  using assms by (auto simp: mman_mapped_def Let_def mapped_loop_spec)

theorem mman_mapped_decides_witness:
  "mman_mapped 0xFFFFE000 0x2000 demo_mman = Some (True, demo_mman) \<and> space (regions demo_mman) 0xFFFFE000 = None \<and>
   mman_mapped 0x90000000 1 demo_mman = Some (False, demo_mman)"
proof -
  have e: "MMAN_PAGE_ALIGN (0xFFFFE000 + 0x2000) = 0" "MMAN_PAGE_ALIGN (0x90000000 + 1) = 0x90001000"
    by (simp_all add: MMAN_PAGE_ALIGN_def MMAN_PAGE_SIZE_def)
  have "\<not> (\<forall>x. 0x90000000 \<le> x \<and> x < 0x90001000 \<longrightarrow> space (regions demo_mman) x \<noteq> None)"
    unfolding demo_space by (intro notI) (drule spec [of _ "0x90000000"], simp)
  moreover have "space (regions demo_mman) 0xFFFFE000 = None" unfolding demo_space by simp
  ultimately show ?thesis
    using mman_mapped_decides [OF demo_wf demo_mman_simps(2), of "0xFFFFE000" "0x2000"]
      mman_mapped_decides [OF demo_wf demo_mman_simps(2), of "0x90000000" 1]
    unfolding e by (simp del: demo_mman_simps not_None_eq)
qed

text \<open>C20 (safety): every operation of the region table releases the mutex as often as it takes it,
  on every path.\<close>

theorem mman_mutex_balanced:
  "mman_mutex (snd (mman_map os hint len prot s)) = mman_mutex s \<and>
   mman_mutex (snd (mman_unmap os a len s)) = mman_mutex s \<and>
   mman_mutex (snd (mman_prot_of a s)) = mman_mutex s \<and>
   mman_mutex (snd (mman_resize os a old_len new_len s)) = mman_mutex s \<and>
   mman_mutex (snd (mman_protect os a len prot s)) = mman_mutex s \<and>
   (\<forall>b s'. mman_mapped a len s = Some (b, s') \<longrightarrow> mman_mutex s' = mman_mutex s) \<and>
   mman_mutex (snd (mman_discard os a len s)) = mman_mutex s \<and>
   mman_mutex (snd (mman_sync os a len s)) = mman_mutex s"
proof (intro conjI)
  show "mman_mutex (snd (mman_map os hint len prot s)) = mman_mutex s"
    by (simp add: mman_map_def map_kubridge_def map_pool_def vm_pool_init_def Let_def case_prod_beta split: option.splits)
  show "mman_mutex (snd (mman_unmap os a len s)) = mman_mutex s"
    by (simp add: mman_unmap_def Let_def case_prod_beta mutex_loop)
  show "mman_mutex (snd (mman_prot_of a s)) = mman_mutex s" by (simp add: mman_prot_of_def Let_def)
  show "mman_mutex (snd (mman_resize os a old_len new_len s)) = mman_mutex s"
    by (simp add: mman_resize_def resize_body_def resize_grow_def Let_def case_prod_beta split: option.splits)
  show "mman_mutex (snd (mman_protect os a len prot s)) = mman_mutex s"
    by (simp add: mman_protect_def Let_def case_prod_beta)
  show "\<forall>b s'. mman_mapped a len s = Some (b, s') \<longrightarrow> mman_mutex s' = mman_mutex s"
    by (auto simp: mman_mapped_def Let_def split: if_splits option.splits)
  show "mman_mutex (snd (mman_discard os a len s)) = mman_mutex s"
    by (simp add: mman_discard_def discard_body_def Let_def case_prod_beta split: option.splits)
  show "mman_mutex (snd (mman_sync os a len s)) = mman_mutex s"
    by (simp add: mman_sync_def case_prod_beta)
qed

theorem mman_mutex_balanced_witness:
  "\<exists>b s'. mman_mapped 0x80000000 1 demo_mman = Some (b, s') \<and> mman_mutex s' = 0"
proof -
  obtain b s' where "mman_mapped 0x80000000 1 demo_mman = Some (b, s')"
    using mapped_loop_spec [OF demo_wf] by (auto simp: mman_mapped_def Let_def)
  then show ?thesis using mman_mutex_balanced [of _ _ _ _ demo_mman "0x80000000"] by fastforce
qed

end
