(* ===== verification/Mman_Resize.thy ===== *)
theory Mman_Resize
  imports Mman_Ops
begin

text \<open>
  \<open>__mman_resize\<close> and \<open>__mman_protect\<close>: growing and shrinking a mapping in place, and what the
  table records when the protection of a range changes.
\<close>

lemma resized_region:
  assumes "region_ok r" "page_aligned n" "n \<noteq> 0" "rb r + unat n < 2 ^ 32"
  shows "region_ok (r\<lparr>r_len := n\<rparr>) \<and> rb (r\<lparr>r_len := n\<rparr>) = rb r \<and> re (r\<lparr>r_len := n\<rparr>) = rb r + unat n"
  using assms by (simp add: region_ok_def rb_def re_def)

lemma regions_wf_replace:
  assumes "regions_wf rs" "i < length rs" "region_ok q" "\<And>j. j < length rs \<Longrightarrow> j \<noteq> i \<Longrightarrow> region_apart q (rs ! j)"
    and "rb q = rb (rs ! i)"
  shows "regions_wf (rs[i := q])"
proof -
  have ok: "\<And>j. j < length rs \<Longrightarrow> rb (rs ! j) < re (rs ! j)"
    using assms(1) by (simp add: regions_wf_def region_ok_nonempty)
  have "sorted_wrt (\<lambda>r q. re r \<le> rb q) (rs[i := q])"
    unfolding sorted_wrt_iff_nth_less
  proof (intro allI impI)
    fix j k assume jk: "j < k" "k < length (rs[i := q])"
    then have lt: "re (rs ! j) \<le> rb (rs ! k)" by (intro regions_wf_order [OF assms(1)]) auto
    have "re q \<le> rb (rs ! k)" if "j = i"
      using assms(4) [of k] assms(5) jk lt that ok [of i] ok [of k] by (auto simp: region_apart_def)
    then show "re (rs[i := q] ! j) \<le> rb (rs[i := q] ! k)"
      using assms(2,5) jk lt by (auto simp: nth_list_update)
  qed
  moreover have "\<forall>r \<in> set (rs[i := q]). region_ok r"
    using assms(1,3) set_update_subset_insert [of rs i q] by (auto simp: regions_wf_def)
  ultimately show ?thesis using assms(1) by (simp add: regions_wf_def)
qed

lemma space_grow:
  assumes "regions_wf rs" "i < length rs" "region_ok q" "\<And>j. j < length rs \<Longrightarrow> j \<noteq> i \<Longrightarrow> region_apart q (rs ! j)"
    and "rb q = rb (rs ! i)" "re (rs ! i) \<le> re q" "region_val q = region_val (rs ! i)"
  shows "space (rs[i := q]) x = (if covers q x then Some (region_val q) else space rs x)"
proof -
  have w: "regions_wf (rs[i := q])" using assms(1-5) by (rule regions_wf_replace)
  show ?thesis
  proof (cases "covers q x")
    case True
    then show ?thesis using space_covers [OF w _ True] assms(2) by (simp add: set_update_memI)
  next
    case False
    then have "\<not> covers (rs ! i) x" using assms(5,6) by (auto simp: covers_def)
    then have "space (rs[i := q]) x = Some v \<longleftrightarrow> space rs x = Some v" for v
      using False assms(2) space_nth_Some [OF w, of x v] space_nth_Some [OF assms(1), of x v]
      by (auto simp: nth_list_update split: if_splits)
    then have "space (rs[i := q]) x = space rs x" by (metis not_Some_eq)
    then show ?thesis using False by simp
  qed
qed

text \<open>The table after the length of one region changed, by shrinking and by growing.\<close>

lemma mman_wf_update:
  assumes "mman_wf s" "i < length (regions s)" "regions_wf ((regions s)[i := q])"
    and "r_uid q = r_uid (regions s ! i)" "\<not> have_kubridge s \<Longrightarrow> in_pool (vm_base s) q"
    and "regions s' = (regions s)[i := q]" "vm_uid s' = vm_uid s" "vm_base s' = vm_base s"
      "have_kubridge s' = have_kubridge s"
  shows "mman_wf s'"
proof -
  define P where "P = (\<lambda>r. if have_kubridge s then 0 \<le> r_uid r
        else r_uid r < 0 \<and> 0 \<le> vm_uid s \<and> in_pool (vm_base s) r)"
  have all: "\<forall>r \<in> set (regions s). P r" using assms(1) by (simp add: mman_wf_def P_def)
  then have "P (regions s ! i)" using nth_mem [OF assms(2)] by blast
  then have "P q" using assms(4,5) by (simp add: P_def split: if_splits)
  with all have "\<forall>r \<in> set ((regions s)[i := q]). P r"
    using set_update_subset_insert [of "regions s" i q] by blast
  then show ?thesis using assms(1,3,6-9) by (simp add: mman_wf_def P_def)
qed

definition resized_space ::
  "addr \<Rightarrow> size_t \<Rightarrow> size_t \<Rightarrow> mman_region list \<Rightarrow> mman_region list \<Rightarrow> bool" where
  "resized_space a old N rs rs' \<longleftrightarrow> (\<exists>v. space rs a = Some v \<and>
      (\<forall>x. space rs' x =
         (if a \<le> x \<and> x < a + N then Some v else if a \<le> x \<and> x < a + old then None else space rs x)))"

text \<open>The region a resize works on: its exact start and length, and a new length that fits.\<close>

definition resize_site :: "mman_region list \<Rightarrow> nat \<Rightarrow> addr \<Rightarrow> size_t \<Rightarrow> size_t \<Rightarrow> bool" where
  "resize_site rs i a old N \<longleftrightarrow> regions_wf rs \<and> i < length rs \<and> r_addr (rs ! i) = a \<and> r_len (rs ! i) = old \<and>
     N \<noteq> 0 \<and> page_aligned N \<and> unat a + unat N < 2 ^ 32"

lemma resize_bounds:
  assumes "resize_site rs i a old N"
  shows "rb (rs ! i) = unat a" "re (rs ! i) = unat a + unat old" "unat (a + old) = unat a + unat old"
    "unat (a + N) = unat a + unat N" "0 < unat old" "region_ok (rs ! i)"
proof -
  show ok: "region_ok (rs ! i)" using assms by (auto simp: resize_site_def regions_wf_def)
  show "rb (rs ! i) = unat a" "re (rs ! i) = unat a + unat old"
    using assms by (simp_all add: resize_site_def rb_def re_def)
  then show "unat (a + old) = unat a + unat old" "0 < unat old"
    using unat_region_end [OF ok] region_ok_nonempty [OF ok] assms by (simp_all add: resize_site_def)
  show "unat (a + N) = unat a + unat N" using assms by (intro unat_add32) (simp add: resize_site_def)
qed

lemma resize_new:
  assumes "resize_site rs i a old N"
  shows "region_ok ((rs ! i)\<lparr>r_len := N\<rparr>)" "rb ((rs ! i)\<lparr>r_len := N\<rparr>) = unat a"
    "re ((rs ! i)\<lparr>r_len := N\<rparr>) = unat a + unat N" "region_val ((rs ! i)\<lparr>r_len := N\<rparr>) = region_val (rs ! i)"
  using resized_region [of "rs ! i" N] resize_bounds [OF assms] assms
  by (simp_all add: region_val_def resize_site_def)

lemma resize_old_val:
  assumes "resize_site rs i a old N" "a \<le> x" "x < a + old"
  shows "space rs x = Some (region_val (rs ! i))"
  using space_covers [of rs "rs ! i" x] resize_bounds [OF assms(1)] assms
  by (simp add: covers_def word_le_nat_alt word_less_nat_alt resize_site_def)

lemma resize_start_val: "resize_site rs i a old N \<Longrightarrow> space rs a = Some (region_val (rs ! i))"
  using resize_old_val [of rs i a old N a] resize_bounds [of rs i a old N] by (simp add: word_less_nat_alt)

lemma resize_shrink:
  assumes site: "resize_site rs i a old N" and "N < old"
  shows "regions_wf (rs[i := (rs ! i)\<lparr>r_len := N\<rparr>])" "resized_space a old N rs (rs[i := (rs ! i)\<lparr>r_len := N\<rparr>])"
proof -
  have wf: "regions_wf rs" and il: "i < length rs" using site by (simp_all add: resize_site_def)
  note bounds = resize_bounds [OF site] and new = resize_new [OF site] and start_val = resize_start_val [OF site]
    and old_val = resize_old_val [OF site]
  let ?q = "(rs ! i)\<lparr>r_len := N\<rparr>"
  have sub: "rb (rs ! i) \<le> rb ?q" "re ?q \<le> re (rs ! i)" using assms(2) bounds new by (simp_all add: word_less_nat_alt)
  show "regions_wf (rs[i := ?q])" by (rule regions_wf_update [OF wf il new(1) sub])
  have "space (rs[i := ?q]) x = (if a \<le> x \<and> x < a + N then Some (region_val (rs ! i))
      else if a \<le> x \<and> x < a + old then None else space rs x)" for x
    using space_update [OF wf il new(1) sub new(4), of x] old_val [of x] assms(2) bounds new
    by (auto simp: covers_def word_le_nat_alt word_less_nat_alt)
  then show "resized_space a old N rs (rs[i := ?q])" unfolding resized_space_def using start_val by blast
qed

lemma resize_grows:
  assumes site: "resize_site rs i a old N" and "old < N"
    and "\<And>j. j < length rs \<Longrightarrow> j \<noteq> i \<Longrightarrow> \<not> (r_addr (rs ! j) < a + N \<and> r_addr (rs ! j) + r_len (rs ! j) > a + old)"
  shows "regions_wf (rs[i := (rs ! i)\<lparr>r_len := N\<rparr>])" "resized_space a old N rs (rs[i := (rs ! i)\<lparr>r_len := N\<rparr>])"
    "a + old \<le> x \<Longrightarrow> x < a + N \<Longrightarrow> space rs x = None"
proof -
  have wf: "regions_wf rs" and il: "i < length rs" using site by (simp_all add: resize_site_def)
  note bounds = resize_bounds [OF site] and new = resize_new [OF site] and start_val = resize_start_val [OF site]
    and old_val = resize_old_val [OF site]
  let ?q = "(rs ! i)\<lparr>r_len := N\<rparr>"
  have okj: "region_ok (rs ! j)" if "j < length rs" for j using wf that by (auto simp: regions_wf_def)
  have apart: "re (rs ! j) \<le> unat a \<or> unat a + unat N \<le> rb (rs ! j)" if "j < length rs" "j \<noteq> i" for j
  proof -
    have "unat a + unat N \<le> rb (rs ! j) \<or> re (rs ! j) \<le> unat a + unat old"
      using assms(3) [OF that] unat_region_end [OF okj [OF that(1)]] bounds
      by (auto simp: word_less_nat_alt rb_def not_less)
    moreover have "re (rs ! j) \<le> rb (rs ! i) \<or> re (rs ! i) \<le> rb (rs ! j)"
      using regions_wf_order [OF wf, of j i] regions_wf_order [OF wf, of i j] that il by (metis linorder_neqE_nat)
    ultimately show ?thesis using region_ok_nonempty [OF okj [OF that(1)]] bounds by auto
  qed
  have ap: "region_apart ?q (rs ! j)" if "j < length rs" "j \<noteq> i" for j
    using apart [OF that] new by (auto simp: region_apart_def)
  have b: "rb ?q = rb (rs ! i)" "re (rs ! i) \<le> re ?q" using assms(2) bounds new by (simp_all add: word_less_nat_alt)
  show "regions_wf (rs[i := ?q])" by (rule regions_wf_replace [OF wf il new(1) ap b(1)])
  have "space (rs[i := ?q]) x = (if a \<le> x \<and> x < a + N then Some (region_val (rs ! i))
      else if a \<le> x \<and> x < a + old then None else space rs x)" for x
    using space_grow [OF wf il new(1) ap b new(4), of x] assms(2) bounds new
    by (auto simp: covers_def word_le_nat_alt word_less_nat_alt)
  then show "resized_space a old N rs (rs[i := ?q])" unfolding resized_space_def using start_val by blast
  have "\<not> covers (rs ! j) x" if "j < length rs" "a + old \<le> x" "x < a + N" for j
    using apart [of j] that bounds by (cases "j = i") (auto simp: covers_def word_le_nat_alt word_less_nat_alt)
  then show "a + old \<le> x \<Longrightarrow> x < a + N \<Longrightarrow> space rs x = None" by (simp add: space_nth_None [OF wf])
qed

lemma in_grown: "p \<le> q \<Longrightarrow> in_range p (q - p) x \<longleftrightarrow> p \<le> x \<and> x < q" for p q x :: addr
  using unat_lt32 [of q] by (auto simp: in_range_def word_le_nat_alt word_less_nat_alt unat_sub_if')

text \<open>The platform call of a resize: with kubridge the pages behind a new, lower end are decommitted.\<close>

definition decommitted ::
  "'w services \<Rightarrow> addr \<Rightarrow> size_t \<Rightarrow> size_t \<Rightarrow> ('w, 'z) mman_state_scheme \<Rightarrow> ('w, 'z) mman_state_scheme" where
  "decommitted os a old N s =
     (if have_kubridge s \<and> N < old then snd (sys os (Ku (kuKernelMemDecommit (a + N) (old - N))) s) else s)"

text \<open>What a resize leaves in memory: zeros in the addresses gained, everything else as it was.\<close>

definition resized_memory ::
  "'w services \<Rightarrow> addr \<Rightarrow> size_t \<Rightarrow> size_t \<Rightarrow> ('w, 'z) mman_state_scheme \<Rightarrow> ('w, 'z) mman_state_scheme \<Rightarrow> bool" where
  "resized_memory os a old N s s' \<longleftrightarrow> world s' = world (decommitted os a old N s) \<and>
     (\<forall>x. mem s' x = (if a + old \<le> x \<and> x < a + N then 0 else mem (decommitted os a old N s) x))"

lemma resized_memory_lock:
  "resized_memory os a old N (lock_mman s) s1 \<Longrightarrow> resized_memory os a old N s (unlock_mman s1)"
  by (simp add: resized_memory_def decommitted_def mem_sys world_sys)

lemma resize_body_spec:
  assumes "mman_wf s" "N \<noteq> 0" "page_aligned N" "unat a + unat N < 2 ^ 32"
    and "resize_body os a old N s = (0, s')"
  shows "mman_wf s' \<and> resized_space a old N (regions s) (regions s') \<and>
    (\<forall>x. a + old \<le> x \<and> x < a + N \<longrightarrow> space (regions s) x = None) \<and> resized_memory os a old N s s'"
proof -
  have wf: "regions_wf (regions s)" using assms(1) by (simp add: mman_wf_def)
  obtain i where i: "region_find a (regions s) = Some i"
    and r: "r_addr (regions s ! i) = a" "r_len (regions s ! i) = old"
    using assms(5) by (auto simp: resize_body_def Let_def split: option.splits if_splits)
  have il: "i < length (regions s)" using i region_find_Some [OF wf] by blast
  have site: "resize_site (regions s) i a old N" using wf il r assms(2-4) by (simp add: resize_site_def)
  note b = resize_bounds [OF site] and new = resize_new [OF site]
  let ?q = "(regions s ! i)\<lparr>r_len := N\<rparr>"
  have rin: "regions s ! i \<in> set (regions s)" using il by simp
  consider "N = old" | "N < old" | "old < N" by (meson linorder_less_linear)
  then show ?thesis
  proof cases
    case 1
    then have "s' = s" using assms(5) i r by (simp add: resize_body_def)
    moreover have "resized_space a old N (regions s) (regions s)"
      unfolding resized_space_def using 1 resize_start_val [OF site] resize_old_val [OF site] by auto
    ultimately show ?thesis using 1 assms(1) by (auto simp: resized_memory_def decommitted_def)
  next
    case 2
    then have s': "regions s' = (regions s)[i := ?q]" "vm_uid s' = vm_uid s" "vm_base s' = vm_base s"
        "have_kubridge s' = have_kubridge s"
      using assms(5) i r by (auto simp: resize_body_def Let_def split: if_splits)
    have "in_pool (vm_base s) ?q" if "\<not> have_kubridge s"
      using assms(1) rin that 2 b new by (auto simp: mman_wf_def in_pool_def word_less_nat_alt)
    then have "mman_wf s'"
      using mman_wf_update [OF assms(1) il resize_shrink(1) [OF site 2], of s'] s' by simp
    moreover have "0 \<le> r_uid (regions s ! i) \<longleftrightarrow> have_kubridge s" using assms(1) rin by (auto simp: mman_wf_def split: if_splits)
    then have "mem s' = mem (decommitted os a old N s)" "world s' = world (decommitted os a old N s)"
      using assms(5) i r 2 by (auto simp: resize_body_def decommitted_def Let_def split: if_splits)
    then have "resized_memory os a old N s s'" using 2 b by (auto simp: resized_memory_def word_le_nat_alt word_less_nat_alt)
    ultimately show ?thesis using resize_shrink(2) [OF site 2] s' 2 b by (auto simp: word_le_nat_alt word_less_nat_alt)
  next
    case 3
    then have "\<not> N < old" "N \<noteq> old" by auto
    then have g: "resize_grow i a old N s = (0, s')" and u: "\<not> 0 \<le> r_uid (regions s ! i)"
      using assms(5) i r by (auto simp: resize_body_def split: if_splits)
    then have apart: "\<And>j. j < length (regions s) \<Longrightarrow> j \<noteq> i \<Longrightarrow>
          \<not> (r_addr (regions s ! j) < a + N \<and> r_addr (regions s ! j) + r_len (regions s ! j) > a + old)"
      and fits: "a + N \<le> vm_base s + MMAN_VM_POOL_SIZE"
      and s': "s' = set_regions ((regions s)[i := ?q]) (set_mem (mem_set (a + old) 0 (a + N - (a + old)) (mem s)) s)"
      by (auto simp: resize_grow_def Let_def split: if_splits)
    have pool: "pool_ok (vm_base s)" "in_pool (vm_base s) (regions s ! i)"
      using assms(1) rin u by (auto simp: mman_wf_def split: if_splits)
    then have "in_pool (vm_base s) ?q"
      using fits b new unat_pool_end [OF pool(1)] by (simp add: in_pool_def word_le_nat_alt)
    then have "mman_wf s'"
      using mman_wf_update [OF assms(1) il resize_grows(1) [OF site 3 apart], of s'] s' by simp
    moreover have "mem s' x = (if a + old \<le> x \<and> x < a + N then 0 else mem s x)" for x
      using b(3,4) 3 in_grown [of "a + old" "a + N" x] by (simp add: s' mem_set_def word_le_nat_alt word_less_nat_alt)
    then have "resized_memory os a old N s s'" using \<open>\<not> N < old\<close> by (simp add: resized_memory_def decommitted_def s')
    ultimately show ?thesis using resize_grows(2,3) [OF site 3 apart] s' by simp
  qed
qed

lemma mman_protect_spec:
  assumes "regions_wf (regions s)" "mman_ready s" "unat a + unat (MMAN_PAGE_ALIGN len) < 2 ^ 32"
    and "mman_protect os a len prot s = (ret, s')"
  shows "regions_wf (regions s') \<and>
    (\<forall>r \<in> set (regions s). \<forall>x. covers r x \<longrightarrow> space (regions s') x =
       Some (r_uid r, if unat a \<le> rb r \<and> re r \<le> unat a + unat (MMAN_PAGE_ALIGN len) then prot else r_prot r)) \<and>
    (\<forall>x. space (regions s) x = None \<longrightarrow> space (regions s') x = None) \<and>
    (\<not> have_kubridge s \<longrightarrow> ret = 0)"
proof -
  let ?e = "a + MMAN_PAGE_ALIGN len" and ?f = "protect_region a (a + MMAN_PAGE_ALIGN len) prot"
  have rs: "regions s' = map ?f (regions s)" and ret: "\<not> have_kubridge s \<longrightarrow> ret = 0"
    using assms(2,4) by (auto simp: mman_protect_def Let_def case_prod_beta split: if_splits)
  have same: "r_addr (?f r) = r_addr r" "r_len (?f r) = r_len r" "r_uid (?f r) = r_uid r" for r
    by (simp_all add: protect_region_def)
  then have f: "rb (?f r) = rb r" "re (?f r) = re r" "region_ok (?f r) = region_ok r" "covers (?f r) x = covers r x" for r x
    by (simp_all add: rb_def re_def region_ok_def covers_def)
  have wf: "regions_wf (regions s')" using assms(1) by (simp add: regions_wf_def rs f sorted_wrt_map)
  have e: "unat ?e = unat a + unat (MMAN_PAGE_ALIGN len)" using assms(3) by (rule unat_add32)
  have prot: "r_prot (?f r) = (if unat a \<le> rb r \<and> re r \<le> unat ?e then prot else r_prot r)" if "r \<in> set (regions s)" for r
    using that assms(1) unat_region_end [of r]
    by (auto simp: protect_region_def word_le_nat_alt rb_def regions_wf_def)
  have "space (regions s') x = Some (r_uid r, if unat a \<le> rb r \<and> re r \<le> unat ?e then prot else r_prot r)"
    if "r \<in> set (regions s)" "covers r x" for r x
    using space_covers [OF wf, of "?f r" x] that prot [OF that(1)] by (simp add: rs f same region_val_def)
  moreover have "space (regions s') x = None" if "space (regions s) x = None" for x
    using that by (simp add: space_None [OF wf] space_None [OF assms(1)]) (simp add: rs f)
  ultimately show ?thesis using wf ret e by simp
qed

section \<open>Properties\<close>

text \<open>C21 (refinement): \<^verbatim>\<open>__mman_resize\<close> to a length that rounds to a positive number of pages and
  does not pass the end of the address space either fails and changes nothing, or moves the end of
  the mapping that starts at the address: the new range has the reservation and protection of the
  old one, addresses behind it are unmapped, all others are as before; addresses it gains were
  unmapped and read as zero, and every other byte of memory keeps its contents. The only platform call is, with kubridge and a
  lower end, the one that decommits the pages given up. The invariant is kept.\<close>

theorem mman_resize_moves_end:
  assumes "mman_wf s" "MMAN_PAGE_ALIGN new_len \<noteq> 0" "unat a + unat (MMAN_PAGE_ALIGN new_len) < 2 ^ 32"
    and "mman_resize os a old_len new_len s = (ret, s')"
  shows "mman_wf s' \<and> ((ret = - 1 \<and> s' = s) \<or>
    (ret = 0 \<and> resized_space a (MMAN_PAGE_ALIGN old_len) (MMAN_PAGE_ALIGN new_len) (regions s) (regions s') \<and>
     (\<forall>x. a + MMAN_PAGE_ALIGN old_len \<le> x \<and> x < a + MMAN_PAGE_ALIGN new_len \<longrightarrow> space (regions s) x = None) \<and>
     resized_memory os a (MMAN_PAGE_ALIGN old_len) (MMAN_PAGE_ALIGN new_len) s s'))"
proof (cases "mman_ready s")
  case False
  then show ?thesis using assms(1,4) by (simp add: mman_resize_def)
next
  case True
  let ?o = "MMAN_PAGE_ALIGN old_len" and ?n = "MMAN_PAGE_ALIGN new_len"
  obtain s1 where s1: "resize_body os a ?o ?n (lock_mman s) = (ret, s1)" "s' = unlock_mman s1"
    using assms(4) True by (auto simp: mman_resize_def Let_def split: prod.splits)
  show ?thesis
  proof (cases "ret = 0")
    case False
    then have "ret = - 1 \<and> s1 = lock_mman s"
      using s1(1) by (auto simp: resize_body_def resize_grow_def Let_def split: option.splits if_splits)
    then show ?thesis using s1(2) assms(1) by simp
  next
    case r0: True
    have "mman_wf (lock_mman s)" using assms(1) by simp
    from resize_body_spec [OF this assms(2) page_align_aligned assms(3)] s1 r0 show ?thesis by (simp add: resized_memory_lock)
  qed
qed

theorem mman_resize_moves_end_witness:
  "fst (mman_resize quiet_os 0x80000000 0x3000 0x1000 demo_mman) = 0 \<and>
   space (regions (snd (mman_resize quiet_os 0x80000000 0x3000 0x1000 demo_mman))) 0x80001000 = None"
proof -
  have al: "MMAN_PAGE_ALIGN 0x1000 = 0x1000" "MMAN_PAGE_ALIGN 0x3000 = 0x3000"
    by (simp_all add: MMAN_PAGE_ALIGN_def MMAN_PAGE_SIZE_def)
  have ret: "fst (mman_resize quiet_os 0x80000000 0x3000 0x1000 demo_mman) = 0"
    by (simp add: mman_resize_def resize_body_def region_find_def first_index.simps al)
  have d: "space (regions demo_mman) 0x80000000 = Some (- 1, 3)" unfolding demo_space by simp
  have "resized_space 0x80000000 0x3000 0x1000 (regions demo_mman)
      (regions (snd (mman_resize quiet_os 0x80000000 0x3000 0x1000 demo_mman)))"
    using mman_resize_moves_end [OF demo_mman_wf, where new_len = "0x1000" and a = "0x80000000"
        and old_len = "0x3000" and os = quiet_os, OF _ _ prod.collapse [symmetric]] ret
    by (simp add: al)
  then show ?thesis using ret by (auto simp: resized_space_def simp del: demo_mman_simps)
qed

text \<open>\<^verbatim>\<open>__mman_resize\<close> has no check that the new end stays in the address space: a
  new length whose end wraps passes the test against the end of the pool, and a new length
  that rounds to zero pages is taken as shrinking; both are reported as success and leave a region
  that breaks the invariant.\<close>

lemma mman_resize_wraps:
  "fst (mman_resize quiet_os 0x80000000 0x3000 0x90000000 demo_mman) = 0 \<and>
   map r_len (regions (snd (mman_resize quiet_os 0x80000000 0x3000 0x90000000 demo_mman))) = [0x90000000] \<and>
   \<not> regions_wf (regions (snd (mman_resize quiet_os 0x80000000 0x3000 0x90000000 demo_mman))) \<and>
   fst (mman_resize quiet_os 0x80000000 0x3000 0xFFFFFFFF demo_mman) = 0 \<and>
   map r_len (regions (snd (mman_resize quiet_os 0x80000000 0x3000 0xFFFFFFFF demo_mman))) = [0] \<and>
   \<not> regions_wf (regions (snd (mman_resize quiet_os 0x80000000 0x3000 0xFFFFFFFF demo_mman)))"
proof -
  have al: "MMAN_PAGE_ALIGN 0x90000000 = 0x90000000" "MMAN_PAGE_ALIGN 0x3000 = 0x3000" "MMAN_PAGE_ALIGN 0xFFFFFFFF = 0"
    by (simp_all add: MMAN_PAGE_ALIGN_def MMAN_PAGE_SIZE_def)
  show ?thesis
    by (simp add: mman_resize_def resize_body_def resize_grow_def region_find_def first_index.simps al
        MMAN_VM_POOL_SIZE_def regions_wf_def region_ok_def re_def)
qed

text \<open>C22 (functional): \<^verbatim>\<open>__mman_protect\<close> on a range that does not wrap keeps the table well-formed
  and changes the recorded protection of exactly the regions that lie wholly inside the range: a
  region the range covers only in part keeps its old recorded protection everywhere, although with
  kubridge the hardware protection of that part is changed.\<close>

theorem mman_protect_whole_regions:
  assumes "regions_wf (regions s)" "mman_ready s" "unat a + unat (MMAN_PAGE_ALIGN len) < 2 ^ 32"
    and "mman_protect os a len prot s = (ret, s')"
  shows "regions_wf (regions s') \<and>
    (\<forall>r \<in> set (regions s). \<forall>x. covers r x \<longrightarrow> space (regions s') x =
       Some (r_uid r, if unat a \<le> rb r \<and> re r \<le> unat a + unat (MMAN_PAGE_ALIGN len) then prot else r_prot r)) \<and>
    (\<forall>x. space (regions s) x = None \<longrightarrow> space (regions s') x = None) \<and>
    (\<not> have_kubridge s \<longrightarrow> ret = 0)"
  using assms by (rule mman_protect_spec)

theorem mman_protect_whole_regions_witness:
  "space (regions (snd (mman_protect quiet_os 0x80000000 0x1000 1 demo_mman))) 0x80000000 = Some (- 1, 3) \<and>
   space (regions (snd (mman_protect quiet_os 0x80000000 0x3000 1 demo_mman))) 0x80000000 = Some (- 1, 1)"
proof -
  have al: "MMAN_PAGE_ALIGN 0x1000 = 0x1000" "MMAN_PAGE_ALIGN 0x3000 = 0x3000"
    by (simp_all add: MMAN_PAGE_ALIGN_def MMAN_PAGE_SIZE_def)
  note p = mman_protect_whole_regions [OF demo_wf demo_mman_simps(2) _ prod.collapse [symmetric]]
  show ?thesis
    using p [of "0x80000000" "0x1000" quiet_os 1] p [of "0x80000000" "0x3000" quiet_os 1]
    by (simp add: al covers_def rb_def re_def)
qed

end
