(* ===== verification/Posix_Mman.thy ===== *)
theory Posix_Mman
  imports Mman_Resize
begin

text \<open>
  The POSIX functions of \<^verbatim>\<open>src/mman\<close> over the region table: mmap, munmap, mprotect, mremap,
  msync, madvise, posix_madvise, mincore, mlock, munlock, mlockall and munlockall. \<open>None\<close> is a call
  that does not return.
\<close>

definition MAP_FAILED :: addr where "MAP_FAILED = - 1"

abbreviation (input) MAP_SHARED :: int where "MAP_SHARED \<equiv> 0x01"
abbreviation (input) MAP_PRIVATE :: int where "MAP_PRIVATE \<equiv> 0x02"
abbreviation (input) MAP_FIXED :: int where "MAP_FIXED \<equiv> 0x10"
abbreviation (input) MAP_ANONYMOUS :: int where "MAP_ANONYMOUS \<equiv> 0x20"
abbreviation (input) MREMAP_MAYMOVE :: int where "MREMAP_MAYMOVE \<equiv> 1"
abbreviation (input) MREMAP_FIXED :: int where "MREMAP_FIXED \<equiv> 2"

section \<open>mmap\<close>

text \<open>
  The loop that reads a file into a new mapping: \<open>None\<close> in the result is a failed pread, otherwise
  the number of bytes read. The offset is an \<open>off_t\<close> of 32 bits.
\<close>

partial_function (option) fill_loop ::
  "'w services \<Rightarrow> (int \<Rightarrow> int) \<Rightarrow> int \<Rightarrow> addr \<Rightarrow> size_t \<Rightarrow> int \<Rightarrow> size_t \<Rightarrow> ('w, 'z) fd_state_scheme \<Rightarrow>
     (size_t option \<times> ('w, 'z) fd_state_scheme) option" where
  "fill_loop os net fd base len off d s =
     (if d < len then
        (case pread os net fd (base + d) (len - d) (cint (off + uint d)) s of
           (n, s) \<Rightarrow>
             if n < 0 then Some (None, s)
             else if n = 0 then Some (Some d, s)
             else fill_loop os net fd base len off (d + word_of_int n) s)
      else Some (Some d, s))"

declare fill_loop.simps [code]

definition mmap_finish ::
  "'w services \<Rightarrow> addr \<Rightarrow> size_t \<Rightarrow> int \<Rightarrow> ('w, 'z) mman_state_scheme \<Rightarrow> addr \<times> ('w, 'z) mman_state_scheme" where
  "mmap_finish os base len prot s =
     (let s = (if prot OR PROT_WRITE \<noteq> prot then snd (mman_protect os base len prot s) else s)
      in (base, set_errno 0 s))"

definition mmap ::
  "'w services \<Rightarrow> (int \<Rightarrow> int) \<Rightarrow> addr \<Rightarrow> size_t \<Rightarrow> int \<Rightarrow> int \<Rightarrow> int \<Rightarrow> int \<Rightarrow>
     ('w, 'z) mman_state_scheme \<Rightarrow> (addr \<times> ('w, 'z) mman_state_scheme) option" where
  "mmap os net a len prot flags fd off s =
     (let anon = (flags AND MAP_ANONYMOUS \<noteq> 0) in
      if len = 0 \<or> off < 0 \<or> off AND 0xFFF \<noteq> 0 then Some (MAP_FAILED, set_errno EINVAL s)
      else if flags AND (MAP_SHARED OR MAP_PRIVATE) = 0 then Some (MAP_FAILED, set_errno EINVAL s)
      else if \<not> anon \<and> fd < 0 then Some (MAP_FAILED, set_errno EBADF s)
      else if \<not> anon \<and> flags AND MAP_SHARED \<noteq> 0 \<and> prot AND PROT_WRITE \<noteq> 0
        then Some (MAP_FAILED, set_errno ENOTSUP s)
      else
        (case mman_map os (if flags AND MAP_FIXED \<noteq> 0 then a else 0) len (prot OR PROT_WRITE) s of
           ((base, err), s) \<Rightarrow>
             if base = 0 then Some (MAP_FAILED, set_errno (if err \<noteq> 0 then err else ENOMEM) s)
             else if anon then
               Some (mmap_finish os base len prot (set_mem (mem_set base 0 (MMAN_PAGE_ALIGN len) (mem s)) s))
             else
               (case fill_loop os net fd base len off 0 s of
                  None \<Rightarrow> None
                | Some (None, s) \<Rightarrow>
                    (let e = errno s; s = snd (mman_unmap os base len s)
                     in Some (MAP_FAILED, set_errno e s))
                | Some (Some d, s) \<Rightarrow>
                    Some (mmap_finish os base len prot
                      (set_mem (mem_set (base + d) 0 (MMAN_PAGE_ALIGN len - d) (mem s)) s)))))"

definition munmap ::
  "'w services \<Rightarrow> addr \<Rightarrow> size_t \<Rightarrow> ('w, 'z) mman_state_scheme \<Rightarrow> int \<times> ('w, 'z) mman_state_scheme" where
  "munmap os a len s =
     (if len = 0 \<or> a AND (MMAN_PAGE_SIZE - 1) \<noteq> 0 then (- 1, set_errno EINVAL s)
      else
        (let (r, s) = mman_unmap os a len s in
         if r < 0 then (- 1, set_errno EINVAL s) else (0, set_errno 0 s)))"

definition mprotect ::
  "'w services \<Rightarrow> (int \<Rightarrow> int) \<Rightarrow> addr \<Rightarrow> size_t \<Rightarrow> int \<Rightarrow> ('w, 'z) mman_state_scheme \<Rightarrow>
     int \<times> ('w, 'z) mman_state_scheme" where
  "mprotect os net a len prot s =
     (let start = a AND NOT (MMAN_PAGE_SIZE - 1); stop = MMAN_PAGE_ALIGN (a + len) in
      if len = 0 then (- 1, set_errno EINVAL s)
      else
        (let (ret, s) = mman_protect os start (stop - start) prot s in
         if ret < 0 then (- 1, set_errno (sce_errno_to_errno net ret ERROR_GENERIC) s)
         else (0, set_errno 0 s)))"

text \<open>\<open>fixed\<close> is the fifth argument, read only under \<open>MREMAP_FIXED\<close>.\<close>

definition mremap_move ::
  "'w services \<Rightarrow> addr \<Rightarrow> size_t \<Rightarrow> size_t \<Rightarrow> int \<Rightarrow> addr \<Rightarrow> ('w, 'z) mman_state_scheme \<Rightarrow>
     addr \<times> ('w, 'z) mman_state_scheme" where
  "mremap_move os old_addr old_len new_len prot fixed s =
     (case mman_map os fixed new_len (prot OR PROT_WRITE) s of
        ((p, err), s) \<Rightarrow>
          if p = 0 then (MAP_FAILED, set_errno (if err \<noteq> 0 then err else ENOMEM) s)
          else
            (let cpy = (if old_len < new_len then old_len else new_len);
                 s = set_mem (mem_copy p old_addr cpy (mem s)) s;
                 s = (if prot OR PROT_WRITE \<noteq> prot then snd (mman_protect os p new_len prot s) else s);
                 s = snd (mman_unmap os old_addr old_len s)
             in (p, set_errno 0 s)))"

definition mremap ::
  "'w services \<Rightarrow> addr \<Rightarrow> size_t \<Rightarrow> size_t \<Rightarrow> int \<Rightarrow> addr \<Rightarrow> ('w, 'z) mman_state_scheme \<Rightarrow>
     (addr \<times> ('w, 'z) mman_state_scheme) option" where
  "mremap os old_addr old_len new_len flags fixed s =
     (if old_addr AND (MMAN_PAGE_SIZE - 1) \<noteq> 0 \<or> new_len = 0 \<or>
         flags AND NOT (MREMAP_MAYMOVE OR MREMAP_FIXED) \<noteq> 0
      then Some (MAP_FAILED, set_errno EINVAL s)
      else if flags AND MREMAP_FIXED \<noteq> 0 \<and> flags AND MREMAP_MAYMOVE = 0
      then Some (MAP_FAILED, set_errno EINVAL s)
      else
        (let fixed = (if flags AND MREMAP_FIXED \<noteq> 0 then fixed else 0) in
         if flags AND MREMAP_FIXED \<noteq> 0 \<and> fixed AND (MMAN_PAGE_SIZE - 1) \<noteq> 0
         then Some (MAP_FAILED, set_errno EINVAL s)
         else
           (let (prot, s) = mman_prot_of old_addr s in
            if prot < 0 then Some (MAP_FAILED, set_errno EFAULT s)
            else
              (case mman_mapped old_addr old_len s of
                 None \<Rightarrow> None
               | Some (m, s) \<Rightarrow>
                   if \<not> m then Some (MAP_FAILED, set_errno EFAULT s)
                   else
                     (let (done, s) =
                        (if flags AND MREMAP_FIXED = 0
                         then (let (r, s) = mman_resize os old_addr old_len new_len s in (r = 0, s))
                         else (False, s))
                      in if done then Some (old_addr, set_errno 0 s)
                         else if flags AND MREMAP_MAYMOVE = 0 then Some (MAP_FAILED, set_errno ENOMEM s)
                         else Some (mremap_move os old_addr old_len new_len prot fixed s))))))"

section \<open>Advice and locking\<close>

definition msync ::
  "'w services \<Rightarrow> (int \<Rightarrow> int) \<Rightarrow> addr \<Rightarrow> size_t \<Rightarrow> int \<Rightarrow> ('w, 'z) mman_state_scheme \<Rightarrow>
     int \<times> ('w, 'z) mman_state_scheme" where
  "msync os net a len flags s =
     (let start = a AND NOT (MMAN_PAGE_SIZE - 1); stop = MMAN_PAGE_ALIGN (a + len) in
      if len = 0 \<or> flags AND NOT (1 OR 2 OR 4) \<noteq> 0 then (- 1, set_errno EINVAL s)
      else if flags AND (1 OR 4) = 1 OR 4 then (- 1, set_errno EINVAL s)
      else
        (let (ret, s) = mman_sync os start (stop - start) s in
         if ret < 0 then (- 1, set_errno (sce_errno_to_errno net ret ERROR_GENERIC) s)
         else (0, set_errno 0 s)))"

text \<open>\<open>if (!__mman_mapped(addr, len)) { errno = ENOMEM; return -1; }\<close>, then the rest.\<close>

definition require_mapped ::
  "addr \<Rightarrow> size_t \<Rightarrow> (('w, 'z) mman_state_scheme \<Rightarrow> int \<times> ('w, 'z) mman_state_scheme) \<Rightarrow>
     ('w, 'z) mman_state_scheme \<Rightarrow> (int \<times> ('w, 'z) mman_state_scheme) option" where
  "require_mapped a len rest s =
     (case mman_mapped a len s of
        None \<Rightarrow> None
      | Some (m, s) \<Rightarrow> Some (if m then rest s else (- 1, set_errno ENOMEM s)))"

definition succeed :: "('w, 'z) libc_scheme \<Rightarrow> int \<times> ('w, 'z) libc_scheme" where
  "succeed s = (0, set_errno 0 s)"

definition madvise ::
  "'w services \<Rightarrow> addr \<Rightarrow> size_t \<Rightarrow> int \<Rightarrow> ('w, 'z) mman_state_scheme \<Rightarrow>
     (int \<times> ('w, 'z) mman_state_scheme) option" where
  "madvise os a len advice s =
     (if a AND (MMAN_PAGE_SIZE - 1) \<noteq> 0 then Some (- 1, set_errno EINVAL s)
      else if len = 0 then Some (succeed s)
      else if advice \<in> {4, 8} then
        require_mapped a len
          (\<lambda>s. let (r, s) = mman_discard os a len s in
               if r < 0 then (- 1, set_errno ENOMEM s) else succeed s) s
      else if advice \<in> {0, 1, 2, 3, 10, 11, 12, 13, 14, 15, 16, 17, 18, 19} then require_mapped a len succeed s
      else Some (- 1, set_errno EINVAL s))"

definition posix_madvise ::
  "addr \<Rightarrow> size_t \<Rightarrow> int \<Rightarrow> ('w, 'z) mman_state_scheme \<Rightarrow> (int \<times> ('w, 'z) mman_state_scheme) option" where
  "posix_madvise a len advice s =
     (if a AND (MMAN_PAGE_SIZE - 1) \<noteq> 0 then Some (EINVAL, s)
      else if len = 0 then Some (0, s)
      else if advice \<notin> {0, 1, 2, 3, 4} then Some (EINVAL, s)
      else (case mman_mapped a len s of
              None \<Rightarrow> None
            | Some (m, s) \<Rightarrow> Some (if m then 0 else ENOMEM, s)))"

definition mincore ::
  "addr \<Rightarrow> size_t \<Rightarrow> addr \<Rightarrow> ('w, 'z) mman_state_scheme \<Rightarrow> (int \<times> ('w, 'z) mman_state_scheme) option" where
  "mincore a len vec s =
     (if a AND (MMAN_PAGE_SIZE - 1) \<noteq> 0 \<or> vec = 0 then Some (- 1, set_errno EINVAL s)
      else if len = 0 then Some (succeed s)
      else require_mapped a len
             (\<lambda>s. succeed (set_mem (mem_set vec 1 (MMAN_PAGE_ALIGN len div MMAN_PAGE_SIZE) (mem s)) s)) s)"

definition mlock ::
  "addr \<Rightarrow> size_t \<Rightarrow> ('w, 'z) mman_state_scheme \<Rightarrow> (int \<times> ('w, 'z) mman_state_scheme) option" where
  "mlock a len s = (if len = 0 then Some (succeed s) else require_mapped a len succeed s)"

definition munlock ::
  "addr \<Rightarrow> size_t \<Rightarrow> ('w, 'z) mman_state_scheme \<Rightarrow> (int \<times> ('w, 'z) mman_state_scheme) option" where
  "munlock a len s = (if len = 0 then Some (succeed s) else require_mapped a len succeed s)"

definition mlockall :: "int \<Rightarrow> ('w, 'z) libc_scheme \<Rightarrow> int \<times> ('w, 'z) libc_scheme" where
  "mlockall flags s =
     (if flags AND (1 OR 2) = 0 \<or> flags AND NOT (1 OR 2 OR 4) \<noteq> 0 then (- 1, set_errno EINVAL s)
      else succeed s)"

definition munlockall :: "('w, 'z) libc_scheme \<Rightarrow> int \<times> ('w, 'z) libc_scheme" where
  "munlockall s = succeed s"

section \<open>Changing the protection of a fresh mapping\<close>

lemma mman_wf_set_errno [simp]: "mman_wf (set_errno e s) = mman_wf s"
  by (simp add: mman_wf_def)

lemma mman_wf_set_mem [simp]: "mman_wf (set_mem m s) = mman_wf s"
  by (simp add: mman_wf_def)

lemma maps_fresh_frame [simp]:
  "maps_fresh len prot s res (set_errno e s') = maps_fresh len prot s res s'"
  "maps_fresh len prot s res (set_mem m s') = maps_fresh len prot s res s'"
  "maps_fresh len prot (set_mem m s) res s' = maps_fresh len prot s res s'"
  by (simp_all add: maps_fresh_def)

lemma mman_protect_wf:
  assumes "mman_wf s"
  shows "mman_wf (snd (mman_protect os a len prot s))"
proof -
  let ?f = "protect_region a (a + MMAN_PAGE_ALIGN len) prot"
  have same: "r_addr (?f r) = r_addr r" "r_len (?f r) = r_len r" "r_uid (?f r) = r_uid r" for r
    by (simp_all add: protect_region_def)
  then have f: "rb (?f r) = rb r" "re (?f r) = re r" "region_ok (?f r) = region_ok r" "in_pool b (?f r) = in_pool b r" for r b
    by (simp_all add: rb_def re_def region_ok_def in_pool_def)
  have "mman_wf s \<Longrightarrow> regions s' = map ?f (regions s) \<Longrightarrow> vm_uid s' = vm_uid s \<Longrightarrow> vm_base s' = vm_base s \<Longrightarrow>
      have_kubridge s' = have_kubridge s \<Longrightarrow> mman_wf s'" for s' :: "('a, 'b) mman_state_scheme"
    by (simp add: mman_wf_def regions_wf_def f same sorted_wrt_map)
  then show ?thesis using assms by (simp add: mman_protect_def Let_def case_prod_beta)
qed

lemma protect_fresh:
  assumes "mman_wf s'" "mman_ready s'" "maps_fresh (MMAN_PAGE_ALIGN len) prot s (p, 0) s'"
  shows "maps_fresh (MMAN_PAGE_ALIGN len) prot' s (p, 0) (snd (mman_protect os p len prot' s'))"
proof -
  let ?n = "MMAN_PAGE_ALIGN len" and ?t = "snd (mman_protect os p len prot' s')"
  from assms(3) obtain uid r where p: "p \<noteq> 0" "page_aligned p" "unat p + unat ?n < 2 ^ 32"
      "\<forall>x. p \<le> x \<and> x < p + ?n \<longrightarrow> space (regions s) x = None" and uid: "0 \<le> uid \<longleftrightarrow> have_kubridge s"
    and sp: "\<And>x. space (regions s') x = (if p \<le> x \<and> x < p + ?n then Some (uid, prot) else space (regions s) x)"
    and r: "r \<in> set (regions s')" "r_addr r = p" "r_len r = ?n"
    by (auto simp: maps_fresh_def)
  have wf: "regions_wf (regions s')" using assms(1) by (simp add: mman_wf_def)
  note pr = mman_protect_spec [OF wf assms(2) p(3) prod.collapse [symmetric], of os prot']
  have b: "rb r = unat p" "re r = unat p + unat ?n" "unat (p + ?n) = unat p + unat ?n"
    using r unat_add32 [OF p(3)] by (simp_all add: rb_def re_def)
  have rv: "covers r x \<longleftrightarrow> p \<le> x \<and> x < p + ?n" for x
    by (simp add: covers_def b word_le_nat_alt word_less_nat_alt)
  have inside: "space (regions ?t) x = Some (uid, prot')" if "p \<le> x" "x < p + ?n" for x
    using pr r(1) rv [of x] that b sp [of x] space_covers [OF wf r(1), of x] by (auto simp: region_val_def)
  have outside: "space (regions ?t) x = space (regions s') x" if out: "\<not> (p \<le> x \<and> x < p + ?n)" for x
  proof (cases "space (regions s') x")
    case None
    then show ?thesis using pr by simp
  next
    case (Some v)
    then obtain q where q: "q \<in> set (regions s')" "covers q x" "region_val q = v" using space_Some [OF wf] by blast
    have "\<not> (unat p \<le> rb q \<and> re q \<le> unat p + unat ?n)"
      using q(2) out b by (auto simp: covers_def word_le_nat_alt word_less_nat_alt)
    then have "space (regions ?t) x = Some (r_uid q, r_prot q)" using pr q(1,2) by auto
    then show ?thesis using Some q(3) by (simp add: region_val_def)
  qed
  have "regions ?t = map (protect_region p (p + ?n) prot') (regions s')"
    using assms(2) by (simp add: mman_protect_def Let_def case_prod_beta)
  then have "protect_region p (p + ?n) prot' r \<in> set (regions ?t)" using r(1) by simp
  moreover have "r_addr (protect_region p (p + ?n) prot' r) = p" "r_len (protect_region p (p + ?n) prot' r) = ?n"
    using r(2,3) by (simp_all add: protect_region_def)
  ultimately have "\<exists>r \<in> set (regions ?t). r_addr r = p \<and> r_len r = ?n" by blast
  moreover have "\<forall>x. space (regions ?t) x = (if p \<le> x \<and> x < p + ?n then Some (uid, prot') else space (regions s) x)"
    using inside outside sp by simp
  ultimately show ?thesis using p uid by (auto simp: maps_fresh_def)
qed

text \<open>What \<open>mmap\<close> relies on: changing a protection writes nothing into memory.\<close>

definition protect_silent :: "'w services \<Rightarrow> bool" where
  "protect_silent os \<longleftrightarrow> (\<forall>a n q w. rp_writes (fst (os (Ku (kuKernelMemProtect a n q)) w)) = [])"

lemma mem_mman_protect: "protect_silent os \<Longrightarrow> mem (snd (mman_protect os a len prot s)) = mem s"
  by (simp add: mman_protect_def Let_def case_prod_beta mem_sys protect_silent_def)

lemma mmap_finish_spec:
  assumes "mman_wf s'" "mman_ready s'" "maps_fresh (MMAN_PAGE_ALIGN len) (prot OR PROT_WRITE) s (p, 0) s'"
    and "protect_silent os"
  shows "fst (mmap_finish os p len prot s') = p" "mman_wf (snd (mmap_finish os p len prot s'))"
    "maps_fresh (MMAN_PAGE_ALIGN len) prot s (p, 0) (snd (mmap_finish os p len prot s'))"
    "mem (snd (mmap_finish os p len prot s')) = mem s'" "errno (snd (mmap_finish os p len prot s')) = 0"
  using assms protect_fresh [OF assms(1-3), of prot os]
  by (auto simp: mmap_finish_def Let_def mem_mman_protect mman_protect_wf)

lemma page_aligned_not_failed: "page_aligned p \<Longrightarrow> p \<noteq> MAP_FAILED"
  by (auto simp: page_aligned_def MAP_FAILED_def unsigned_minus_1_eq_mask mask_eq_exp_minus_1)

lemma mman_ready_map [simp]: "mman_ready (snd (mman_map os hint len prot s)) = mman_ready s"
  by (simp add: mman_map_def map_kubridge_def map_pool_def vm_pool_init_def Let_def case_prod_beta split: option.splits)

lemma mmap_anonymous_spec:
  assumes "mman_wf s" "pool_contract os" "protect_silent os" "flags AND MAP_ANONYMOUS \<noteq> 0"
    and "reserve_contract os (if flags AND MAP_FIXED \<noteq> 0 then a else 0) (MMAN_PAGE_ALIGN len) (lock_mman s)"
  shows "\<exists>p s'. mmap os net a len prot flags fd off s = Some (p, s') \<and> mman_wf s' \<and>
    ((p = MAP_FAILED \<and> errno s' \<noteq> 0 \<and> regions s' = regions s) \<or>
     (p \<noteq> MAP_FAILED \<and> errno s' = 0 \<and> maps_fresh (MMAN_PAGE_ALIGN len) prot s (p, 0) s' \<and>
      (\<forall>x. p \<le> x \<and> x < p + MMAN_PAGE_ALIGN len \<longrightarrow> mem s' x = 0)))"
proof (cases "len = 0 \<or> off < 0 \<or> off AND 0xFFF \<noteq> 0 \<or> flags AND (MAP_SHARED OR MAP_PRIVATE) = 0")
  case True
  then have "mmap os net a len prot flags fd off s = Some (MAP_FAILED, set_errno EINVAL s)"
    by (auto simp: mmap_def Let_def)
  then show ?thesis using assms(1) by simp
next
  case False
  let ?n = "MMAN_PAGE_ALIGN len"
  obtain p err s1 where m: "mman_map os (if flags AND MAP_FIXED \<noteq> 0 then a else 0) len (prot OR PROT_WRITE) s = ((p, err), s1)"
    by (metis prod.exhaust)
  have sp: "mman_wf s1 \<and> maps_fresh ?n (prot OR PROT_WRITE) s (p, err) s1"
    by (rule mman_map_spec [OF assms(1,2,5) m])
  let ?s2 = "set_mem (mem_set p 0 ?n (mem s1)) s1"
  show ?thesis
  proof (cases "p = 0")
    case True
    then have "mmap os net a len prot flags fd off s = Some (MAP_FAILED, set_errno (if err \<noteq> 0 then err else ENOMEM) s1)"
      using False assms(4) m by (auto simp: mmap_def Let_def)
    then show ?thesis using sp True by (auto simp: maps_fresh_def)
  next
    case p: False
    then have err: "err = 0" and lt: "unat p + unat ?n < 2 ^ 32" and al: "page_aligned p"
      using sp by (auto simp: maps_fresh_def)
    have run: "mmap os net a len prot flags fd off s = Some (mmap_finish os p len prot ?s2)"
      using False assms(4) m p by (auto simp: mmap_def Let_def)
    have "mman_ready s" using m p by (auto simp: mman_map_def Let_def split: if_splits)
    then have ready: "mman_ready ?s2" using mman_ready_map [of os _ len "prot OR PROT_WRITE" s] m by (metis mman_frame(11) snd_conv)
    have wf: "mman_wf ?s2" "maps_fresh ?n (prot OR PROT_WRITE) s (p, 0) ?s2" using sp err by simp_all
    note fin = mmap_finish_spec [OF wf(1) ready wf(2) assms(3)]
    have "mem ?s2 x = 0" if "p \<le> x" "x < p + ?n" for x
      using that unat_add32 [OF lt]
      by (auto simp: mem_set_def in_range_def word_le_nat_alt word_less_nat_alt unat_sub_if')
    then show ?thesis using run fin page_aligned_not_failed [OF al] prod.collapse [of "mmap_finish os p len prot ?s2"]
      by (intro exI [of _ p] exI [of _ "snd (mmap_finish os p len prot ?s2)"]) auto
  qed
qed

lemma mmap_success:
  assumes "flags AND MAP_ANONYMOUS \<noteq> 0" "mmap os net a len prot flags fd off s = Some (p, s')" "p \<noteq> MAP_FAILED"
  shows "len \<noteq> 0" "MMAN_PAGE_ALIGN len \<noteq> 0" "mman_ready s'"
proof -
  let ?m = "mman_map os (if flags AND MAP_FIXED \<noteq> 0 then a else 0) len (prot OR PROT_WRITE) s"
  obtain b err s1 where m: "?m = ((b, err), s1)" by (metis prod.exhaust)
  show "len \<noteq> 0" using assms by (auto simp: mmap_def Let_def split: if_splits)
  have b: "b \<noteq> 0" and s': "s' = snd (mmap_finish os b len prot (set_mem (mem_set b 0 (MMAN_PAGE_ALIGN len) (mem s1)) s1))"
    using assms m by (auto simp: mmap_def Let_def split: if_splits)
  show "MMAN_PAGE_ALIGN len \<noteq> 0" using m b by (auto simp: mman_map_def Let_def split: if_splits)
  have "mman_ready s" using m b by (auto simp: mman_map_def Let_def split: if_splits)
  then have "mman_ready s1" using mman_ready_map [of os _ len "prot OR PROT_WRITE" s] m by (metis snd_conv)
  then show "mman_ready s'" by (simp add: s' mmap_finish_def mman_protect_def Let_def case_prod_beta)
qed

section \<open>Properties\<close>

text \<open>C23 (functional): an anonymous \<^verbatim>\<open>mmap\<close> always returns. It either fails with \<open>MAP_FAILED\<close>, an
  error number and the table unchanged, or returns the page-aligned start of a range that was
  unmapped, that is now mapped with the requested protection and nothing else changed, whose bytes
  all read as zero, with \<open>errno\<close> 0. The invariant is kept.\<close>

theorem mmap_anonymous:
  assumes "mman_wf s" "pool_contract os" "protect_silent os" "flags AND MAP_ANONYMOUS \<noteq> 0"
    and "reserve_contract os (if flags AND MAP_FIXED \<noteq> 0 then a else 0) (MMAN_PAGE_ALIGN len) (lock_mman s)"
  shows "\<exists>p s'. mmap os net a len prot flags fd off s = Some (p, s') \<and> mman_wf s' \<and>
    ((p = MAP_FAILED \<and> errno s' \<noteq> 0 \<and> regions s' = regions s) \<or>
     (p \<noteq> MAP_FAILED \<and> errno s' = 0 \<and> maps_fresh (MMAN_PAGE_ALIGN len) prot s (p, 0) s' \<and>
      (\<forall>x. p \<le> x \<and> x < p + MMAN_PAGE_ALIGN len \<longrightarrow> mem s' x = 0)))"
  using assms by (rule mmap_anonymous_spec)

lemma pool_os_silent: "protect_silent pool_os"
  by (simp add: protect_silent_def pool_os_def)

theorem mmap_anonymous_witness:
  "\<exists>p s'. mmap pool_os (\<lambda>e. e) 0 1 1 0x22 (- 1) 0 demo_mman = Some (p, s') \<and> mman_wf s' \<and>
     (p \<noteq> MAP_FAILED \<longrightarrow> mem s' p = 0)"
proof -
  obtain p s' where m: "mmap pool_os (\<lambda>e. e) 0 1 1 0x22 (- 1) 0 demo_mman = Some (p, s')" "mman_wf s'"
    and d: "(p = MAP_FAILED \<and> errno s' \<noteq> 0 \<and> regions s' = regions demo_mman) \<or>
     (p \<noteq> MAP_FAILED \<and> errno s' = 0 \<and> maps_fresh (MMAN_PAGE_ALIGN 1) 1 demo_mman (p, 0) s' \<and>
      (\<forall>x. p \<le> x \<and> x < p + MMAN_PAGE_ALIGN 1 \<longrightarrow> mem s' x = 0))"
    using mmap_anonymous [OF demo_mman_wf pool_os_contract(1) pool_os_silent _ pool_os_contract(2),
        where flags = "0x22" and a = 0 and len = 1 and net = "\<lambda>e. e" and prot = 1 and fd = "- 1" and off = 0] by auto
  have "mem s' p = 0" if "p \<noteq> MAP_FAILED"
  proof -
    have "unat p + 0x1000 < 2 ^ 32" using d that by (simp add: maps_fresh_def align_1)
    then have "p < p + 0x1000" using unat_add32 [of p "0x1000"] by (simp add: word_less_nat_alt)
    then show ?thesis using d that by (simp add: align_1)
  qed
  with m show ?thesis by blast
qed

lemma page_aligned_and: "page_aligned p \<Longrightarrow> p AND (MMAN_PAGE_SIZE - 1) = 0"
proof -
  assume "page_aligned p"
  have "p AND (MMAN_PAGE_SIZE - 1) = take_bit 12 p"
    by (simp add: MMAN_PAGE_SIZE_def take_bit_eq_mask mask_eq_exp_minus_1)
  moreover have "unat (take_bit 12 p) = unat p mod 4096"
    by (simp only: unsigned_take_bit_eq) (simp add: take_bit_eq_mod)
  ultimately show ?thesis using \<open>page_aligned p\<close> by (simp add: page_aligned_def unat_eq_0)
qed

lemma unmap_fresh:
  assumes "mman_wf s'" "mman_ready s'" "maps_fresh (MMAN_PAGE_ALIGN len) prot s (p, 0) s'" "MMAN_PAGE_ALIGN len \<noteq> 0"
    and "mman_unmap os p len s' = (ret, t)"
  shows "ret = 0 \<and> regions_wf (regions t) \<and> (\<forall>x. space (regions t) x = space (regions s) x)"
proof -
  let ?n = "MMAN_PAGE_ALIGN len"
  from assms(3) obtain uid r where p: "page_aligned p" "unat p + unat ?n < 2 ^ 32"
      "\<forall>x. p \<le> x \<and> x < p + ?n \<longrightarrow> space (regions s) x = None"
    and sp: "\<And>x. space (regions s') x = (if p \<le> x \<and> x < p + ?n then Some (uid, prot) else space (regions s) x)"
    and r: "r \<in> set (regions s')" "r_addr r = p" "r_len r = ?n"
    by (auto simp: maps_fresh_def)
  have wf: "regions_wf (regions s')" using assms(1) by (simp add: mman_wf_def)
  have lt: "p < p + ?n" using unat_add32 [OF p(2)] assms(4) by (simp add: word_less_nat_alt unat_gt_0)
  have "\<not> (rb q < unat p \<and> unat (p + ?n) < re q)" if q: "q \<in> set (regions s')" for q
  proof
    assume "rb q < unat p \<and> unat (p + ?n) < re q"
    then have c: "covers q p" "covers q (p + ?n)" using lt by (auto simp: covers_def word_less_nat_alt)
    obtain i j where "i < length (regions s')" "regions s' ! i = q" "j < length (regions s')" "regions s' ! j = r"
      using q r(1) by (metis in_set_conv_nth)
    moreover have "covers r p" using r lt unat_add32 [OF p(2)] by (simp add: covers_def rb_def re_def word_less_nat_alt)
    ultimately have "q = r" using covers_unique [OF wf, of i j p] c(1) by auto
    then show False using c(2) r unat_add32 [OF p(2)] by (simp add: covers_def re_def)
  qed
  then have o: "regions_wf (regions t)" "\<And>x. space (regions t) x = (if p \<le> x \<and> x < p + ?n then None else space (regions s') x)"
      "ret = (if \<exists>x. p \<le> x \<and> x < p + ?n \<and> space (regions s') x \<noteq> None then 0 else - 1)"
    using mman_unmap_outcome [OF wf assms(2) p(1) assms(4) p(2) assms(5)] unfolding unmap_outcome_def by blast+
  have "\<exists>x. p \<le> x \<and> x < p + ?n \<and> space (regions s') x \<noteq> None" using lt sp [of p] by (intro exI [of _ p]) simp
  then have "ret = 0" using o(3) by simp
  moreover have "space (regions t) x = space (regions s) x" for x using o(2) [of x] sp [of x] p(3) by auto
  ultimately show ?thesis using o(1) by blast
qed

text \<open>C24 (roundtrip): \<^verbatim>\<open>munmap\<close> of what an anonymous \<^verbatim>\<open>mmap\<close> returned, with the same length, succeeds
  and gives back the address space of before the \<^verbatim>\<open>mmap\<close>.\<close>

theorem mmap_munmap_roundtrip:
  assumes "mman_wf s" "pool_contract os" "protect_silent os" "flags AND MAP_ANONYMOUS \<noteq> 0"
    and "reserve_contract os (if flags AND MAP_FIXED \<noteq> 0 then a else 0) (MMAN_PAGE_ALIGN len) (lock_mman s)"
    and "mmap os net a len prot flags fd off s = Some (p, s')" "p \<noteq> MAP_FAILED"
  shows "fst (munmap os p len s') = 0 \<and> errno (snd (munmap os p len s')) = 0 \<and>
    regions_wf (regions (snd (munmap os p len s'))) \<and> space (regions (snd (munmap os p len s'))) = space (regions s)"
proof -
  have m: "mman_wf s'" "maps_fresh (MMAN_PAGE_ALIGN len) prot s (p, 0) s'"
    using mmap_anonymous_spec [OF assms(1-5), of net prot fd off] assms(6,7) by auto
  have guards: "len \<noteq> 0" "MMAN_PAGE_ALIGN len \<noteq> 0" "mman_ready s'"
    using mmap_success [OF assms(4,6,7)] by simp_all
  have "page_aligned p" using m(2) by (simp add: maps_fresh_def)
  moreover obtain ret t where u: "mman_unmap os p len s' = (ret, t)" by fastforce
  ultimately show ?thesis
    using unmap_fresh [OF m(1) guards(3) m(2) guards(2) u] guards(1)
    by (auto simp: munmap_def page_aligned_and fun_eq_iff)
qed

theorem mmap_munmap_roundtrip_witness:
  "\<exists>p s'. mmap pool_os (\<lambda>e. e) 0 1 1 0x22 (- 1) 0 demo_mman = Some (p, s') \<and> fst (munmap pool_os p 1 s') = 0"
proof -
  have "\<exists>s'. mman_map pool_os 0 1 3 demo_mman = ((0x80003000, 0), s')"
    by (simp add: mman_map_def map_pool_def vm_pool_init_def vm_pool_alloc_def align_1 region_insert_def
        MMAN_MAX_REGIONS_def MMAN_VM_POOL_SIZE_def Let_def)
  then obtain s1 where "mmap pool_os (\<lambda>e. e) 0 1 1 0x22 (- 1) 0 demo_mman =
      Some (mmap_finish pool_os 0x80003000 1 1 (set_mem (mem_set 0x80003000 0 (MMAN_PAGE_ALIGN 1) (mem s1)) s1))"
    by (auto simp: mmap_def Let_def)
  then obtain s2 where m: "mmap pool_os (\<lambda>e. e) 0 1 1 0x22 (- 1) 0 demo_mman = Some (0x80003000, s2)"
    by (auto simp: mmap_finish_def Let_def)
  have "(0x80003000 :: addr) \<noteq> MAP_FAILED" by (simp add: MAP_FAILED_def)
  then show ?thesis
    using mmap_munmap_roundtrip [OF demo_mman_wf pool_os_contract(1) pool_os_silent _ pool_os_contract(2) m] m by auto
qed

section \<open>Mapping a file\<close>

text \<open>What the loop relies on: a positioned read returns at most the number of bytes asked for.\<close>

definition pread_bounded :: "'w services \<Rightarrow> bool" where
  "pread_bounded os \<longleftrightarrow> (\<forall>h b n off w.
     - (2 ^ 31) \<le> rp_ret (fst (os (Fios (sceFiosFHPreadSync h b n off)) w)) \<and>
     rp_ret (fst (os (Fios (sceFiosFHPreadSync h b n off)) w)) \<le> uint n \<and>
     - (2 ^ 31) \<le> rp_ret (fst (os (Io (sceIoPread h b n off)) w)) \<and>
     rp_ret (fst (os (Io (sceIoPread h b n off)) w)) \<le> uint n)"

lemma cint_le: "- (2 ^ 31) \<le> x \<Longrightarrow> cint x \<le> x"
  using cint_bounds [of x] cint_id [of x] by (cases "x < 2 ^ 31") auto

lemma pread_le:
  assumes "pread_bounded os" "fd_live s"
  shows "fst (pread os net fd b n off s) \<le> uint n"
proof (cases "is_fd_valid fd s")
  case False
  have "- 1 \<le> uint n" using uint_ge_0 [of n] by linarith
  then show ?thesis using False by (simp add: pread_def with_fd_invalid)
next
  case True
  let ?d = "fdmap_pool s (the (fdmap s (nat fd)))"
  have le: "cint (rp_ret (fst (os (Fios (sceFiosFHPreadSync h b n off)) w))) \<le> uint n"
    "cint (rp_ret (fst (os (Io (sceIoPread h b n off)) w))) \<le> uint n" for h w
    using assms(1) cint_le [of "rp_ret (fst (os (Fios (sceFiosFHPreadSync h b n off)) w))"]
      cint_le [of "rp_ret (fst (os (Io (sceIoPread h b n off)) w))"]
    unfolding pread_bounded_def by (blast intro: order_trans)+
  have neg: "make_sce_errno EBADF < 0" using make_sce_errno_neg [of EBADF] by simp
  have "- 1 \<le> uint n" using uint_ge_0 [of n] by linarith
  then show ?thesis using le neg
    by (simp add: pread_def with_fd_valid [OF assms(2) True dispatch_blind(3)] pread_dispatch_def io_result_def
        case_prod_beta sys_ret_def split: DescriptorTypes.splits)
qed

lemma fill_loop_total:
  assumes "pread_bounded os" "fd_live s" "d \<le> len"
  shows "\<exists>r s'. fill_loop os net fd base len off d s = Some (r, s') \<and> libc.more s' = libc.more s \<and>
    (\<forall>d'. r = Some d' \<longrightarrow> d' \<le> len)"
  using assms(2,3)
proof (induction "unat len - unat d" arbitrary: d s rule: less_induct)
  case less
  show ?case
  proof (cases "d < len")
    case False
    then have "fill_loop os net fd base len off d s = Some (Some d, s)"
      by (simp add: fill_loop.simps [of os net fd base len off d s])
    then show ?thesis using less.prems by simp
  next
    case True
    obtain n s1 where pr: "pread os net fd (base + d) (len - d) (cint (off + uint d)) s = (n, s1)" by fastforce
    have more: "libc.more s1 = libc.more s"
      using rw_more(3) [OF less.prems(1), of os net fd "base + d" "len - d" "cint (off + uint d)"] pr by simp
    have live: "fd_live s1" using fd_live_more [OF more less.prems(1)] .
    have n: "n \<le> uint (len - d)" using pread_le [OF assms(1) less.prems(1)] pr by (metis fst_conv)
    show ?thesis
    proof (cases "n \<le> 0")
      case n0: True
      then show ?thesis using True pr more less.prems(2)
        by (auto simp: fill_loop.simps [of os net fd base len off d s])
    next
      case n0: False
      have "nat n \<le> unat (len - d)" using n by (simp add: nat_le_iff)
      also have "unat (len - d) = unat len - unat d" using True by (intro unat_sub) simp
      finally have le: "unat d + nat n \<le> unat len" using True by (simp add: word_less_nat_alt)
      have "uint (len - d) < 2 ^ 32" using int_unat_lt32 [of "len - d"] by simp
      then have w: "unat (word_of_int n :: size_t) = nat n" using n0 n by (intro unat_word_of_int32) linarith+
      have "unat d + unat (word_of_int n :: size_t) < 2 ^ 32" using w le unat_lt32 [of len] by linarith
      from unat_add32 [OF this] have u: "unat (d + word_of_int n) = unat d + nat n" by (simp only: w)
      have "\<exists>r s'. fill_loop os net fd base len off (d + word_of_int n) s1 = Some (r, s') \<and>
          libc.more s' = libc.more s1 \<and> (\<forall>d'. r = Some d' \<longrightarrow> d' \<le> len)"
        using u le n0 True live by (intro less.hyps) (auto simp: word_le_nat_alt word_less_nat_alt)
      then show ?thesis using True pr n0 more by (simp add: fill_loop.simps [of os net fd base len off d s])
    qed
  qed
qed

lemma more_mman:
  "libc.more s' = libc.more (s :: ('w, 'z) mman_state_scheme) \<Longrightarrow>
     regions s' = regions s \<and> mman_ready s' = mman_ready s \<and> have_kubridge s' = have_kubridge s \<and>
     vm_uid s' = vm_uid s \<and> vm_base s' = vm_base s" for s' :: "('w, 'z) mman_state_scheme"
  by (cases s, cases s') simp

lemma fdmap_mman [simp]:
  "fdmap (set_regions rs s) = fdmap s" "fdmap (lock_mman s) = fdmap s" "fdmap (unlock_mman s) = fdmap s"
  "fdmap_pool (set_regions rs s) = fdmap_pool s" "fdmap_pool (lock_mman s) = fdmap_pool s"
  "fdmap_pool (unlock_mman s) = fdmap_pool s"
  by (simp_all add: set_regions_def lock_mman_def unlock_mman_def)

lemma fd_live_mman_map: "fd_live s \<Longrightarrow> fd_live (snd (mman_map os hint len prot s))"
  by (simp add: fd_live_def mman_map_def map_kubridge_def map_pool_def vm_pool_init_def Let_def case_prod_beta
      split: option.splits)

lemma maps_fresh_more:
  assumes "libc.more s' = libc.more (s1 :: ('w, 'z) mman_state_scheme)"
  shows "maps_fresh len prot s res s' = maps_fresh len prot s res s1" "mman_wf s' = mman_wf s1"
  using more_mman [OF assms] by (simp_all add: maps_fresh_def mman_wf_def)

text \<open>C25 (termination): \<^verbatim>\<open>mmap\<close> returns on every input, files included, when the positioned read
  returns at most what it is asked for. On failure, also when reading the file fails halfway, the
  address space is what it was before the call; on success it has exactly the new mapping in
  addition, with the requested protection.\<close>

theorem mmap_returns:
  assumes "mman_wf s" "pool_contract os" "protect_silent os" "pread_bounded os" "fd_live s"
    and "reserve_contract os (if flags AND MAP_FIXED \<noteq> 0 then a else 0) (MMAN_PAGE_ALIGN len) (lock_mman s)"
  shows "\<exists>p s'. mmap os net a len prot flags fd off s = Some (p, s') \<and> regions_wf (regions s') \<and>
    ((p = MAP_FAILED \<and> space (regions s') = space (regions s)) \<or>
     (p \<noteq> MAP_FAILED \<and> errno s' = 0 \<and> maps_fresh (MMAN_PAGE_ALIGN len) prot s (p, 0) s'))"
proof (cases "flags AND MAP_ANONYMOUS \<noteq> 0")
  case True
  then show ?thesis
    using mmap_anonymous_spec [OF assms(1-3) True assms(6), of net prot fd off] by (auto simp: mman_wf_def)
next
  case anon: False
  let ?n = "MMAN_PAGE_ALIGN len"
  obtain p err s1 where m: "mman_map os (if flags AND MAP_FIXED \<noteq> 0 then a else 0) len (prot OR PROT_WRITE) s = ((p, err), s1)"
    by (metis prod.exhaust)
  have sp: "mman_wf s1 \<and> maps_fresh ?n (prot OR PROT_WRITE) s (p, err) s1"
    by (rule mman_map_spec [OF assms(1,2,6) m])
  have wf: "regions_wf (regions s)" using assms(1) by (simp add: mman_wf_def)
  show ?thesis
  proof (cases "len = 0 \<or> off < 0 \<or> off AND 0xFFF \<noteq> 0 \<or> flags AND (MAP_SHARED OR MAP_PRIVATE) = 0 \<or> fd < 0 \<or>
      (flags AND MAP_SHARED \<noteq> 0 \<and> prot AND PROT_WRITE \<noteq> 0) \<or> p = 0")
    case True
    then have "\<exists>s'. mmap os net a len prot flags fd off s = Some (MAP_FAILED, s') \<and> regions s' = regions s"
      using anon m sp by (auto simp: mmap_def Let_def maps_fresh_def)
    then show ?thesis using wf by auto
  next
    case False
    then have ready: "mman_ready s" "?n \<noteq> 0" using m by (auto simp: mman_map_def Let_def split: if_splits)
    have ready1: "mman_ready s1" using ready(1) mman_ready_map [of os _ len "prot OR PROT_WRITE" s] m by (metis snd_conv)
    have err: "err = 0" and al: "page_aligned p" using sp False by (auto simp: maps_fresh_def)
    have "fd_live s1" using fd_live_mman_map [OF assms(5)] m by (metis snd_conv)
    then obtain r s2 where fl: "fill_loop os net fd p len off 0 s1 = Some (r, s2)" "libc.more s2 = libc.more s1"
      using fill_loop_total [OF assms(4), of s1 0 len net fd p off] by auto
    have s2: "mman_wf s2" "maps_fresh ?n (prot OR PROT_WRITE) s (p, 0) s2" "mman_ready s2"
      using sp err maps_fresh_more [OF fl(2)] more_mman [OF fl(2)] ready1 by auto
    show ?thesis
    proof (cases r)
      case None
      obtain ret t where u: "mman_unmap os p len s2 = (ret, t)" by fastforce
      have "mmap os net a len prot flags fd off s = Some (MAP_FAILED, set_errno (errno s2) t)"
        using anon False m fl(1) None u by (auto simp: mmap_def Let_def)
      then show ?thesis using unmap_fresh [OF s2(1,3,2) ready(2) u] by (auto simp: fun_eq_iff)
    next
      case (Some d)
      let ?s3 = "set_mem (mem_set (p + d) 0 (?n - d) (mem s2)) s2"
      have run: "mmap os net a len prot flags fd off s = Some (mmap_finish os p len prot ?s3)"
        using anon False m fl(1) Some by (auto simp: mmap_def Let_def)
      have "mman_wf ?s3" "mman_ready ?s3" "maps_fresh ?n (prot OR PROT_WRITE) s (p, 0) ?s3" using s2 by simp_all
      from mmap_finish_spec [OF this assms(3)] show ?thesis
        using run page_aligned_not_failed [OF al] prod.collapse [of "mmap_finish os p len prot ?s3"]
        by (intro exI [of _ p] exI [of _ "snd (mmap_finish os p len prot ?s3)"]) (auto simp: mman_wf_def)
    qed
  qed
qed

theorem mmap_returns_witness:
  "\<exists>p s'. mmap pool_os (\<lambda>e. e) 0 1 1 2 5 0 demo_mman = Some (p, s') \<and> regions_wf (regions s')"
proof -
  have "pread_bounded pool_os" by (simp add: pread_bounded_def pool_os_def)
  moreover have "fd_live demo_mman" by (simp add: fd_live_def demo_mman_def fd_state.defs blank_state_def)
  ultimately show ?thesis
    using mmap_returns [OF demo_mman_wf pool_os_contract(1) pool_os_silent _ _ pool_os_contract(2),
        where flags = 2 and a = 0 and len = 1 and net = "\<lambda>e. e" and prot = 1 and fd = 5 and off = 0] by blast
qed

text \<open>C26 (equivalence): on a well-formed table the queries agree with the address space and change
  nothing but \<open>errno\<close>: \<^verbatim>\<open>mlock\<close>, \<^verbatim>\<open>munlock\<close> and, at a page-aligned address, \<^verbatim>\<open>posix_madvise\<close> and the
  hints of \<^verbatim>\<open>madvise\<close> succeed for a positive length exactly when every address from the start
  to the page-aligned end is mapped, and report ENOMEM otherwise.\<close>

theorem queries_decide_mapped:
  assumes "regions_wf (regions s)" "mman_ready s" "len \<noteq> 0" "page_aligned a"
    and "m \<longleftrightarrow> (\<forall>x. a \<le> x \<and> x < MMAN_PAGE_ALIGN (a + len) \<longrightarrow> space (regions s) x \<noteq> None)"
  shows "mlock a len s = Some (if m then 0 else - 1, set_errno (if m then 0 else ENOMEM) s) \<and>
    munlock a len s = mlock a len s \<and>
    (advice \<in> {0, 1, 2, 3, 4} \<longrightarrow> posix_madvise a len advice s = Some (if m then 0 else ENOMEM, s)) \<and>
    (advice \<in> {0, 1, 2, 3, 10, 11, 12, 13, 14, 15, 16, 17, 18, 19} \<longrightarrow>
       madvise os a len advice s = Some (if m then 0 else - 1, set_errno (if m then 0 else ENOMEM) s)) \<and>
    (vec \<noteq> 0 \<longrightarrow> mincore a len vec s = Some (if m
       then (0, set_errno 0 (set_mem (mem_set vec 1 (MMAN_PAGE_ALIGN len div MMAN_PAGE_SIZE) (mem s)) s))
       else (- 1, set_errno ENOMEM s)))"
proof -
  have mm: "mman_mapped a len s = Some (m, s)"
    using assms(1,2,5) by (simp add: mman_mapped_def Let_def mapped_loop_spec)
  have req: "require_mapped a len succeed s = Some (if m then 0 else - 1, set_errno (if m then 0 else ENOMEM) s)"
    by (simp add: require_mapped_def mm succeed_def)
  have "madvise os a len advice s = require_mapped a len succeed s"
    if "advice \<in> {0, 1, 2, 3, 10, 11, 12, 13, 14, 15, 16, 17, 18, 19}"
    using that assms(3,4) by (auto simp: madvise_def page_aligned_and)
  then show ?thesis
    using assms(3,4) req
    by (simp add: mlock_def munlock_def posix_madvise_def mincore_def page_aligned_and mm require_mapped_def succeed_def)
qed

theorem queries_decide_mapped_witness:
  "mlock 0x80003000 1 demo_mman = Some (- 1, set_errno ENOMEM demo_mman)"
proof -
  have e: "MMAN_PAGE_ALIGN (0x80003000 + 1) = 0x80004000" by (simp add: MMAN_PAGE_ALIGN_def MMAN_PAGE_SIZE_def)
  have "\<not> (\<forall>x. 0x80003000 \<le> x \<and> x < 0x80004000 \<longrightarrow> space (regions demo_mman) x \<noteq> None)"
    unfolding demo_space by (intro notI) (drule spec [of _ "0x80003000"], simp)
  then show ?thesis
    using queries_decide_mapped [OF demo_wf demo_mman_simps(2), where len = 1 and a = "0x80003000" and m = False]
    unfolding e by (simp add: page_aligned_def del: demo_mman_simps not_None_eq)
qed

end
