(* ===== verification/Libc_Start.thy ===== *)
theory Libc_Start
  imports Posix_Mman
begin

text \<open>
  Start and stop: the module itself (\<^verbatim>\<open>src/prx.c\<close> with \<^verbatim>\<open>__init_fios2\<close> of \<^verbatim>\<open>vitafs.c\<close>), the start files of a module
  (\<^verbatim>\<open>crt/crt0_module.c\<close>) and of a program (\<^verbatim>\<open>crt/crt0_main.c\<close>). The state is that of the region table, which extends the
  descriptor table. Static constructors, \<open>main\<close> and the functions of the user's module are parameters.
\<close>

section \<open>The storage of FIOS\<close>

definition SCE_FIOS_ALIGN_UP :: "nat \<Rightarrow> nat \<Rightarrow> nat" where
  "SCE_FIOS_ALIGN_UP val align = unat (of_nat (val + (align - 1)) AND NOT (of_nat (align - 1)) :: 32 word)"

definition SCE_FIOS_STORAGE_SIZE :: "nat \<Rightarrow> nat \<Rightarrow> nat" where
  "SCE_FIOS_STORAGE_SIZE num sz = num * sz + SCE_FIOS_ALIGN_UP (SCE_FIOS_ALIGN_UP num 8 div 8) 8"

text \<open>The length in bytes of an array of 64-bit numbers declared for a storage size.\<close>

definition storage_bytes :: "nat \<Rightarrow> nat" where
  "storage_bytes n = (n div 8 + 1) * 8"

definition MAX_PATH_LENGTH :: nat where "MAX_PATH_LENGTH = 256"

definition init_fios2 :: "'w services \<Rightarrow> ('w, 'z) libc_scheme \<Rightarrow> ('w, 'z) libc_scheme" where
  "init_fios2 os s =
     snd (sys os (Fios (sceFiosInitialize
       [storage_bytes (SCE_FIOS_STORAGE_SIZE 64 (168 + MAX_PATH_LENGTH)), storage_bytes (SCE_FIOS_STORAGE_SIZE 1024 64),
        storage_bytes (SCE_FIOS_STORAGE_SIZE 64 (80 + MAX_PATH_LENGTH)), storage_bytes (SCE_FIOS_STORAGE_SIZE 16 (80 + MAX_PATH_LENGTH))]
       MAX_PATH_LENGTH)) s)"

section \<open>The module\<close>

text \<open>The argument is the length of the block and the word in it; \<open>None\<close> is a null pointer.\<close>

definition module_start ::
  "'w services \<Rightarrow> (ku_import \<Rightarrow> addr) \<Rightarrow> 32 word \<Rightarrow> 32 word option \<Rightarrow> ('w, 'z) mman_state_scheme \<Rightarrow>
     int \<times> ('w, 'z) mman_state_scheme" where
  "module_start os stub args argp s =
     (let flags = (case argp of Some v \<Rightarrow> if args = 4 then v else 0 | None \<Rightarrow> 0);
          s = init_fd os s;
          s = (if flags AND 1 = 0 then init_fios2 os s else s)
      in (0, init_mman os stub s))"

definition module_stop :: "'w services \<Rightarrow> ('w, 'z) mman_state_scheme \<Rightarrow> int \<times> ('w, 'z) mman_state_scheme" where
  "module_stop os s = (0, free_fd (fini_mman os s))"

definition module_exit :: "'w services \<Rightarrow> ('w, 'z) mman_state_scheme \<Rightarrow> ('w, 'z) mman_state_scheme" where
  "module_exit os s = free_fd (fini_mman os s)"

section \<open>The start file of a module\<close>

text \<open>\<open>tls\<close> tells whether the module has thread-local storage; \<open>ctors\<close> are the two arrays of constructors.\<close>

definition module_start_main ::
  "'w services \<Rightarrow> bool \<Rightarrow> (('w, 'z) libc_scheme \<Rightarrow> ('w, 'z) libc_scheme) list \<Rightarrow>
     (('w, 'z) libc_scheme \<Rightarrow> int \<times> ('w, 'z) libc_scheme) \<Rightarrow> ('w, 'z) libc_scheme \<Rightarrow> int \<times> ('w, 'z) libc_scheme" where
  "module_start_main os tls ctors start s =
     (let (ret, s) = (if tls then (let (r, s) = sys os (Start (sceLdTlsRegisterModuleInfo 0)) s in (rp_ret r, s)) else (0, s)) in
      if ret \<noteq> 0 then (2, s)
      else
        (let s = fold (\<lambda>f s. f s) ctors s; (status, s) = start s in
         if status = 2 \<or> status = 1 then
           (let s = snd (sys os (Start cxa_finalize) s);
                (ret, s) = (if tls then (let (r, s) = sys os (Start sceLdTlsUnregisterModuleInfo) s in (rp_ret r, s)) else (0, s))
            in if ret \<noteq> 0 then (2, s) else (0, s))
         else (0, s)))"

definition module_stop_main ::
  "'w services \<Rightarrow> bool \<Rightarrow> (('w, 'z) libc_scheme \<Rightarrow> int \<times> ('w, 'z) libc_scheme) \<Rightarrow> ('w, 'z) libc_scheme \<Rightarrow>
     int \<times> ('w, 'z) libc_scheme" where
  "module_stop_main os tls stop s =
     (let (status, s) = stop s in
      if status \<noteq> 1 then
        (let s = snd (sys os (Start cxa_finalize) s);
             (ret, s) = (if tls then (let (r, s) = sys os (Start sceLdTlsUnregisterModuleInfo) s in (rp_ret r, s)) else (0, s))
         in (if ret \<noteq> 0 then 2 else status, s))
      else (status, s))"

definition module_exit_main ::
  "'w services \<Rightarrow> bool \<Rightarrow> (('w, 'z) libc_scheme \<Rightarrow> ('w, 'z) libc_scheme) \<Rightarrow> ('w, 'z) libc_scheme \<Rightarrow> ('w, 'z) libc_scheme" where
  "module_exit_main os tls ex s =
     (let s = snd (sys os (Start cxa_finalize) (ex s))
      in if tls then snd (sys os (Start sceLdTlsUnregisterModuleInfo) s) else s)"

section \<open>The start file of a program\<close>

definition ARGC_MAX :: nat where "ARGC_MAX = 31"

text \<open>
  The loop over the argument block, as offsets of the arguments: \<open>strnlen_s\<close> is the length up to a zero or the end of the block.
\<close>

definition strnlen_s :: "string \<Rightarrow> nat" where
  "strnlen_s t = length (takeWhile (\<lambda>c. c \<noteq> CHR 0x00) t)"

function arg_loop :: "string \<Rightarrow> nat \<Rightarrow> nat list \<Rightarrow> nat list" where
  "arg_loop block loc argv =
     (if loc < length block then
        (let argv' = argv @ [loc]; loc' = loc + strnlen_s (drop loc block) + 1 in
         if Suc (length argv') = ARGC_MAX then argv' else arg_loop block loc' argv')
      else argv)"
  by pat_completeness auto
termination
  by (relation "measure (\<lambda>(block, loc, argv). length block - loc)") auto

declare arg_loop.simps [simp del]

text \<open>The vector: the empty program name, then the arguments.\<close>

definition arg_vector :: "string \<Rightarrow> string list" where
  "arg_vector block = [] # map (\<lambda>loc. takeWhile (\<lambda>c. c \<noteq> CHR 0x00) (drop loc block)) (arg_loop block 0 [])"

datatype start_result = Aborted | Exited int

text \<open>Loading the modules of the user: the first failure aborts.\<close>

fun load_modules :: "'w services \<Rightarrow> string list \<Rightarrow> ('w, 'z) libc_scheme \<Rightarrow> bool \<times> ('w, 'z) libc_scheme" where
  "load_modules os [] s = (True, s)"
| "load_modules os (n # ns) s =
     (let (r, s) = sys os (Kernel (sceKernelLoadStartModule n [])) s in
      if rp_ret r < 0 then (False, snd (sys os (Start (sceClibPrintf n)) s)) else load_modules os ns s)"

definition crt0_initialize ::
  "'w services \<Rightarrow> bool \<Rightarrow> bool \<Rightarrow> string list \<Rightarrow> (('w, 'z) libc_scheme \<Rightarrow> ('w, 'z) libc_scheme) list \<Rightarrow>
     (string list \<Rightarrow> ('w, 'z) libc_scheme \<Rightarrow> int \<times> ('w, 'z) libc_scheme) \<Rightarrow> string \<Rightarrow> ('w, 'z) libc_scheme \<Rightarrow>
     start_result \<times> ('w, 'z) libc_scheme" where
  "crt0_initialize os tls disable_fios2 user_modules ctors main block s =
     (let s = snd (sys os (Start cxa_set_dso_handle_main) s);
          (ret, s) = (if tls then (let (r, s) = sys os (Start (sceLdTlsRegisterModuleInfo 1)) s in (rp_ret r, s)) else (0, s))
      in if ret \<noteq> 0 then (Aborted, s)
         else
           (let argv = arg_vector block;
                flags = (if disable_fios2 then [1, 0, 0, 0] else [0, 0, 0, 0]) :: byte list;
                (r, s) = sys os (Kernel (sceKernelLoadStartModule ''app0:sce_module/SceLibcPosix.suprx'' flags)) s;
                ret = rp_ret r
            in if ret < 0 \<and> (word_of_int ret :: 32 word) \<noteq> 0x8002D013 then
                 (Aborted, snd (sys os (Start (sceClibPrintf ''app0:sce_module/SceLibcPosix.suprx'')) s))
               else
                 (case load_modules os user_modules s of
                    (False, s) \<Rightarrow> (Aborted, s)
                  | (True, s) \<Rightarrow>
                      (let s = fold (\<lambda>f s. f s) ctors s; (r, s) = main argv s in (Exited r, s)))))"

section \<open>The argument vector\<close>

text \<open>The reference: the zero-terminated pieces of the block.\<close>

function pieces :: "string \<Rightarrow> string list" where
  "pieces t = (if t = [] then [] else takeWhile (\<lambda>c. c \<noteq> CHR 0x00) t # pieces (drop (strnlen_s t + 1) t))"
  by pat_completeness auto
termination
  by (relation "measure length") auto

declare pieces.simps [simp del]

lemma arg_loop_pieces:
  "length argv < 30 \<Longrightarrow>
   map (\<lambda>l. takeWhile (\<lambda>c. c \<noteq> CHR 0x00) (drop l block)) (arg_loop block loc argv) =
   map (\<lambda>l. takeWhile (\<lambda>c. c \<noteq> CHR 0x00) (drop l block)) argv @ take (30 - length argv) (pieces (drop loc block))"
proof (induction "30 - length argv" arbitrary: loc argv)
  case 0
  then show ?case by simp
next
  case (Suc n)
  let ?f = "\<lambda>l. takeWhile (\<lambda>c. c \<noteq> CHR 0x00) (drop l block)"
  show ?case
  proof (cases "loc < length block")
    case True
    let ?loc = "loc + strnlen_s (drop loc block) + 1"
    have p: "pieces (drop loc block) = ?f loc # pieces (drop ?loc block)"
      using True by (simp add: pieces.simps [of "drop loc block"] add.commute)
    show ?thesis
    proof (cases "Suc (Suc (length argv)) = ARGC_MAX")
      case last: True
      then have "arg_loop block loc argv = argv @ [loc]" using True by (simp add: arg_loop.simps [of block loc] Let_def)
      moreover have "30 - length argv = 1" using last by (simp add: ARGC_MAX_def)
      ultimately show ?thesis by (simp add: p)
    next
      case False
      then have "length (argv @ [loc]) < 30" "n = 30 - length (argv @ [loc])"
        using Suc.prems Suc.hyps(2) by (auto simp: ARGC_MAX_def)
      moreover have "arg_loop block loc argv = arg_loop block ?loc (argv @ [loc])"
        using True False by (simp add: arg_loop.simps [of block loc] Let_def)
      moreover have "30 - length argv = Suc (30 - length (argv @ [loc]))" using Suc.hyps(2) by simp
      ultimately show ?thesis using Suc.hyps(1) [of "argv @ [loc]" ?loc] by (simp add: p)
    qed
  next
    case False
    then show ?thesis by (simp add: arg_loop.simps [of block loc] pieces.simps [of "[]"])
  qed
qed

lemma arg_vector_pieces: "arg_vector block = [] # take 30 (pieces block)"
  using arg_loop_pieces [of "[]" block 0] by (simp add: arg_vector_def)

text \<open>The array of 32 pointers has room for the arguments and the null pointer at the end.\<close>

lemma arg_vector_fits: "length (arg_vector block) \<le> ARGC_MAX"
  by (simp add: arg_vector_pieces ARGC_MAX_def)

text \<open>
  A module whose \<open>module_start\<close> reports failure (2) or that it need not stay (1) is torn down, and the start is reported
  as successful.
\<close>

lemma failed_start_reports_success:
  assumes "start (fold (\<lambda>f s. f s) ctors s) = (2, s')"
  shows "module_start_main os False ctors start s = (0, snd (sys os (Start cxa_finalize) s'))"
  using assms by (simp add: module_start_main_def Let_def)

section \<open>Starting the module\<close>

lemma more_init_fios2 [simp]: "libc.more (init_fios2 os s) = libc.more s"
  by (simp add: init_fios2_def)

lemma vm_uid_init_fd [simp]: "vm_uid (init_fd os s) = vm_uid s"
  by (simp add: init_fd_def init_std_def set_slot_def set_entry_def unlock_fd_def sys_def Let_def case_prod_beta)

lemma vm_uid_init_fios2 [simp]: "vm_uid (init_fios2 os s) = vm_uid s"
  by (simp add: init_fios2_def sys_def case_prod_beta)

lemma fd_mutex_init_fd: "fd_mutex (init_fd os s) = 0"
  by (simp add: init_fd_def init_std_def set_slot_def set_entry_def unlock_fd_def sys_def Let_def case_prod_beta)

lemma kubridge_usable_fields:
  "fdmap (snd (kubridge_usable os stub s)) = fdmap s" "fdmap_pool (snd (kubridge_usable os stub s)) = fdmap_pool s"
  "fd_mutex (snd (kubridge_usable os stub s)) = fd_mutex s" "mman_mutex (snd (kubridge_usable os stub s)) = mman_mutex s"
  "vm_uid (snd (kubridge_usable os stub s)) = vm_uid s"
  by (simp_all add: kubridge_usable_def module_loaded_def sys_def Let_def case_prod_beta)

lemma init_mman_fields:
  "fdmap (init_mman os stub s) = fdmap s" "fdmap_pool (init_mman os stub s) = fdmap_pool s"
  "fd_mutex (init_mman os stub s) = fd_mutex s" "mman_mutex (init_mman os stub s) = 0"
  "vm_uid (init_mman os stub s) = vm_uid s" "regions (init_mman os stub s) = []" "mman_ready (init_mman os stub s)"
  by (simp_all add: init_mman_def unlock_mman_def kubridge_usable_fields Let_def case_prod_beta)

lemma init_fios2_fields:
  "fdmap (init_fios2 os s) = fdmap s" "fdmap_pool (init_fios2 os s) = fdmap_pool s" "fd_mutex (init_fios2 os s) = fd_mutex s"
  by (simp_all add: init_fios2_def sys_def case_prod_beta)

lemma fini_loop_fields:
  "fdmap (fini_loop os before rs s) = fdmap s" "fdmap_pool (fini_loop os before rs s) = fdmap_pool s"
  "fd_mutex (fini_loop os before rs s) = fd_mutex s" "mman_mutex (fini_loop os before rs s) = mman_mutex s"
  "vm_uid (fini_loop os before rs s) = vm_uid s"
  by (induction rs arbitrary: before s) (simp_all add: sys_def Let_def case_prod_beta)

lemma fini_mman_fields:
  assumes "mman_ready s"
  shows "fdmap (fini_mman os s) = fdmap s" "fdmap_pool (fini_mman os s) = fdmap_pool s" "fd_mutex (fini_mman os s) = fd_mutex s"
    "mman_mutex (fini_mman os s) = mman_mutex s" "vm_uid (fini_mman os s) < 0" "regions (fini_mman os s) = []"
    "\<not> mman_ready (fini_mman os s)"
  using assms
  by (simp_all add: fini_mman_def lock_mman_def unlock_mman_def set_regions_def fini_loop_fields sys_def Let_def case_prod_beta)

lemma less_three: "n < 3 \<longleftrightarrow> n = 0 \<or> n = Suc 0 \<or> n = 2" for n :: nat
  by auto

lemma free_fd_fields:
  "fd_mutex (free_fd s) = fd_mutex s" "fdmap (free_fd s) = (\<lambda>n. if n < 3 then None else fdmap s n)"
  "mman_mutex (free_fd t) = mman_mutex t" "vm_uid (free_fd t) = vm_uid t" "regions (free_fd t) = regions t" "mman_ready (free_fd t) = mman_ready t"
  by (auto simp: free_fd_def free_std_def set_slot_def set_entry_def lock_fd_def unlock_fd_def fun_eq_iff less_three split: option.splits)

end
