(* ===== verification/Spec2Isabelle.thy ===== *)
theory Spec2Isabelle
  imports Posix_Process Posix_Dirent Net_Poll Posix_Env Net_Resolver C_Wide C_Type Posix_Misc Posix_Monetary Posix_Time
    Posix_Conf Libc_Start
begin

text \<open>
  A model of SceLibcPosix, the POSIX layer over SceLibc for the PlayStation Vita. The library keeps a table of descriptors over the
  handles of the platform (files and directories of FIOS2, sockets of SceNet, message pipes, terminals), a table of mapped memory
  regions, a working directory with a drive, and the environment; around these it provides the functions of POSIX, most of which
  grab a table entry or resolve a path, make one platform call, give the entry or the path back, and translate the result into
  \<open>errno\<close>. The rest is code of its own: strings, addresses as text, path names, numbers, start files.

  \<^bold>\<open>How the program is modelled.\<close> Every function of the source is a HOL function of the same name (with a suffix or prefix where HOL
  has the name, as \<open>posix_read\<close>). The state is a record that is extended along the imports: \<open>libc\<close> (\<open>errno\<close>, the byte memory, the
  state of the platform) by \<open>env_state\<close> and by \<open>fd_state\<close>, and that by \<open>mman_state\<close>, \<open>fs_state\<close> and \<open>net_state\<close>, so that
  the operations of one component apply to the state of another. The platform is the parameter \<open>os\<close>: a function from a call (the
  datatype \<open>sce_call\<close>, one constructor for each service the source uses) and a platform state to a reply and a new state. What
  a theorem needs of the platform is a named hypothesis, and its witness gives a platform that meets it. That the right service is
  called is stated through what the calls mean (\<open>call_closes\<close>, \<open>call_reads\<close>, \<open>call_writes\<close>, over the kinds of \<open>platform_handle\<close>), not through the
  dispatch of the code. Values of SDK headers that are not
  part of the repository are parameters (\<open>net\<close>, \<open>sdk\<close>, \<open>limits\<close>, \<open>signo\<close>). Integers of the C types are words where they can wrap,
  and integers otherwise. Behaviour that C leaves undefined is the outer \<open>None\<close> of a result.

  \<^bold>\<open>Theories and sources\<close> (under \<^verbatim>\<open>src/src\<close> unless another directory is named):
  \<^item> \<^verbatim>\<open>Posix_Prelude\<close>: C types, memory, error numbers, search loops. \<^verbatim>\<open>Sce_Services\<close>: the platform interface and the shared state.
  \<^item> \<^verbatim>\<open>Vita_Error\<close>: \<^verbatim>\<open>internal/vitaerror.c\<close>; packing an error number and translating it back.
  \<^item> \<^verbatim>\<open>Vita_Descriptor\<close>, \<^verbatim>\<open>Fd_Table\<close>: \<^verbatim>\<open>internal/vitadescriptor.c\<close>; the table, its reference counts, the reachable tables as an inductive
    relation over all operations and entries in flight, and the locale \<open>pinned_fd\<close>, the contract of grab and drop that the
    functions on descriptors rely on, interpreted on \<open>fd_grab\<close> and \<open>fd_drop\<close>.
  \<^item> \<^verbatim>\<open>Unistd_IO\<close>, \<^verbatim>\<open>Unistd_Fd\<close>: the functions of \<^verbatim>\<open>unistd\<close> on descriptors; refinement to the platform call, vectors, duplication, pipes.
  \<^item> \<^verbatim>\<open>Vita_Mman\<close>, \<^verbatim>\<open>Mman_Regions\<close>, \<^verbatim>\<open>Mman_Unmap\<close>, \<^verbatim>\<open>Mman_Ops\<close>, \<^verbatim>\<open>Mman_Resize\<close>: \<^verbatim>\<open>internal/vitamman.c\<close>. The abstract address space is a map
    from addresses to reservation and protection; the operations refine updates of it. The locale \<open>region_store\<close> is the contract of the
    table, interpreted on the sorted array. \<^verbatim>\<open>Posix_Mman\<close>: \<^verbatim>\<open>mman\<close>.
  \<^item> \<^verbatim>\<open>Path_Resolve\<close>, \<^verbatim>\<open>Vita_Fs\<close>: \<^verbatim>\<open>internal/vitafs.c\<close>; normal forms and full names of paths. \<^verbatim>\<open>Posix_Fs\<close>: \<^verbatim>\<open>fnctl\<close>, \<^verbatim>\<open>stat\<close> and the path
    functions of \<^verbatim>\<open>unistd\<close>, with the invariant of all reachable states. \<^verbatim>\<open>Posix_Dirent\<close>: \<^verbatim>\<open>dirent\<close>.
  \<^item> \<^verbatim>\<open>Net_Socket\<close>, \<^verbatim>\<open>Net_Poll\<close>, \<^verbatim>\<open>Net_Addr\<close>, \<^verbatim>\<open>Net_Resolver\<close>: \<^verbatim>\<open>internal/vitanet.c\<close>, \<^verbatim>\<open>network\<close>, \<^verbatim>\<open>select\<close>.
  \<^item> \<^verbatim>\<open>Posix_Env\<close>: \<^verbatim>\<open>env\<close>, as a map from names to values; the locale \<open>name_store\<close> derives the effect of a history of calls from the
    laws of one call and is interpreted on \<open>setenv\<close> and \<open>unsetenv\<close>.
  \<^item> \<^verbatim>\<open>C_String\<close>, \<^verbatim>\<open>C_Wide\<close>, \<^verbatim>\<open>C_Type\<close>: \<^verbatim>\<open>string\<close>, \<^verbatim>\<open>ctype\<close>, \<^verbatim>\<open>include/ctype.h\<close>; the loops on aligned words equal the loops on bytes.
  \<^item> \<^verbatim>\<open>Posix_Misc\<close>, \<^verbatim>\<open>Posix_Monetary\<close>, \<^verbatim>\<open>Posix_Time\<close>, \<^verbatim>\<open>Posix_Conf\<close>, \<^verbatim>\<open>Posix_Process\<close>: \<^verbatim>\<open>misc\<close>, \<^verbatim>\<open>prng\<close>, \<^verbatim>\<open>locale\<close>, \<^verbatim>\<open>time\<close>, \<^verbatim>\<open>conf\<close>,
    \<^verbatim>\<open>signal\<close>, \<^verbatim>\<open>stdlib\<close>, \<^verbatim>\<open>stdio\<close>, \<^verbatim>\<open>passwd\<close> and the rest of \<^verbatim>\<open>unistd\<close> and \<^verbatim>\<open>vita\<close>.
  \<^item> \<^verbatim>\<open>Libc_Start\<close>: \<^verbatim>\<open>prx.c\<close>, the initialisation of FIOS2, and the start files in \<^verbatim>\<open>src/crt\<close>.

  \<^bold>\<open>Loops.\<close> Loops bounded by a counter or an array are structural or have a measure. A loop that ends only because of its data is a
  \<open>partial_function\<close> into \<open>option\<close>, in which not returning is \<open>None\<close>: the copies and searches of zero-terminated strings
  (total on terminated strings: \<open>cpy_bytes_string\<close>, \<open>chr_bytes_stop\<close>), \<open>mapped_loop\<close> (total on well-formed tables, C19), \<open>fill_loop\<close> of
  \<open>mmap\<close> (total when a read gives no more than was asked, C25), \<open>seek_loop\<close> (total on finite listings, C32) and \<open>scan_loop\<close>, of
  which nothing is claimed for endless listings. No definition uses fuel.

  \<^bold>\<open>Findings.\<close> Where the code does not do what it means to, the model keeps what it does and a lemma says so: among others the mutex
  that \<open>__duplicate_descriptor2\<close> keeps, handles passed as descriptors by the vectored calls, the descriptor that a failed \<open>pipe\<close> leaves,
  overlong paths that act on the root of a drive, and the handlers that \<open>raise\<close> never calls.

  \<^bold>\<open>Not modelled.\<close> Threads are represented by sequences of operations, each of which holds the mutex of its component; preemption
  inside an operation that does not hold it is not. \<^verbatim>\<open>setjmp.S\<close> is assembly. \<^verbatim>\<open>internal/setlocale.h\<close>, \<^verbatim>\<open>stdlib/local.h\<close> and most of
  \<^verbatim>\<open>internal/fios2.h\<close> are declarations. \<open>__errno\<close>, \<open>strerror_r\<close>, \<open>alphasort\<close>, \<open>atexit\<close> and \<open>at_quick_exit\<close> only forward to
  SceLibc; \<^verbatim>\<open>misc/newlibstub.c\<close> is data for newlib binaries. The test program and the benchmarks are left out.
  A null pointer from the FIOS services that give the path of a handle is not represented (\<open>fchdir\<close>, \<open>fchmod\<close>, \<open>fstatvfs\<close>, \<open>fsync\<close>), nor are
  the byte that \<open>__resolve_path\<close> may read past a path of maximal length and the overflow of a width in a format of \<open>strfmon\<close>.
\<close>

section \<open>The life of the module\<close>

text \<open>C40 (invariant): Starting the module, the address-space state being as the loader leaves it (no memory block), gives a
  descriptor table whose reference counts are exact with nothing in flight and an initialised, well-formed region table, both
  mutexes free. Stopping it in any state with an initialised region table clears exactly the three standard descriptors, empties
  the region table and gives its block back.\<close>

theorem module_lifecycle:
  assumes "vm_uid s < 0" "s1 = snd (module_start os stub args argp s)" "mman_ready t" "t1 = snd (module_stop os t)"
  shows "fd_exact (\<lambda>_. 0) s1 \<and> fd_mutex s1 = 0 \<and> mman_wf s1 \<and> mman_mutex s1 = 0 \<and> mman_ready s1 \<and>
    fdmap t1 = (\<lambda>n. if n < 3 then None else fdmap t n) \<and> fd_mutex t1 = fd_mutex t \<and>
    regions t1 = [] \<and> vm_uid t1 < 0 \<and> \<not> mman_ready t1 \<and> mman_mutex t1 = mman_mutex t"
proof -
  let ?s0 = "init_fd os s"
  obtain s0 where s0: "s1 = init_mman os stub s0" "fdmap s0 = fdmap ?s0" "fdmap_pool s0 = fdmap_pool ?s0" "fd_mutex s0 = 0" "vm_uid s0 < 0"
    using assms(1,2) by (cases "(case argp of Some v \<Rightarrow> if args = 4 then v else 0 | None \<Rightarrow> 0) AND 1 = 0")
      (simp_all add: module_start_def Let_def init_fios2_fields fd_mutex_init_fd)
  have e: "fd_exact (\<lambda>_. 0) ?s0" by (rule init_exact)
  have "fd_exact (\<lambda>_. 0) s1" using e s0 by (simp add: fd_exact_def fd_wf_def slack_def init_mman_fields)
  moreover have "mman_wf s1" using s0 by (simp add: mman_wf_def init_mman_fields regions_wf_def)
  ultimately show ?thesis
    using s0 assms(3,4) by (simp add: init_mman_fields module_stop_def free_fd_fields fini_mman_fields cong: if_cong)
qed

theorem module_lifecycle_witness:
  "fd_exact (\<lambda>_. 0) (snd (module_start quiet_os (\<lambda>_. 0) 0 None (demo_mman\<lparr>vm_uid := - 1\<rparr>))) \<and>
   regions (snd (module_stop quiet_os (demo_mman\<lparr>mman_ready := True\<rparr>))) = []"
  using module_lifecycle [OF _ refl _ refl, where s = "demo_mman\<lparr>vm_uid := - 1\<rparr>" and t = "demo_mman\<lparr>mman_ready := True\<rparr>"
      and os = quiet_os and stub = "\<lambda>_. 0" and args = 0 and argp = None] by simp

end
